(* ===== verification/Vertex_Prelude.thy ===== *)
theory Vertex_Prelude
  imports Main "HOL-Library.Word"
begin

text \<open>
  Shared vocabulary of the development: the machine-integer ranges of the Rust
  sources, their saturating, checked and wrapping arithmetic, the 32-byte
  identifiers, and the generic lemmas on lists and maps that the component
  theories use.

  A Rust \<^verbatim>\<open>i64\<close> is an \<open>int\<close> with its range written out; a \<^verbatim>\<open>u64\<close>, \<^verbatim>\<open>u128\<close>,
  \<^verbatim>\<open>usize\<close> or \<^verbatim>\<open>U256\<close> is a \<open>nat\<close> with its bound written out. Subtraction on
  \<open>nat\<close> stops at zero, which is exactly the unsigned \<^verbatim>\<open>saturating_sub\<close>; every
  other unsigned subtraction of the sources is guarded where it is modelled.
\<close>

section \<open>Collections of facts\<close>

named_theorems au_defs \<open>definitions of the accounting-unit operations\<close>
named_theorems in_range \<open>range facts: the result of an operation fits its width\<close>
named_theorems table_simps \<open>lookup-after-update laws of ordered tables\<close>

section \<open>Machine integers\<close>

abbreviation i64_max :: int where "i64_max \<equiv> 9223372036854775807"
abbreviation i64_min :: int where "i64_min \<equiv> - 9223372036854775808"
abbreviation u64_max :: nat where "u64_max \<equiv> 18446744073709551615"
abbreviation u64_modulus :: nat where "u64_modulus \<equiv> 18446744073709551616"
abbreviation u256_modulus :: nat where "u256_modulus \<equiv> 2 ^ 256"

definition is_i64 :: "int \<Rightarrow> bool" where
  "is_i64 x \<longleftrightarrow> i64_min \<le> x \<and> x \<le> i64_max"

definition is_u64 :: "nat \<Rightarrow> bool" where
  "is_u64 n \<longleftrightarrow> n \<le> u64_max"

text \<open>The nearest \<^verbatim>\<open>i64\<close> to a mathematical integer: what \<^verbatim>\<open>saturating_add\<close>,
  \<^verbatim>\<open>saturating_sub\<close> and \<^verbatim>\<open>saturating_neg\<close> return of the exact result.\<close>

definition i64_clamp :: "int \<Rightarrow> int" where
  "i64_clamp x = max i64_min (min i64_max x)"

definition u64_saturating_add :: "nat \<Rightarrow> nat \<Rightarrow> nat" where
  "u64_saturating_add a b = min u64_max (a + b)"

definition u64_saturating_mul :: "nat \<Rightarrow> nat \<Rightarrow> nat" where
  "u64_saturating_mul a b = min u64_max (a * b)"

text \<open>\<^verbatim>\<open>AtomicU64::fetch_add\<close> wraps around.\<close>

definition u64_wrapping_add :: "nat \<Rightarrow> nat \<Rightarrow> nat" where
  "u64_wrapping_add a b = (a + b) mod u64_modulus"

text \<open>\<^verbatim>\<open>AtomicUsize::fetch_sub\<close> wraps around.\<close>

definition u64_wrapping_sub :: "nat \<Rightarrow> nat \<Rightarrow> nat" where
  "u64_wrapping_sub a b = (a + (u64_modulus - b mod u64_modulus)) mod u64_modulus"

definition u64_checked_add :: "nat \<Rightarrow> nat \<Rightarrow> nat option" where
  "u64_checked_add a b = (if a + b \<le> u64_max then Some (a + b) else None)"

lemma i64_clamp_in_range [simp, in_range]: "is_i64 (i64_clamp x)"
  by (simp add: is_i64_def i64_clamp_def)

lemma i64_clamp_id [simp]: "is_i64 x \<Longrightarrow> i64_clamp x = x"
  by (simp add: is_i64_def i64_clamp_def)

lemma i64_clamp_mono: "x \<le> y \<Longrightarrow> i64_clamp x \<le> i64_clamp y"
  by (simp add: i64_clamp_def)

lemma i64_clamp_le_iff: "b < i64_max \<Longrightarrow> i64_min \<le> b \<Longrightarrow> i64_clamp x \<le> b \<longleftrightarrow> x \<le> b"
  by (auto simp: i64_clamp_def)

lemma is_i64_zero [simp, in_range]: "is_i64 0"
  by (simp add: is_i64_def)

lemma is_u64_saturating_add [simp, in_range]: "is_u64 (u64_saturating_add a b)"
  by (simp add: is_u64_def u64_saturating_add_def)

lemma is_u64_wrapping_add [simp, in_range]: "is_u64 (u64_wrapping_add a b)"
proof -
  have "(a + b) mod u64_modulus < u64_modulus" by simp
  then show ?thesis unfolding is_u64_def u64_wrapping_add_def by linarith
qed

lemma u64_wrapping_add_exact [simp]:
  "a + b \<le> u64_max \<Longrightarrow> u64_wrapping_add a b = a + b"
  by (simp add: u64_wrapping_add_def)

lemma u64_wrapping_add_mod: "u64_wrapping_add (a mod u64_modulus) b = (a + b) mod u64_modulus"
  by (simp add: u64_wrapping_add_def mod_simps)

lemma mod_diff_wrap:
  fixes a b m :: nat
  assumes "b \<le> a" and "0 < m"
  shows "(a mod m + (m - b mod m)) mod m = (a - b) mod m"
proof -
  have "b mod m \<le> m" using assms(2) by (simp add: less_imp_le)
  then have "a + (m - b mod m) = (a - b) + (b div m + 1) * m"
    using assms(1) div_mult_mod_eq [of b m] unfolding distrib_right by linarith
  then show ?thesis by (metis mod_add_left_eq mod_mult_self1)
qed

lemma u64_wrapping_sub_mod:
  "b \<le> a \<Longrightarrow> u64_wrapping_sub (a mod u64_modulus) b = (a - b) mod u64_modulus"
  unfolding u64_wrapping_sub_def by (rule mod_diff_wrap) simp_all

lemma is_u64_diff [simp, in_range]: "is_u64 a \<Longrightarrow> is_u64 (a - b)"
  by (simp add: is_u64_def)

lemma u64_checked_add_Some:
  "u64_checked_add a b = Some c \<longleftrightarrow> c = a + b \<and> a + b \<le> u64_max"
  by (auto simp: u64_checked_add_def)

section \<open>Identifiers\<close>

text \<open>\<^verbatim>\<open>B256\<close>, \<^verbatim>\<open>ChunkAddress\<close>, \<^verbatim>\<open>OverlayAddress\<close>, \<^verbatim>\<open>BatchId\<close> and \<^verbatim>\<open>Address\<close> are
  fixed-width byte strings compared byte by byte from the left, which is the
  numeric order of the words.\<close>

type_synonym b256 = "256 word"
type_synonym overlay_address = b256
type_synonym chunk_address = b256
type_synonym batch_id = b256
type_synonym eth_address = "160 word"
type_synonym bytes = "8 word list"

section \<open>Lists and maps\<close>

lemma sum_list_remove1_nat:
  fixes f :: "'a \<Rightarrow> nat"
  shows "x \<in> set xs \<Longrightarrow> f x + sum_list (map f (remove1 x xs)) = sum_list (map f xs)"
  by (induction xs) auto

lemma member_le_sum_list_map:
  fixes f :: "'a \<Rightarrow> nat"
  shows "x \<in> set xs \<Longrightarrow> f x \<le> sum_list (map f xs)"
  by (induction xs) auto

lemma filter_remove1_member:
  "P x \<Longrightarrow> filter P (remove1 x xs) = remove1 x (filter P xs)"
  by (induction xs) auto

lemma filter_remove1_other:
  "\<not> P x \<Longrightarrow> filter P (remove1 x xs) = filter P xs"
  by (induction xs) auto

end
