(* ===== verification/Accounting_Unit.thy ===== *)
theory Accounting_Unit
  imports Vertex_Prelude
begin

text \<open>
  The accounting unit of \<^verbatim>\<open>crates/swarm/api/src/accounting.rs\<close>: the signed
  newtype \<^verbatim>\<open>Au\<close> over \<^verbatim>\<open>i64\<close> with its saturating arithmetic, the checked and
  percentage scalings, the \<^verbatim>\<open>U256\<close> crossings, the non-negative \<^verbatim>\<open>Debt\<close> and
  the \<^verbatim>\<open>Admission\<close> band. Positive means the peer owes us, negative that we owe
  the peer.
\<close>

section \<open>The signed amount\<close>

type_synonym au = int

definition au_zero :: au where
  "au_zero = 0"

definition au_from_amount :: "nat \<Rightarrow> au" where
  "au_from_amount amount = (if amount > nat i64_max then i64_max else int amount)"

definition au_as_amount :: "au \<Rightarrow> nat" where
  "au_as_amount a = (if a < 0 then 0 else nat a)"

definition au_is_negative :: "au \<Rightarrow> bool" where
  "au_is_negative a \<longleftrightarrow> a < 0"

definition au_is_positive :: "au \<Rightarrow> bool" where
  "au_is_positive a \<longleftrightarrow> a > 0"

definition au_unsigned_abs :: "au \<Rightarrow> au" where
  "au_unsigned_abs a = au_from_amount (nat \<bar>a\<bar>)"

definition au_checked_add :: "au \<Rightarrow> au \<Rightarrow> au option" where
  "au_checked_add a b = (if is_i64 (a + b) then Some (a + b) else None)"

definition au_checked_sub :: "au \<Rightarrow> au \<Rightarrow> au option" where
  "au_checked_sub a b = (if is_i64 (a - b) then Some (a - b) else None)"

definition au_saturating_add :: "au \<Rightarrow> au \<Rightarrow> au" where
  "au_saturating_add a b = i64_clamp (a + b)"

definition au_saturating_sub :: "au \<Rightarrow> au \<Rightarrow> au" where
  "au_saturating_sub a b = i64_clamp (a - b)"

definition au_saturating_neg :: "au \<Rightarrow> au" where
  "au_saturating_neg a = i64_clamp (- a)"

definition au_checked_scale :: "au \<Rightarrow> nat \<Rightarrow> au option" where
  "au_checked_scale a factor =
     (if a < 0 then None
      else if factor > nat i64_max then None
      else if is_i64 (a * int factor) then Some (a * int factor)
      else None)"

definition au_scale_percent :: "au \<Rightarrow> nat \<Rightarrow> au" where
  "au_scale_percent a percent =
     (if a < 0 then au_zero
      else case au_checked_scale a percent of
             Some v \<Rightarrow> v div 100
           | None \<Rightarrow> i64_max div 100)"

definition au_min :: "au \<Rightarrow> au \<Rightarrow> au" where
  "au_min a b = min a b"

definition au_max :: "au \<Rightarrow> au \<Rightarrow> au" where
  "au_max a b = max a b"

text \<open>\<^verbatim>\<open>impl Sum for Au\<close>: a left fold of the saturating addition.\<close>

definition au_sum :: "au list \<Rightarrow> au" where
  "au_sum xs = foldl au_saturating_add au_zero xs"

definition au_saturating_from_u256 :: "nat \<Rightarrow> au" where
  "au_saturating_from_u256 v =
     (if v \<le> u64_max then au_from_amount v else au_from_amount u64_max)"

datatype au_conversion_error = U256TooLarge nat | Negative au

definition au_try_from_u256 :: "nat \<Rightarrow> au_conversion_error + au" where
  "au_try_from_u256 v =
     (if v > u64_max then Inl (U256TooLarge v)
      else if v > nat i64_max then Inl (U256TooLarge v)
      else Inr (int v))"

definition u256_try_from_au :: "au \<Rightarrow> au_conversion_error + nat" where
  "u256_try_from_au a = (if a < 0 then Inl (Negative a) else Inr (nat a))"

section \<open>Debts and the admission band\<close>

datatype debt = Debt (debt_amount: nat)

definition debt_committed :: "au \<Rightarrow> debt" where
  "debt_committed bal = Debt (au_as_amount (au_saturating_neg bal))"

definition debt_project :: "au \<Rightarrow> au \<Rightarrow> au \<Rightarrow> debt" where
  "debt_project bal reserved price =
     Debt (au_as_amount (au_saturating_sub (au_saturating_add reserved price) bal))"

definition debt_saturating_sub :: "debt \<Rightarrow> au \<Rightarrow> debt" where
  "debt_saturating_sub d settled = Debt (debt_amount d - au_as_amount settled)"

definition debt_exceeds :: "debt \<Rightarrow> au \<Rightarrow> bool" where
  "debt_exceeds d threshold \<longleftrightarrow> debt_amount d > au_as_amount threshold"

definition au_from_debt :: "debt \<Rightarrow> au" where
  "au_from_debt d = au_from_amount (debt_amount d)"

datatype admission = Admit | SettleAndAdmit | Refuse

definition admits :: "admission \<Rightarrow> bool" where
  "admits a \<longleftrightarrow> a \<noteq> Refuse"

definition settles :: "admission \<Rightarrow> bool" where
  "settles a \<longleftrightarrow> a = SettleAndAdmit"

lemmas [au_defs] =
  au_zero_def au_from_amount_def au_as_amount_def au_is_negative_def au_is_positive_def
  au_unsigned_abs_def au_checked_add_def au_checked_sub_def au_saturating_add_def
  au_saturating_sub_def au_saturating_neg_def au_min_def au_max_def

section \<open>Range facts\<close>

lemma is_i64_from_amount [simp, in_range]: "is_i64 (au_from_amount n)"
  by (auto simp: is_i64_def au_from_amount_def)

lemma au_from_amount_nonneg [simp]: "0 \<le> au_from_amount n"
  by (simp add: au_from_amount_def)

lemma is_i64_saturating [simp, in_range]:
  "is_i64 (au_saturating_add a b)" "is_i64 (au_saturating_sub a b)" "is_i64 (au_saturating_neg a)"
  by (simp_all add: au_defs)

lemma au_as_amount_u64 [simp, in_range]: "is_i64 a \<Longrightarrow> is_u64 (au_as_amount a)"
  by (auto simp: is_i64_def is_u64_def au_as_amount_def)

lemma au_checked_scale_Some:
  "au_checked_scale a f = Some v \<longleftrightarrow>
     0 \<le> a \<and> int f \<le> i64_max \<and> v = a * int f \<and> is_i64 v"
  by (auto simp: au_checked_scale_def)

lemma is_i64_nonneg: "0 \<le> x \<Longrightarrow> is_i64 x \<longleftrightarrow> x \<le> i64_max"
  by (simp add: is_i64_def)

lemma au_checked_scale_nonneg:
  assumes "0 \<le> a"
  shows "au_checked_scale a f =
    (if int f \<le> i64_max \<and> a * int f \<le> i64_max then Some (a * int f) else None)"
proof -
  have "0 \<le> a * int f" using assms by simp
  from is_i64_nonneg [OF this] assms show ?thesis
    by (auto simp: au_checked_scale_def)
qed

lemma au_checked_scale_range [in_range]: "au_checked_scale a f = Some v \<Longrightarrow> is_i64 v \<and> 0 \<le> v"
  by (auto simp: au_checked_scale_Some)

lemma is_i64_scale_percent [simp, in_range]: "is_i64 (au_scale_percent a p)"
proof -
  have "is_i64 (v div 100)" if "is_i64 v" "0 \<le> v" for v :: int
    using that by (auto simp: is_i64_def)
  then show ?thesis
    by (auto simp: au_scale_percent_def au_zero_def is_i64_def
        dest!: au_checked_scale_range split: option.splits)
qed

lemma au_scale_percent_nonneg [simp]: "0 \<le> au_scale_percent a p"
  by (auto simp: au_scale_percent_def au_zero_def dest: au_checked_scale_range split: option.splits)

lemma au_as_amount_from_amount [simp]: "n \<le> nat i64_max \<Longrightarrow> au_as_amount (au_from_amount n) = n"
  by (simp add: au_as_amount_def au_from_amount_def)

lemma au_from_amount_as_amount [simp]:
  "is_i64 a \<Longrightarrow> 0 \<le> a \<Longrightarrow> au_from_amount (au_as_amount a) = a"
  by (auto simp: au_as_amount_def au_from_amount_def is_i64_def)

lemma i64_clamp_sgn: "sgn (i64_clamp x) = sgn x"
  by (cases "x < i64_min"; cases "x > i64_max") (simp_all add: i64_clamp_def sgn_if)

lemma i64_clamp_abs: "\<bar>i64_clamp x\<bar> \<le> \<bar>x\<bar>"
  by (cases "x < i64_min"; cases "x > i64_max") (simp_all add: i64_clamp_def)

section \<open>Properties\<close>

text \<open>The saturating operations are exact whenever the exact result fits an
  \<^verbatim>\<open>i64\<close>, always stay in range, and never move a result past the exact one away
  from zero, so a balance can never wrap and flip owed into owes: the sign of the
  result is the sign of the exact result.\<close>

lemma au_saturation_keeps_sign:
  "is_i64 (au_saturating_add a b) \<and> is_i64 (au_saturating_sub a b) \<and>
   (is_i64 (a + b) \<longrightarrow> au_saturating_add a b = a + b) \<and>
   (is_i64 (a - b) \<longrightarrow> au_saturating_sub a b = a - b) \<and>
   sgn (au_saturating_add a b) = sgn (a + b) \<and>
   sgn (au_saturating_sub a b) = sgn (a - b) \<and>
   \<bar>au_saturating_add a b\<bar> \<le> \<bar>a + b\<bar> \<and> \<bar>au_saturating_sub a b\<bar> \<le> \<bar>a - b\<bar>"
  by (simp add: au_saturating_add_def au_saturating_sub_def i64_clamp_sgn i64_clamp_abs)

end
