(* ===== verification/Accounting_Config.thy ===== *)
theory Accounting_Config
  imports Accounting_Unit
begin

text \<open>
  Bandwidth-accounting configuration and chunk pricing:
  \<^verbatim>\<open>crates/swarm/accounting/core/src/config.rs\<close> (\<^verbatim>\<open>BandwidthConfig\<close>), the derived
  thresholds of \<^verbatim>\<open>SwarmAccountingConfig\<close> in
  \<^verbatim>\<open>crates/swarm/api/src/components/bandwidth.rs\<close>, and \<^verbatim>\<open>FixedPricer\<close> of
  \<^verbatim>\<open>crates/swarm/accounting/pricing/src/fixed.rs\<close>. The proximity of two addresses
  and the network's \<^verbatim>\<open>max_po\<close> come from outside the repository and are arguments.
\<close>

section \<open>Configuration\<close>

record fixed_pricing_config =
  pricing_base_price :: nat

record bandwidth_config =
  cfg_payment_threshold :: nat
  cfg_payment_tolerance_percent :: nat
  cfg_refresh_rate :: nat
  cfg_early_payment_percent :: nat
  cfg_client_only_factor :: nat
  cfg_pricing :: fixed_pricing_config

definition fixed_pricing_default :: fixed_pricing_config where
  "fixed_pricing_default = \<lparr>pricing_base_price = 10000\<rparr>"

definition bandwidth_config_default :: bandwidth_config where
  "bandwidth_config_default =
     \<lparr>cfg_payment_threshold = 13500000, cfg_payment_tolerance_percent = 25,
      cfg_refresh_rate = 4500000, cfg_early_payment_percent = 50,
      cfg_client_only_factor = 10, cfg_pricing = fixed_pricing_default\<rparr>"

definition for_client :: "bandwidth_config \<Rightarrow> bandwidth_config" where
  "for_client c =
     (let factor = max (cfg_client_only_factor c) 1
      in c\<lparr>cfg_payment_threshold := max (cfg_payment_threshold c div factor) 1,
           cfg_refresh_rate := max (cfg_refresh_rate c div factor) 1\<rparr>)"

definition payment_threshold :: "bandwidth_config \<Rightarrow> au" where
  "payment_threshold c = au_from_amount (cfg_payment_threshold c)"

definition payment_tolerance_percent :: "bandwidth_config \<Rightarrow> nat" where
  "payment_tolerance_percent c = cfg_payment_tolerance_percent c"

definition refresh_rate :: "bandwidth_config \<Rightarrow> au" where
  "refresh_rate c = au_from_amount (cfg_refresh_rate c)"

definition early_payment_percent :: "bandwidth_config \<Rightarrow> nat" where
  "early_payment_percent c = cfg_early_payment_percent c"

definition disconnect_threshold :: "bandwidth_config \<Rightarrow> au" where
  "disconnect_threshold c =
     (let percent = u64_saturating_add 100 (payment_tolerance_percent c)
      in au_scale_percent (payment_threshold c) percent)"

definition early_payment_trigger :: "bandwidth_config \<Rightarrow> au" where
  "early_payment_trigger c =
     (let early = min (early_payment_percent c) 100
      in case au_checked_scale (payment_threshold c) (100 - early) of
           Some scaled \<Rightarrow> au_from_amount (au_as_amount scaled div 100)
         | None \<Rightarrow> au_from_amount u64_max)"

section \<open>Pricing\<close>

record fixed_pricer =
  base_price :: nat
  spec_max_po :: nat

definition pricer_price :: "fixed_pricer \<Rightarrow> chunk_address \<Rightarrow> au" where
  "pricer_price p chunk = au_from_amount (base_price p)"

definition peer_price ::
  "(b256 \<Rightarrow> b256 \<Rightarrow> nat) \<Rightarrow> fixed_pricer \<Rightarrow> overlay_address \<Rightarrow> chunk_address \<Rightarrow> au" where
  "peer_price proximity p peer chunk =
     (let po = proximity peer chunk;
          factor = (spec_max_po p - po) + 1
      in case au_checked_scale (au_from_amount (base_price p)) factor of
           Some v \<Rightarrow> v
         | None \<Rightarrow> au_from_amount u64_max)"

section \<open>Threshold lemmas\<close>

lemma payment_threshold_range [simp, in_range]: "is_i64 (payment_threshold c)"
  by (simp add: payment_threshold_def)

lemma payment_threshold_nonneg: "0 \<le> payment_threshold c"
  by (simp add: payment_threshold_def)

lemma disconnect_threshold_range [simp, in_range]: "is_i64 (disconnect_threshold c)"
  by (simp add: disconnect_threshold_def Let_def)

lemma disconnect_threshold_nonneg: "0 \<le> disconnect_threshold c"
  by (simp add: disconnect_threshold_def Let_def)

lemma au_scale_percent_exact:
  assumes "0 \<le> a" and "a * int p \<le> i64_max" and "int p \<le> i64_max"
  shows "au_scale_percent a p = a * int p div 100"
  using assms by (simp add: au_scale_percent_def au_checked_scale_nonneg)

lemma payment_threshold_exact:
  "int (cfg_payment_threshold c) \<le> i64_max \<Longrightarrow> payment_threshold c = int (cfg_payment_threshold c)"
  by (auto simp: payment_threshold_def au_from_amount_def)

lemma early_payment_trigger_le:
  assumes "payment_threshold c * 100 \<le> i64_max"
  shows "early_payment_trigger c \<le> payment_threshold c"
proof -
  define t where "t = payment_threshold c"
  define e where "e = 100 - min (early_payment_percent c) 100"
  have t: "0 \<le> t" and e: "e \<le> 100" by (simp_all add: t_def e_def payment_threshold_nonneg)
  then have te: "t * int e \<le> t * 100" by (intro mult_left_mono) auto
  with assms have le: "t * int e \<le> i64_max" by (simp add: t_def [symmetric])
  have fits: "0 \<le> t * int e" using t by simp
  have "au_checked_scale t e = Some (t * int e)"
    using le t e by (simp add: au_checked_scale_nonneg)
  then have "early_payment_trigger c = int (nat (t * int e) div 100)"
    using fits le by (simp add: early_payment_trigger_def Let_def flip: t_def e_def)
      (auto simp: au_as_amount_def au_from_amount_def)
  also have "\<dots> \<le> t" using te fits t
    by (simp add: zdiv_int)
  finally show ?thesis by (simp add: t_def)
qed

lemma disconnect_threshold_ge:
  assumes "payment_threshold c * int (100 + payment_tolerance_percent c) \<le> i64_max"
    and "int (100 + payment_tolerance_percent c) \<le> i64_max"
  shows "disconnect_threshold c = payment_threshold c * int (100 + payment_tolerance_percent c) div 100"
    and "payment_threshold c \<le> disconnect_threshold c"
proof -
  let ?p = "100 + payment_tolerance_percent c"
  have "u64_saturating_add 100 (payment_tolerance_percent c) = ?p"
    using assms(2) by (simp add: u64_saturating_add_def)
  then show eq: "disconnect_threshold c = payment_threshold c * int ?p div 100"
    using assms by (simp add: disconnect_threshold_def Let_def au_scale_percent_exact
        payment_threshold_nonneg)
  have "payment_threshold c * 100 \<le> payment_threshold c * int ?p"
    by (intro mult_left_mono) (simp_all add: payment_threshold_nonneg)
  then have "payment_threshold c * 100 div 100 \<le> payment_threshold c * int ?p div 100"
    by (intro zdiv_mono1) simp_all
  then show "payment_threshold c \<le> disconnect_threshold c" by (simp add: eq)
qed

section \<open>Properties\<close>

text \<open>The threshold ladder: when the marked-up payment threshold fits the
  accounting unit, the early-payment trigger is at most the payment threshold, which
  is at most the disconnect threshold, and the disconnect threshold is the payment
  threshold plus the configured tolerance.\<close>

lemma threshold_ladder:
  assumes "payment_threshold c * int (100 + payment_tolerance_percent c) \<le> i64_max"
    and "int (100 + payment_tolerance_percent c) \<le> i64_max"
  shows "early_payment_trigger c \<le> payment_threshold c \<and>
    payment_threshold c \<le> disconnect_threshold c \<and>
    disconnect_threshold c =
      payment_threshold c * int (100 + payment_tolerance_percent c) div 100"
proof -
  have "payment_threshold c * 100 \<le> payment_threshold c * int (100 + payment_tolerance_percent c)"
    by (intro mult_left_mono) (simp_all add: payment_threshold_nonneg)
  with assms(1) have "payment_threshold c * 100 \<le> i64_max" by linarith
  then show ?thesis
    using early_payment_trigger_le disconnect_threshold_ge [OF assms] by blast
qed

text \<open>The ladder is not unconditional: percentage scaling saturates at one
  hundredth of the largest unit, so for every payment threshold above that bound,
  whatever the tolerance, the disconnect threshold falls below the payment threshold
  it is meant to mark up.\<close>

lemma disconnect_below_payment_on_overflow:
  assumes "i64_max div 100 < int (cfg_payment_threshold c)"
  shows "disconnect_threshold c = i64_max div 100 \<and> disconnect_threshold c < payment_threshold c"
proof -
  define t where "t = payment_threshold c"
  define p where "p = u64_saturating_add 100 (payment_tolerance_percent c)"
  have p: "100 \<le> p" by (simp add: p_def u64_saturating_add_def)
  have t: "i64_max div 100 < t" "0 \<le> t"
    using assms by (auto simp: t_def payment_threshold_def au_from_amount_def)
  have "t * 100 \<le> t * int p" using p t by (intro mult_left_mono) auto
  moreover have "i64_max < t * 100" using t by simp
  ultimately have "\<not> t * int p \<le> i64_max" by linarith
  then have "au_checked_scale t p = None"
    using t by (simp add: au_checked_scale_nonneg)
  then have "disconnect_threshold c = i64_max div 100"
    using t by (simp add: disconnect_threshold_def au_scale_percent_def Let_def flip: t_def p_def)
  with t show ?thesis by (simp add: t_def)
qed

text \<open>Pricing: the price of a chunk at a peer is exactly
  \<open>(max_po - po + 1) * base_price\<close> whenever that fits the accounting unit and the largest
  unit otherwise; a closer chunk never costs more, and with a positive base price no
  chunk is free.\<close>

lemma peer_price_correct:
  assumes "0 < base_price p" and "int (base_price p) \<le> i64_max" and "spec_max_po p < 256"
  shows "peer_price proximity p peer chunk =
           min i64_max (int (base_price p) * (int (spec_max_po p - proximity peer chunk) + 1)) \<and>
         0 < peer_price proximity p peer chunk \<and>
         (proximity peer chunk \<le> proximity peer' chunk \<longrightarrow>
            peer_price proximity p peer' chunk \<le> peer_price proximity p peer chunk)"
proof -
  let ?f = "\<lambda>q. int (spec_max_po p - proximity q chunk) + 1"
  have eq: "peer_price proximity p q chunk = min i64_max (int (base_price p) * ?f q)" for q
  proof -
    define k where "k = spec_max_po p - proximity q chunk"
    have "k < 256" using assms(3) by (simp add: k_def)
    then have "peer_price proximity p q chunk = min i64_max (int (base_price p) * (int k + 1))"
      using assms(2)
      by (auto simp: peer_price_def Let_def au_checked_scale_nonneg au_from_amount_def min_def
          algebra_simps simp flip: k_def)
    then show ?thesis by (simp add: k_def)
  qed
  have "0 < int (base_price p) * ?f peer" using assms(1) by simp
  moreover have "int (base_price p) * ?f peer' \<le> int (base_price p) * ?f peer"
    if "proximity peer chunk \<le> proximity peer' chunk"
    using that by (intro mult_left_mono) auto
  ultimately show ?thesis unfolding eq by (auto simp: min_def)
qed

end
