(* ===== verification/Accounting.thy ===== *)
theory Accounting
  imports Accounting_Config
begin

text \<open>
  Per-peer bandwidth accounting, \<^verbatim>\<open>crates/swarm/accounting/core/src/accounting/\<close>:
  \<^verbatim>\<open>PeerState\<close> (peer.rs), the typed reservation legs (reservation.rs) and
  \<^verbatim>\<open>Accounting\<close> with its ledger reads (mod.rs), together with the admission band of
  \<^verbatim>\<open>crates/swarm/api/src/reporting.rs\<close> and the debit helpers of
  \<^verbatim>\<open>crates/swarm/api/src/components/bandwidth.rs\<close>.

  A \<^verbatim>\<open>PeerState\<close> is shared: the peer map and every open reservation hold an \<^verbatim>\<open>Arc\<close> to
  it, and a reservation outlives \<^verbatim>\<open>remove_peer\<close>. The model therefore keeps the states
  in a store \<open>acc_heap\<close> and the map and the reservations hold references (indices)
  into it. Each atomic access is indivisible in the source; an operation of several
  accesses, such as the check and the reservation of \<^verbatim>\<open>prepare_receive\<close>, is not, and
  its definition here is its run without interference. \<open>receive_reserve\<close> is the part of
  \<^verbatim>\<open>prepare_receive\<close> after the check.
\<close>

section \<open>Peer state\<close>

record peer_state =
  ps_balance :: int
  ps_reserved :: nat
  ps_shadow_reserved :: nat
  ps_ghost :: nat
  ps_payment_threshold :: au
  ps_disconnect_threshold :: au

text \<open>The compare-exchange loops. \<open>observed\<close> lists the values that failed exchanges
  reported, in order: each failure restarts the loop from the value it saw, and the
  exchange that succeeds writes the saturated result of the value it started from.\<close>

fun saturating_fetch_add :: "int \<Rightarrow> int list \<Rightarrow> int \<Rightarrow> int" where
  "saturating_fetch_add current [] delta = i64_clamp (current + delta)"
| "saturating_fetch_add current (seen # observed) delta = saturating_fetch_add seen observed delta"

fun saturating_fetch_sub :: "nat \<Rightarrow> nat list \<Rightarrow> nat \<Rightarrow> nat" where
  "saturating_fetch_sub current [] delta = current - delta"
| "saturating_fetch_sub current (seen # observed) delta = saturating_fetch_sub seen observed delta"

definition peer_state_new :: "au \<Rightarrow> au \<Rightarrow> peer_state" where
  "peer_state_new pt dt =
     \<lparr>ps_balance = 0, ps_reserved = 0, ps_shadow_reserved = 0, ps_ghost = 0,
      ps_payment_threshold = pt, ps_disconnect_threshold = dt\<rparr>"

definition balance :: "peer_state \<Rightarrow> au" where
  "balance s = ps_balance s"

definition add_balance :: "peer_state \<Rightarrow> au \<Rightarrow> peer_state" where
  "add_balance s amount = s\<lparr>ps_balance := saturating_fetch_add (ps_balance s) [] amount\<rparr>"

definition reserved_balance :: "peer_state \<Rightarrow> au" where
  "reserved_balance s = au_from_amount (ps_reserved s)"

definition add_reserved :: "peer_state \<Rightarrow> au \<Rightarrow> peer_state" where
  "add_reserved s amount =
     s\<lparr>ps_reserved := u64_wrapping_add (ps_reserved s) (au_as_amount amount)\<rparr>"

definition sub_reserved :: "peer_state \<Rightarrow> au \<Rightarrow> peer_state" where
  "sub_reserved s amount =
     s\<lparr>ps_reserved := saturating_fetch_sub (ps_reserved s) [] (au_as_amount amount)\<rparr>"

definition shadow_reserved_balance :: "peer_state \<Rightarrow> au" where
  "shadow_reserved_balance s = au_from_amount (ps_shadow_reserved s)"

definition add_shadow_reserved :: "peer_state \<Rightarrow> au \<Rightarrow> peer_state" where
  "add_shadow_reserved s amount =
     s\<lparr>ps_shadow_reserved := u64_wrapping_add (ps_shadow_reserved s) (au_as_amount amount)\<rparr>"

definition sub_shadow_reserved :: "peer_state \<Rightarrow> au \<Rightarrow> peer_state" where
  "sub_shadow_reserved s amount =
     s\<lparr>ps_shadow_reserved :=
         saturating_fetch_sub (ps_shadow_reserved s) [] (au_as_amount amount)\<rparr>"

definition ghost_balance :: "peer_state \<Rightarrow> au" where
  "ghost_balance s = au_from_amount (ps_ghost s)"

definition add_ghost :: "peer_state \<Rightarrow> au \<Rightarrow> peer_state" where
  "add_ghost s amount = s\<lparr>ps_ghost := u64_wrapping_add (ps_ghost s) (au_as_amount amount)\<rparr>"

lemmas peer_state_defs =
  balance_def add_balance_def reserved_balance_def add_reserved_def sub_reserved_def
  shadow_reserved_balance_def add_shadow_reserved_def sub_shadow_reserved_def
  ghost_balance_def add_ghost_def

section \<open>The admission band\<close>

record ledger_snapshot =
  snap_balance :: au
  snap_reserved :: au
  snap_disconnect_line :: au
  snap_settle_trigger :: au

definition snapshot_admit :: "ledger_snapshot \<Rightarrow> au \<Rightarrow> admission" where
  "snapshot_admit s price =
     (let projected = debt_project (snap_balance s) (snap_reserved s) price
      in if debt_exceeds projected (snap_disconnect_line s) then Refuse
         else if debt_exceeds projected (snap_settle_trigger s) then SettleAndAdmit
         else Admit)"

section \<open>Accounting and its reservations\<close>

type_synonym state_ref = nat

record accounting =
  acc_config :: bandwidth_config
  acc_heap :: "peer_state list"
  acc_peers :: "overlay_address \<rightharpoonup> state_ref"

datatype accounting_error =
    DisconnectThreshold overlay_address au au
  | PaymentThreshold overlay_address au au

datatype leg = Receive | Provide

record reservation =
  res_leg :: leg
  res_state :: state_ref
  res_price :: au
  res_applied :: bool

datatype direction = Upload | Download

definition accounting_new :: "bandwidth_config \<Rightarrow> accounting" where
  "accounting_new c = \<lparr>acc_config = c, acc_heap = [], acc_peers = Map.empty\<rparr>"

definition peer_at :: "accounting \<Rightarrow> state_ref \<Rightarrow> peer_state" where
  "peer_at acc r = acc_heap acc ! r"

definition update_peer :: "state_ref \<Rightarrow> (peer_state \<Rightarrow> peer_state) \<Rightarrow> accounting \<Rightarrow> accounting" where
  "update_peer r f acc = acc\<lparr>acc_heap := (acc_heap acc)[r := f (acc_heap acc ! r)]\<rparr>"

definition get_or_create_peer :: "accounting \<Rightarrow> overlay_address \<Rightarrow> state_ref \<times> accounting" where
  "get_or_create_peer acc peer =
     (case acc_peers acc peer of
        Some r \<Rightarrow> (r, acc)
      | None \<Rightarrow>
          (let r = length (acc_heap acc)
           in (r, acc\<lparr>acc_heap := acc_heap acc @
                        [peer_state_new (payment_threshold (acc_config acc))
                           (disconnect_threshold (acc_config acc))],
                      acc_peers := (acc_peers acc)(peer \<mapsto> r)\<rparr>)))"

definition peers :: "accounting \<Rightarrow> overlay_address set" where
  "peers acc = dom (acc_peers acc)"

definition remove_peer :: "accounting \<Rightarrow> overlay_address \<Rightarrow> accounting" where
  "remove_peer acc peer = acc\<lparr>acc_peers := (acc_peers acc)(peer := None)\<rparr>"

definition reservation_new :: "leg \<Rightarrow> state_ref \<Rightarrow> au \<Rightarrow> reservation" where
  "reservation_new l r price =
     \<lparr>res_leg = l, res_state = r, res_price = price, res_applied = False\<rparr>"

fun leg_apply :: "leg \<Rightarrow> au \<Rightarrow> peer_state \<Rightarrow> peer_state" where
  "leg_apply Receive price s = sub_reserved (add_balance s (au_saturating_neg price)) price"
| "leg_apply Provide price s = sub_shadow_reserved (add_balance s price) price"

fun leg_release :: "leg \<Rightarrow> au \<Rightarrow> peer_state \<Rightarrow> peer_state" where
  "leg_release Receive price s = sub_reserved s price"
| "leg_release Provide price s = sub_shadow_reserved s price"

definition reservation_drop :: "accounting \<Rightarrow> reservation \<Rightarrow> accounting" where
  "reservation_drop acc res =
     (if \<not> res_applied res
      then update_peer (res_state res) (leg_release (res_leg res) (res_price res)) acc
      else acc)"

text \<open>\<^verbatim>\<open>apply\<close> consumes the reservation: the destructor runs at the end of the call
  and finds it applied.\<close>

definition reservation_apply :: "accounting \<Rightarrow> reservation \<Rightarrow> accounting" where
  "reservation_apply acc res =
     reservation_drop
       (update_peer (res_state res) (leg_apply (res_leg res) (res_price res)) acc)
       (res\<lparr>res_applied := True\<rparr>)"

text \<open>\<^verbatim>\<open>forfeit\<close> exists on the provide leg only; its destructor releases the shadow
  reservation.\<close>

definition reservation_forfeit :: "accounting \<Rightarrow> reservation \<Rightarrow> accounting" where
  "reservation_forfeit acc res =
     reservation_drop
       (update_peer (res_state res) (\<lambda>s. add_ghost s (res_price res)) acc) res"

subsection \<open>Ledger reads\<close>

definition ledger_balance :: "accounting \<Rightarrow> overlay_address \<Rightarrow> au" where
  "ledger_balance acc peer =
     (case acc_peers acc peer of None \<Rightarrow> au_zero | Some r \<Rightarrow> balance (peer_at acc r))"

definition ledger_reserved :: "accounting \<Rightarrow> overlay_address \<Rightarrow> au" where
  "ledger_reserved acc peer =
     (case acc_peers acc peer of None \<Rightarrow> au_zero | Some r \<Rightarrow> reserved_balance (peer_at acc r))"

definition ledger_disconnect_line :: "accounting \<Rightarrow> overlay_address \<Rightarrow> au" where
  "ledger_disconnect_line acc peer =
     (case acc_peers acc peer of
        None \<Rightarrow> disconnect_threshold (acc_config acc)
      | Some r \<Rightarrow> ps_disconnect_threshold (peer_at acc r))"

definition ledger_settle_trigger :: "accounting \<Rightarrow> overlay_address \<Rightarrow> au" where
  "ledger_settle_trigger acc peer =
     au_max (early_payment_trigger (acc_config acc)) (refresh_rate (acc_config acc))"

text \<open>The default \<^verbatim>\<open>Ledger::snapshot\<close>, four separate reads.\<close>

definition ledger_snapshot_default :: "accounting \<Rightarrow> overlay_address \<Rightarrow> ledger_snapshot" where
  "ledger_snapshot_default acc peer =
     \<lparr>snap_balance = ledger_balance acc peer, snap_reserved = ledger_reserved acc peer,
      snap_disconnect_line = ledger_disconnect_line acc peer,
      snap_settle_trigger = ledger_settle_trigger acc peer\<rparr>"

text \<open>The override of \<^verbatim>\<open>Accounting\<close>: one lookup under one lock.\<close>

definition ledger_snapshot :: "accounting \<Rightarrow> overlay_address \<Rightarrow> ledger_snapshot" where
  "ledger_snapshot acc peer =
     (let trigger = au_max (early_payment_trigger (acc_config acc)) (refresh_rate (acc_config acc))
      in case acc_peers acc peer of
           None \<Rightarrow>
             \<lparr>snap_balance = au_zero, snap_reserved = au_zero,
              snap_disconnect_line = disconnect_threshold (acc_config acc),
              snap_settle_trigger = trigger\<rparr>
         | Some r \<Rightarrow>
             \<lparr>snap_balance = balance (peer_at acc r),
              snap_reserved = reserved_balance (peer_at acc r),
              snap_disconnect_line = ps_disconnect_threshold (peer_at acc r),
              snap_settle_trigger = trigger\<rparr>)"

definition admit :: "accounting \<Rightarrow> overlay_address \<Rightarrow> au \<Rightarrow> admission" where
  "admit acc peer price = snapshot_admit (ledger_snapshot acc peer) price"

subsection \<open>Reserving\<close>

definition receive_reserve :: "accounting \<Rightarrow> overlay_address \<Rightarrow> au \<Rightarrow> reservation \<times> accounting" where
  "receive_reserve acc peer price =
     (let (r, acc') = get_or_create_peer acc peer
      in (reservation_new Receive r price, update_peer r (\<lambda>s. add_reserved s price) acc'))"

definition prepare_receive ::
  "accounting \<Rightarrow> overlay_address \<Rightarrow> au \<Rightarrow> bool \<Rightarrow> (accounting_error + reservation) \<times> accounting" where
  "prepare_receive acc peer price originated =
     (if \<not> admits (admit acc peer price) then
        (Inl (DisconnectThreshold peer (ledger_balance acc peer)
                (disconnect_threshold (acc_config acc))), acc)
      else
        (let (r, acc') = get_or_create_peer acc peer
         in (Inr (reservation_new Receive r price),
             update_peer r (\<lambda>s. add_reserved s price) acc')))"

definition provide_projection :: "peer_state \<Rightarrow> au \<Rightarrow> au" where
  "provide_projection s price =
     au_saturating_add
       (au_saturating_add
          (au_saturating_add (balance s) (shadow_reserved_balance s))
          (ghost_balance s))
       price"

definition prepare_provide ::
  "accounting \<Rightarrow> overlay_address \<Rightarrow> au \<Rightarrow> (accounting_error + reservation) \<times> accounting" where
  "prepare_provide acc peer price =
     (let (r, acc') = get_or_create_peer acc peer;
          s = peer_at acc' r;
          projected = provide_projection s price
      in if projected > ps_payment_threshold s then
           (Inl (PaymentThreshold peer projected (ps_payment_threshold s)), acc')
         else
           (Inr (reservation_new Provide r price),
            update_peer r (\<lambda>s. add_shadow_reserved s price) acc'))"

subsection \<open>Peer handles and settlement\<close>

record peer_handle =
  ph_peer :: overlay_address
  ph_state :: state_ref
  ph_disconnect_threshold :: au
  ph_payment_threshold :: au

definition for_peer :: "accounting \<Rightarrow> overlay_address \<Rightarrow> peer_handle \<times> accounting" where
  "for_peer acc peer =
     (let (r, acc') = get_or_create_peer acc peer
      in (\<lparr>ph_peer = peer, ph_state = r,
           ph_disconnect_threshold = disconnect_threshold (acc_config acc),
           ph_payment_threshold = payment_threshold (acc_config acc)\<rparr>, acc'))"

fun record_usage :: "peer_handle \<Rightarrow> au \<Rightarrow> direction \<Rightarrow> accounting \<Rightarrow> accounting" where
  "record_usage h amount Upload acc =
     update_peer (ph_state h) (\<lambda>s. add_balance s amount) acc"
| "record_usage h amount Download acc =
     update_peer (ph_state h) (\<lambda>s. add_balance s (au_saturating_neg amount)) acc"

definition handle_balance :: "peer_handle \<Rightarrow> accounting \<Rightarrow> au" where
  "handle_balance h acc = balance (peer_at acc (ph_state h))"

text \<open>A settlement provider is called with the peer and its state; it may change
  balances while it runs and answers with the settled amount or an error.\<close>

type_synonym 'e settlement_provider =
  "overlay_address \<Rightarrow> state_ref \<Rightarrow> accounting \<Rightarrow> ('e + au) \<times> accounting"

fun settle_all ::
  "'e settlement_provider list \<Rightarrow> peer_handle \<Rightarrow> au \<Rightarrow> accounting \<Rightarrow> ('e + au) \<times> accounting" where
  "settle_all [] h tot acc = (Inr tot, acc)"
| "settle_all (provider # rest) h tot acc =
     (case provider (ph_peer h) (ph_state h) acc of
        (Inl e, acc') \<Rightarrow> (Inl e, acc')
      | (Inr settled, acc') \<Rightarrow>
          (let tot' = au_saturating_add tot settled
           in if \<not> debt_exceeds (debt_committed (handle_balance h acc')) (ph_payment_threshold h)
              then (Inr tot', acc')
              else settle_all rest h tot' acc'))"

definition settle :: "'e settlement_provider list \<Rightarrow> peer_handle \<Rightarrow> accounting \<Rightarrow> ('e + unit) \<times> accounting" where
  "settle providers h acc =
     (case settle_all providers h au_zero acc of
        (Inl e, acc') \<Rightarrow> (Inl e, acc')
      | (Inr _, acc') \<Rightarrow> (Inr (), acc'))"

definition debit_received ::
  "accounting \<Rightarrow> overlay_address \<Rightarrow> au \<Rightarrow> bool \<Rightarrow> (accounting_error + unit) \<times> accounting" where
  "debit_received acc peer price originated =
     (case prepare_receive acc peer price originated of
        (Inl e, acc') \<Rightarrow> (Inl e, acc')
      | (Inr res, acc') \<Rightarrow> (Inr (), reservation_apply acc' res))"

definition refund_received :: "accounting \<Rightarrow> overlay_address \<Rightarrow> au \<Rightarrow> accounting" where
  "refund_received acc peer price =
     (let (h, acc') = for_peer acc peer in record_usage h price Upload acc')"

end
