(* ===== verification/Accounting_Safety.thy ===== *)
theory Accounting_Safety
  imports Accounting
begin

text \<open>
  Safety of per-peer accounting. The operations of a running node are the rules of a
  step relation over the accounting store and the open reservations; every reachable
  state keeps the reservation counters equal to what is outstanding, and both debts
  within their thresholds plus what has been settled on the state. The settled totals
  are needed: a settlement may clear a whole balance that open reservations were
  admitted against, so the thresholds bind when a reservation is admitted and not
  across a later settlement.

  A step is one whole operation. The source holds no lock between the check of a
  prepare call and its reservation, so this assumes that the prepare calls on one peer
  do not overlap; the last property shows what happens when they do.
\<close>

section \<open>Basic facts\<close>

lemma acc_heap_update_peer [simp]:
  "acc_heap (update_peer r f acc) = (acc_heap acc)[r := f (acc_heap acc ! r)]"
  "acc_config (update_peer r f acc) = acc_config acc"
  "acc_peers (update_peer r f acc) = acc_peers acc"
  by (simp_all add: update_peer_def)

lemma peer_at_update_peer [simp]:
  "r < length (acc_heap acc) \<Longrightarrow> peer_at (update_peer r f acc) r = f (peer_at acc r)"
  "r \<noteq> r' \<Longrightarrow> peer_at (update_peer r f acc) r' = peer_at acc r'"
  by (simp_all add: peer_at_def)

lemma saturating_fetch_add_last:
  "saturating_fetch_add cur obs d = i64_clamp (last (cur # obs) + d)"
  by (induction cur obs d rule: saturating_fetch_add.induct) auto

lemma saturating_fetch_sub_last:
  "saturating_fetch_sub cur obs d = last (cur # obs) - d"
  by (induction cur obs d rule: saturating_fetch_sub.induct) auto

lemma ledger_snapshot_eq: "ledger_snapshot acc peer = ledger_snapshot_default acc peer"
  by (simp add: ledger_snapshot_def ledger_snapshot_default_def ledger_balance_def
      ledger_reserved_def ledger_disconnect_line_def ledger_settle_trigger_def
      split: option.split)

text \<open>The state a reservation is taken on: the peer's existing one or a fresh one.\<close>

definition refs_valid :: "accounting \<Rightarrow> bool" where
  "refs_valid acc \<longleftrightarrow> (\<forall>r \<in> ran (acc_peers acc). r < length (acc_heap acc))"

lemma refs_validD: "refs_valid acc \<Longrightarrow> acc_peers acc p = Some r \<Longrightarrow> r < length (acc_heap acc)"
  by (auto simp: refs_valid_def ran_def)

lemma get_or_create_peer_cases [consumes 1, case_names known fresh]:
  assumes "get_or_create_peer acc p = (r, acc')"
  obtains "acc_peers acc p = Some r" and "acc' = acc"
  | "acc_peers acc p = None" and "r = length (acc_heap acc)"
    and "acc' = acc\<lparr>acc_heap := acc_heap acc @
           [peer_state_new (payment_threshold (acc_config acc))
              (disconnect_threshold (acc_config acc))],
         acc_peers := (acc_peers acc)(p \<mapsto> r)\<rparr>"
  using assms by (auto simp: get_or_create_peer_def Let_def split: option.splits)

section \<open>The step relation\<close>

text \<open>A system is the accounting store and the reservations some task holds open.
  \<open>paid\<close> is any amount recorded in our favour (a settlement of ours the peer
  acknowledged, a refund), \<open>credited\<close> any amount recorded in the peer's; neither is
  bounded by the balance.
  \<open>sys_paid\<close> and \<open>sys_credited\<close> total these per state; they are history
  of the specification that no operation reads.\<close>

record acc_system =
  sys_acc :: accounting
  sys_open :: "reservation list"
  sys_paid :: "state_ref \<Rightarrow> int"
  sys_credited :: "state_ref \<Rightarrow> int"

definition valid_price :: "au \<Rightarrow> bool" where
  "valid_price price \<longleftrightarrow> 0 \<le> price \<and> is_i64 price"

inductive acc_step :: "acc_system \<Rightarrow> acc_system \<Rightarrow> bool" where
  receive_ok: "valid_price price \<Longrightarrow> prepare_receive acc peer price og = (Inr res, acc') \<Longrightarrow>
    acc_step \<lparr>sys_acc = acc, sys_open = rs, sys_paid = pd, sys_credited = cr\<rparr> \<lparr>sys_acc = acc', sys_open = res # rs, sys_paid = pd, sys_credited = cr\<rparr>"
| receive_refused: "valid_price price \<Longrightarrow> prepare_receive acc peer price og = (Inl e, acc') \<Longrightarrow>
    acc_step \<lparr>sys_acc = acc, sys_open = rs, sys_paid = pd, sys_credited = cr\<rparr> \<lparr>sys_acc = acc', sys_open = rs, sys_paid = pd, sys_credited = cr\<rparr>"
| provide_ok: "valid_price price \<Longrightarrow> prepare_provide acc peer price = (Inr res, acc') \<Longrightarrow>
    acc_step \<lparr>sys_acc = acc, sys_open = rs, sys_paid = pd, sys_credited = cr\<rparr> \<lparr>sys_acc = acc', sys_open = res # rs, sys_paid = pd, sys_credited = cr\<rparr>"
| provide_refused: "valid_price price \<Longrightarrow> prepare_provide acc peer price = (Inl e, acc') \<Longrightarrow>
    acc_step \<lparr>sys_acc = acc, sys_open = rs, sys_paid = pd, sys_credited = cr\<rparr> \<lparr>sys_acc = acc', sys_open = rs, sys_paid = pd, sys_credited = cr\<rparr>"
| apply_leg: "res \<in> set rs \<Longrightarrow>
    acc_step \<lparr>sys_acc = acc, sys_open = rs, sys_paid = pd, sys_credited = cr\<rparr>
      \<lparr>sys_acc = reservation_apply acc res, sys_open = remove1 res rs, sys_paid = pd, sys_credited = cr\<rparr>"
| drop_leg: "res \<in> set rs \<Longrightarrow>
    acc_step \<lparr>sys_acc = acc, sys_open = rs, sys_paid = pd, sys_credited = cr\<rparr>
      \<lparr>sys_acc = reservation_drop acc res, sys_open = remove1 res rs, sys_paid = pd, sys_credited = cr\<rparr>"
| forfeit_leg: "res \<in> set rs \<Longrightarrow> res_leg res = Provide \<Longrightarrow>
    acc_step \<lparr>sys_acc = acc, sys_open = rs, sys_paid = pd, sys_credited = cr\<rparr>
      \<lparr>sys_acc = reservation_forfeit acc res, sys_open = remove1 res rs, sys_paid = pd, sys_credited = cr\<rparr>"
| paid: "for_peer acc peer = (h, acc') \<Longrightarrow> 0 \<le> amount \<Longrightarrow>
    acc_step \<lparr>sys_acc = acc, sys_open = rs, sys_paid = pd, sys_credited = cr\<rparr>
      \<lparr>sys_acc = record_usage h amount Upload acc', sys_open = rs,
        sys_paid = pd(ph_state h := pd (ph_state h) + amount), sys_credited = cr\<rparr>"
| credited: "for_peer acc peer = (h, acc') \<Longrightarrow> 0 \<le> amount \<Longrightarrow>
    acc_step \<lparr>sys_acc = acc, sys_open = rs, sys_paid = pd, sys_credited = cr\<rparr>
      \<lparr>sys_acc = record_usage h amount Download acc', sys_open = rs, sys_paid = pd,
        sys_credited = cr(ph_state h := cr (ph_state h) + amount)\<rparr>"
| removed: "acc_step \<lparr>sys_acc = acc, sys_open = rs, sys_paid = pd, sys_credited = cr\<rparr>
      \<lparr>sys_acc = remove_peer acc peer, sys_open = rs, sys_paid = pd, sys_credited = cr\<rparr>"

inductive acc_reachable :: "bandwidth_config \<Rightarrow> acc_system \<Rightarrow> bool" for c where
  start: "acc_reachable c \<lparr>sys_acc = accounting_new c, sys_open = [],
    sys_paid = (\<lambda>_. 0), sys_credited = (\<lambda>_. 0)\<rparr>"
| step: "acc_reachable c s \<Longrightarrow> acc_step s t \<Longrightarrow> acc_reachable c t"

section \<open>The invariant\<close>

text \<open>What is outstanding on a state: the total price of the open reservations of one
  leg that hold it.\<close>

definition outstanding :: "leg \<Rightarrow> state_ref \<Rightarrow> reservation list \<Rightarrow> nat" where
  "outstanding l r rs =
     sum_list (map (\<lambda>x. au_as_amount (res_price x))
       (filter (\<lambda>x. res_leg x = l \<and> res_state x = r) rs))"

definition peer_within :: "bandwidth_config \<Rightarrow> int \<Rightarrow> int \<Rightarrow> peer_state \<Rightarrow> bool" where
  "peer_within c p q s \<longleftrightarrow> 0 \<le> p \<and> 0 \<le> q \<and>
     ps_payment_threshold s = payment_threshold c \<and>
     ps_disconnect_threshold s = disconnect_threshold c \<and>
     int (ps_reserved s) - ps_balance s \<le> disconnect_threshold c + q \<and>
     ps_balance s + int (ps_shadow_reserved s) + int (ps_ghost s) \<le> payment_threshold c + p"

definition acc_invariant :: "bandwidth_config \<Rightarrow> acc_system \<Rightarrow> bool" where
  "acc_invariant c s \<longleftrightarrow>
     acc_config (sys_acc s) = c \<and> refs_valid (sys_acc s) \<and>
     (\<forall>r. 0 \<le> sys_paid s r \<and> 0 \<le> sys_credited s r) \<and>
     (\<forall>x \<in> set (sys_open s). res_state x < length (acc_heap (sys_acc s)) \<and>
        \<not> res_applied x \<and> valid_price (res_price x)) \<and>
     (\<forall>r < length (acc_heap (sys_acc s)).
        peer_within c (sys_paid s r) (sys_credited s r) (peer_at (sys_acc s) r) \<and>
        ps_reserved (peer_at (sys_acc s) r) = outstanding Receive r (sys_open s) \<and>
        ps_shadow_reserved (peer_at (sys_acc s) r) = outstanding Provide r (sys_open s))"

text \<open>The thresholds and what has been settled leave room for exact arithmetic.\<close>

definition sane_thresholds :: "bandwidth_config \<Rightarrow> int \<Rightarrow> int \<Rightarrow> bool" where
  "sane_thresholds c p q \<longleftrightarrow> payment_threshold c + disconnect_threshold c + p + q < i64_max"

lemma outstanding_Cons:
  "outstanding l r (x # rs) =
     (if res_leg x = l \<and> res_state x = r then au_as_amount (res_price x) else 0)
       + outstanding l r rs"
  by (simp add: outstanding_def)

lemma outstanding_Nil [simp]: "outstanding l r [] = 0"
  by (simp add: outstanding_def)

lemma outstanding_remove1:
  "x \<in> set rs \<Longrightarrow> outstanding l r rs =
     (if res_leg x = l \<and> res_state x = r then au_as_amount (res_price x) else 0)
       + outstanding l r (remove1 x rs)"
  by (induction rs) (auto simp: outstanding_Cons)

lemma outstanding_beyond:
  "(\<forall>x \<in> set rs. res_state x < n) \<Longrightarrow> n \<le> r \<Longrightarrow> outstanding l r rs = 0"
  by (induction rs) (auto simp: outstanding_Cons)

lemma acc_invariant_get_or_create:
  assumes inv: "acc_invariant c \<lparr>sys_acc = acc, sys_open = rs, sys_paid = pd, sys_credited = cr\<rparr>"
    and goc: "get_or_create_peer acc p = (r, acc')"
  shows "acc_invariant c \<lparr>sys_acc = acc', sys_open = rs, sys_paid = pd, sys_credited = cr\<rparr> \<and> r < length (acc_heap acc')"
  using goc
proof (cases rule: get_or_create_peer_cases)
  case known
  with inv show ?thesis by (auto simp: acc_invariant_def refs_validD)
next
  case fresh
  let ?n = "length (acc_heap acc)"
  have "refs_valid acc'"
    using inv fresh by (auto simp: acc_invariant_def refs_valid_def ran_def split: if_splits)
  moreover have "peer_within c (pd ?n) (cr ?n) (peer_state_new (payment_threshold c) (disconnect_threshold c))"
    using inv by (simp add: acc_invariant_def peer_within_def peer_state_new_def
        payment_threshold_nonneg disconnect_threshold_nonneg)
  moreover have "outstanding l ?n rs = 0" for l
    using inv by (intro outstanding_beyond [of _ ?n]) (auto simp: acc_invariant_def)
  ultimately show ?thesis
    using inv fresh
    by (auto simp: acc_invariant_def peer_at_def nth_append less_Suc_eq peer_state_new_def)
qed

lemma acc_invariant_update_peer:
  assumes "acc_invariant c \<lparr>sys_acc = acc, sys_open = rs, sys_paid = pd, sys_credited = cr\<rparr>" and "r < length (acc_heap acc)"
    and "peer_within c (pd r) (cr r) (f (peer_at acc r))"
    and "ps_reserved (f (peer_at acc r)) = outstanding Receive r rs'"
    and "ps_shadow_reserved (f (peer_at acc r)) = outstanding Provide r rs'"
    and "\<And>l r'. r' \<noteq> r \<Longrightarrow> outstanding l r' rs' = outstanding l r' rs"
    and "\<And>x. x \<in> set rs' \<Longrightarrow> x \<in> set rs \<or>
           (res_state x = r \<and> \<not> res_applied x \<and> valid_price (res_price x))"
  shows "acc_invariant c \<lparr>sys_acc = update_peer r f acc, sys_open = rs', sys_paid = pd, sys_credited = cr\<rparr>"
proof -
  have "peer_within c (pd i) (cr i) (peer_at (update_peer r f acc) i) \<and>
      ps_reserved (peer_at (update_peer r f acc) i) = outstanding Receive i rs' \<and>
      ps_shadow_reserved (peer_at (update_peer r f acc) i) = outstanding Provide i rs'"
    if "i < length (acc_heap acc)" for i
    using assms that by (cases "i = r") (auto simp: acc_invariant_def)
  moreover have "res_state x < length (acc_heap acc) \<and> \<not> res_applied x \<and> valid_price (res_price x)"
    if "x \<in> set rs'" for x
    using assms(1,2) assms(7) [OF that] by (auto simp: acc_invariant_def)
  ultimately show ?thesis
    using assms(1) by (auto simp: acc_invariant_def refs_valid_def)
qed

section \<open>Exactness of the guards\<close>

lemma receive_guard_exact:
  assumes "sane_thresholds c p q" and "peer_within c p q s" and "valid_price price"
    and "\<not> debt_exceeds (debt_project (balance s) (reserved_balance s) price)
           (ps_disconnect_threshold s)"
  shows "int (ps_reserved s) + price - ps_balance s \<le> disconnect_threshold c"
proof -
  let ?b = "ps_balance s" and ?r = "int (ps_reserved s)"
  let ?d = "disconnect_threshold c" and ?p = "payment_threshold c"
  have d: "0 \<le> ?d" "0 \<le> ?p" "0 \<le> p" "0 \<le> q" "?r - ?b \<le> ?d + q" "?b \<le> ?p + p"
    "?p + ?d + p + q < i64_max"
    and line: "ps_disconnect_threshold s = ?d"
    using assms(1,2) payment_threshold_nonneg disconnect_threshold_nonneg
    by (auto simp: sane_thresholds_def peer_within_def)
  then have r: "reserved_balance s = ?r"
    by (auto simp: reserved_balance_def au_from_amount_def)
  have "i64_clamp (i64_clamp (?r + price) - ?b) \<le> ?d"
    using assms(4) d(1)
    by (auto simp: debt_exceeds_def debt_project_def au_as_amount_def au_saturating_add_def
        au_saturating_sub_def line r balance_def split: if_splits)
  then show ?thesis using d assms(3)
    by (auto simp: i64_clamp_def valid_price_def max_def min_def split: if_splits)
qed

lemma provide_guard_exact:
  assumes "sane_thresholds c p q" and "peer_within c p q s" and "valid_price price"
    and "\<not> provide_projection s price > ps_payment_threshold s"
  shows "ps_balance s + int (ps_shadow_reserved s) + int (ps_ghost s) + price \<le> payment_threshold c"
proof -
  let ?b = "ps_balance s"
  let ?d = "disconnect_threshold c" and ?p = "payment_threshold c"
  have d: "0 \<le> ?p" "0 \<le> ?d" "0 \<le> p" "0 \<le> q" "- ?b \<le> ?d + q"
    "?b + int (ps_shadow_reserved s) + int (ps_ghost s) \<le> ?p + p" "?p + ?d + p + q < i64_max"
    and limit: "ps_payment_threshold s = ?p"
    using assms(1,2) payment_threshold_nonneg disconnect_threshold_nonneg
    by (auto simp: sane_thresholds_def peer_within_def)
  then have "shadow_reserved_balance s = int (ps_shadow_reserved s)"
    "ghost_balance s = int (ps_ghost s)"
    by (auto simp: shadow_reserved_balance_def ghost_balance_def au_from_amount_def)
  then have "i64_clamp (i64_clamp (i64_clamp (?b + int (ps_shadow_reserved s))
      + int (ps_ghost s)) + price) \<le> ?p"
    using assms(4) by (simp add: provide_projection_def au_saturating_add_def balance_def limit)
  then show ?thesis using d assms(3)
    by (auto simp: i64_clamp_def valid_price_def max_def min_def split: if_splits)
qed

section \<open>Every step keeps the invariant\<close>

lemmas thresholds_nonneg = payment_threshold_nonneg disconnect_threshold_nonneg

lemma all_legs: "(\<forall>l. P l) \<longleftrightarrow> P Receive \<and> P Provide"
  by (metis leg.exhaust)

lemma peer_within_add_reserved:
  assumes "sane_thresholds c p q" and "peer_within c p q s" and "valid_price price"
    and "int (ps_reserved s) + price - ps_balance s \<le> disconnect_threshold c"
  shows "peer_within c p q (add_reserved s price)"
    and "ps_reserved (add_reserved s price) = au_as_amount price + ps_reserved s"
    and "ps_shadow_reserved (add_reserved s price) = ps_shadow_reserved s"
proof -
  have "ps_reserved s + nat price \<le> u64_max"
    using assms thresholds_nonneg [of c]
    by (auto simp: peer_within_def valid_price_def sane_thresholds_def)
  then show "peer_within c p q (add_reserved s price)"
    and "ps_reserved (add_reserved s price) = au_as_amount price + ps_reserved s"
    and "ps_shadow_reserved (add_reserved s price) = ps_shadow_reserved s"
    using assms by (auto simp: add_reserved_def au_as_amount_def valid_price_def peer_within_def)
qed

lemma peer_within_add_shadow:
  assumes "sane_thresholds c p q" and "peer_within c p q s" and "valid_price price"
    and "ps_balance s + int (ps_shadow_reserved s) + int (ps_ghost s) + price \<le> payment_threshold c"
  shows "peer_within c p q (add_shadow_reserved s price)"
    and "ps_shadow_reserved (add_shadow_reserved s price) = au_as_amount price + ps_shadow_reserved s"
    and "ps_reserved (add_shadow_reserved s price) = ps_reserved s"
proof -
  have "ps_shadow_reserved s + nat price \<le> u64_max"
    using assms thresholds_nonneg [of c]
    by (auto simp: peer_within_def valid_price_def sane_thresholds_def)
  then show "peer_within c p q (add_shadow_reserved s price)"
    and "ps_shadow_reserved (add_shadow_reserved s price) = au_as_amount price + ps_shadow_reserved s"
    and "ps_reserved (add_shadow_reserved s price) = ps_reserved s"
    using assms by (auto simp: add_shadow_reserved_def au_as_amount_def valid_price_def peer_within_def)
qed

text \<open>The counter a leg holds its reservations in.\<close>

fun leg_counter :: "leg \<Rightarrow> peer_state \<Rightarrow> nat" where
  "leg_counter Receive s = ps_reserved s"
| "leg_counter Provide s = ps_shadow_reserved s"

lemma leg_apply_within:
  assumes "sane_thresholds c p q" and "peer_within c p q s" and "valid_price price"
    and "au_as_amount price \<le> leg_counter l s"
  shows "peer_within c p q (leg_apply l price s) \<and>
    leg_counter l (leg_apply l price s) = leg_counter l s - au_as_amount price \<and>
    (\<forall>l'. l' \<noteq> l \<longrightarrow> leg_counter l' (leg_apply l price s) = leg_counter l' s)"
proof (cases l)
  case Receive
  then have "is_i64 (ps_balance s - price)" and "au_saturating_neg price = - price"
    using assms thresholds_nonneg [of c]
    by (auto simp: peer_within_def valid_price_def is_i64_def au_as_amount_def
        au_saturating_neg_def sane_thresholds_def)
  then show ?thesis using assms Receive
    by (auto simp: peer_within_def add_balance_def sub_reserved_def au_as_amount_def
        valid_price_def all_legs)
next
  case Provide
  then have "is_i64 (ps_balance s + price)"
    using assms thresholds_nonneg [of c]
    by (auto simp: peer_within_def valid_price_def is_i64_def au_as_amount_def sane_thresholds_def)
  then show ?thesis using assms Provide
    by (auto simp: peer_within_def add_balance_def sub_shadow_reserved_def au_as_amount_def
        valid_price_def all_legs)
qed

lemma leg_release_within:
  assumes "peer_within c p q s" and "valid_price price" and "au_as_amount price \<le> leg_counter l s"
  shows "peer_within c p q (leg_release l price s) \<and>
    leg_counter l (leg_release l price s) = leg_counter l s - au_as_amount price \<and>
    (\<forall>l'. l' \<noteq> l \<longrightarrow> leg_counter l' (leg_release l price s) = leg_counter l' s)"
  using assms
  by (cases l) (auto simp: peer_within_def sub_reserved_def sub_shadow_reserved_def all_legs)

lemma acc_invariant_at:
  assumes "acc_invariant c \<lparr>sys_acc = acc, sys_open = rs, sys_paid = pd, sys_credited = cr\<rparr>" and "r < length (acc_heap acc)"
  shows "peer_within c (pd r) (cr r) (peer_at acc r)" and "leg_counter l (peer_at acc r) = outstanding l r rs"
  using assms by (cases l; auto simp: acc_invariant_def)+

lemma acc_invariant_open:
  assumes "acc_invariant c \<lparr>sys_acc = acc, sys_open = rs, sys_paid = pd, sys_credited = cr\<rparr>" and "x \<in> set rs"
  shows "res_state x < length (acc_heap acc)" and "\<not> res_applied x"
    and "valid_price (res_price x)"
    and "au_as_amount (res_price x) \<le> leg_counter (res_leg x) (peer_at acc (res_state x))"
proof -
  show "res_state x < length (acc_heap acc)" and "\<not> res_applied x" and "valid_price (res_price x)"
    using assms by (auto simp: acc_invariant_def)
  then show "au_as_amount (res_price x) \<le> leg_counter (res_leg x) (peer_at acc (res_state x))"
    using acc_invariant_at(2) [OF assms(1)] outstanding_remove1 [OF assms(2)] by simp
qed

text \<open>Closing a reservation: any change of its state that gives back its price and
  keeps the state within bounds keeps the invariant.\<close>

lemma acc_invariant_close:
  assumes inv: "acc_invariant c \<lparr>sys_acc = acc, sys_open = rs, sys_paid = pd, sys_credited = cr\<rparr>" and x: "x \<in> set rs"
    and f: "peer_within c (pd (res_state x)) (cr (res_state x)) (f (peer_at acc (res_state x))) \<and>
      leg_counter (res_leg x) (f (peer_at acc (res_state x))) =
        leg_counter (res_leg x) (peer_at acc (res_state x)) - au_as_amount (res_price x) \<and>
      (\<forall>l. l \<noteq> res_leg x \<longrightarrow>
        leg_counter l (f (peer_at acc (res_state x))) = leg_counter l (peer_at acc (res_state x)))"
  shows "acc_invariant c \<lparr>sys_acc = update_peer (res_state x) f acc, sys_open = remove1 x rs, sys_paid = pd, sys_credited = cr\<rparr>"
proof (rule acc_invariant_update_peer [OF inv])
  note len = acc_invariant_open(1) [OF inv x]
  show "res_state x < length (acc_heap acc)" by (rule len)
  have "leg_counter l (f (peer_at acc (res_state x))) = outstanding l (res_state x) (remove1 x rs)" for l
    using f acc_invariant_at(2) [OF inv len, of l] outstanding_remove1 [OF x, of l "res_state x"]
    by (cases "l = res_leg x") auto
  from this [of Receive] this [of Provide]
  show "ps_reserved (f (peer_at acc (res_state x))) = outstanding Receive (res_state x) (remove1 x rs)"
    and "ps_shadow_reserved (f (peer_at acc (res_state x))) =
      outstanding Provide (res_state x) (remove1 x rs)" by simp_all
  show "outstanding l r' (remove1 x rs) = outstanding l r' rs" if "r' \<noteq> res_state x" for l r'
    using outstanding_remove1 [OF x, of l r'] that by auto
qed (use f in \<open>auto dest: in_set_remove1 [THEN iffD1, rotated] simp: notin_set_remove1\<close>)

lemma update_peer_compose:
  "r < length (acc_heap acc) \<Longrightarrow>
     update_peer r g (update_peer r f acc) = update_peer r (\<lambda>s. g (f s)) acc"
  by (simp add: update_peer_def)

lemma peer_within_forfeit:
  assumes "sane_thresholds c p q" and "peer_within c p q s" and "valid_price price"
    and "au_as_amount price \<le> ps_shadow_reserved s"
  shows "peer_within c p q (sub_shadow_reserved (add_ghost s price) price)"
proof -
  have "ps_ghost s + nat price \<le> u64_max"
    using assms thresholds_nonneg [of c]
    by (auto simp: peer_within_def valid_price_def sane_thresholds_def au_as_amount_def)
  then show ?thesis using assms
    by (auto simp: peer_within_def sub_shadow_reserved_def add_ghost_def au_as_amount_def
        valid_price_def)
qed

lemma admit_guard:
  assumes "admits (admit acc peer price)" and "get_or_create_peer acc peer = (r, acc')"
  shows "\<not> debt_exceeds (debt_project (balance (peer_at acc' r)) (reserved_balance (peer_at acc' r)) price)
           (ps_disconnect_threshold (peer_at acc' r))"
  using assms(2)
proof (cases rule: get_or_create_peer_cases)
  case known
  with assms(1) show ?thesis
    by (auto simp: admits_def admit_def snapshot_admit_def ledger_snapshot_def Let_def
        split: if_splits)
next
  case fresh
  with assms(1) show ?thesis
    by (auto simp: admits_def admit_def snapshot_admit_def ledger_snapshot_def Let_def peer_at_def
        peer_state_new_def balance_def reserved_balance_def au_from_amount_def au_zero_def
        split: if_splits)
qed

lemma prepare_receive_invariant:
  assumes sane: "\<And>r. sane_thresholds c (pd r) (cr r)" and inv: "acc_invariant c \<lparr>sys_acc = acc, sys_open = rs, sys_paid = pd, sys_credited = cr\<rparr>"
    and price: "valid_price price"
    and prep: "prepare_receive acc peer price og = (Inr res, acc')"
  shows "acc_invariant c \<lparr>sys_acc = acc', sys_open = res # rs, sys_paid = pd, sys_credited = cr\<rparr>"
proof -
  obtain r acc1 where goc: "get_or_create_peer acc peer = (r, acc1)" by fastforce
  from prep goc have admit: "admits (admit acc peer price)"
    and res: "res = reservation_new Receive r price"
    and acc': "acc' = update_peer r (\<lambda>s. add_reserved s price) acc1"
    by (auto simp: prepare_receive_def split: if_splits)
  from acc_invariant_get_or_create [OF inv goc]
  have inv1: "acc_invariant c \<lparr>sys_acc = acc1, sys_open = rs, sys_paid = pd, sys_credited = cr\<rparr>" and r: "r < length (acc_heap acc1)"
    by auto
  note within = acc_invariant_at(1) [OF inv1 r]
  note new = peer_within_add_reserved [OF sane within price
      receive_guard_exact [OF sane within price admit_guard [OF admit goc]]]
  show ?thesis unfolding acc' res
    by (rule acc_invariant_update_peer [OF inv1 r])
      (use new price acc_invariant_at(2) [OF inv1 r, of Receive]
        acc_invariant_at(2) [OF inv1 r, of Provide] in
        \<open>auto simp: outstanding_Cons reservation_new_def\<close>)
qed

lemma prepare_provide_invariant:
  assumes sane: "\<And>r. sane_thresholds c (pd r) (cr r)" and inv: "acc_invariant c \<lparr>sys_acc = acc, sys_open = rs, sys_paid = pd, sys_credited = cr\<rparr>"
    and price: "valid_price price"
    and prep: "prepare_provide acc peer price = (Inr res, acc')"
  shows "acc_invariant c \<lparr>sys_acc = acc', sys_open = res # rs, sys_paid = pd, sys_credited = cr\<rparr>"
proof -
  obtain r acc1 where goc: "get_or_create_peer acc peer = (r, acc1)" by fastforce
  from prep goc have guard: "\<not> provide_projection (peer_at acc1 r) price > ps_payment_threshold (peer_at acc1 r)"
    and res: "res = reservation_new Provide r price"
    and acc': "acc' = update_peer r (\<lambda>s. add_shadow_reserved s price) acc1"
    by (auto simp: prepare_provide_def Let_def split: if_splits)
  from acc_invariant_get_or_create [OF inv goc]
  have inv1: "acc_invariant c \<lparr>sys_acc = acc1, sys_open = rs, sys_paid = pd, sys_credited = cr\<rparr>" and r: "r < length (acc_heap acc1)"
    by auto
  note within = acc_invariant_at(1) [OF inv1 r]
  note new = peer_within_add_shadow [OF sane within price
      provide_guard_exact [OF sane within price guard]]
  show ?thesis unfolding acc' res
    by (rule acc_invariant_update_peer [OF inv1 r])
      (use new price acc_invariant_at(2) [OF inv1 r, of Receive]
        acc_invariant_at(2) [OF inv1 r, of Provide] in
        \<open>auto simp: outstanding_Cons reservation_new_def\<close>)
qed

lemma for_peer_invariant:
  assumes "acc_invariant c \<lparr>sys_acc = acc, sys_open = rs, sys_paid = pd, sys_credited = cr\<rparr>" and "for_peer acc peer = (h, acc')"
  shows "acc_invariant c \<lparr>sys_acc = acc', sys_open = rs, sys_paid = pd, sys_credited = cr\<rparr>" and "ph_state h < length (acc_heap acc')"
  using assms acc_invariant_get_or_create [OF assms(1)]
  by (auto simp: for_peer_def Let_def split: prod.splits)

text \<open>A settlement changes a balance and its total by the same amount.\<close>

lemma peer_within_settled:
  assumes "peer_within c p q s" and "0 \<le> amount"
  shows "sane_thresholds c (p + amount) q \<Longrightarrow> peer_within c (p + amount) q (add_balance s amount)"
    and "sane_thresholds c p (q + amount) \<Longrightarrow>
      peer_within c p (q + amount) (add_balance s (au_saturating_neg amount))"
proof -
  note bounds = assms thresholds_nonneg [of c]
  show "peer_within c (p + amount) q (add_balance s amount)" if "sane_thresholds c (p + amount) q"
  proof -
    have "is_i64 (ps_balance s + amount)"
      using bounds that by (auto simp: peer_within_def is_i64_def sane_thresholds_def)
    then show ?thesis using assms by (auto simp: peer_within_def add_balance_def)
  qed
  show "peer_within c p (q + amount) (add_balance s (au_saturating_neg amount))"
    if "sane_thresholds c p (q + amount)"
  proof -
    have "is_i64 (ps_balance s - amount)" and "au_saturating_neg amount = - amount"
      using bounds that
      by (auto simp: peer_within_def is_i64_def sane_thresholds_def au_saturating_neg_def)
    then show ?thesis using assms by (auto simp: peer_within_def add_balance_def)
  qed
qed

lemma acc_invariant_settled:
  assumes inv: "acc_invariant c \<lparr>sys_acc = acc, sys_open = rs, sys_paid = pd, sys_credited = cr\<rparr>"
    and r: "r < length (acc_heap acc)" and "0 \<le> a" and "0 \<le> b"
    and within: "peer_within c (pd r + a) (cr r + b) (add_balance (peer_at acc r) amount)"
  shows "acc_invariant c \<lparr>sys_acc = update_peer r (\<lambda>s. add_balance s amount) acc, sys_open = rs,
    sys_paid = pd(r := pd r + a), sys_credited = cr(r := cr r + b)\<rparr>"
proof -
  have "acc_invariant c \<lparr>sys_acc = acc, sys_open = rs, sys_paid = pd, sys_credited = cr\<rparr> \<longleftrightarrow>
      acc_config acc = c \<and> refs_valid acc \<and> (\<forall>i. 0 \<le> pd i \<and> 0 \<le> cr i) \<and>
      (\<forall>x \<in> set rs. res_state x < length (acc_heap acc) \<and> \<not> res_applied x \<and> valid_price (res_price x)) \<and>
      (\<forall>i < length (acc_heap acc). peer_within c (pd i) (cr i) (peer_at acc i) \<and>
        ps_reserved (peer_at acc i) = outstanding Receive i rs \<and>
        ps_shadow_reserved (peer_at acc i) = outstanding Provide i rs)"
    by (simp add: acc_invariant_def)
  with inv r within assms(3,4) show ?thesis
    by (auto simp: acc_invariant_def refs_valid_def add_balance_def)
qed

definition sane_totals :: "bandwidth_config \<Rightarrow> acc_system \<Rightarrow> bool" where
  "sane_totals c s \<longleftrightarrow> (\<forall>r. sane_thresholds c (sys_paid s r) (sys_credited s r))"

lemma acc_step_totals:
  "acc_step s t \<Longrightarrow> sys_paid s r \<le> sys_paid t r \<and> sys_credited s r \<le> sys_credited t r"
  by (induction rule: acc_step.induct) auto

lemma acc_step_sane: "acc_step s t \<Longrightarrow> sane_totals c t \<Longrightarrow> sane_totals c s"
  unfolding sane_totals_def sane_thresholds_def
  by (meson acc_step_totals add_mono order_le_less_trans order_refl)

lemma acc_step_invariant:
  assumes "acc_step s t" and "acc_invariant c s" and "sane_totals c t"
  shows "acc_invariant c t"
  using assms(1) acc_step_sane [OF assms(1,3)] assms(2,3)
proof (induction rule: acc_step.induct)
  case (receive_ok price acc peer og res acc' rs pd cr)
  then show ?case using prepare_receive_invariant [of c pd cr] by (auto simp: sane_totals_def)
next
  case (receive_refused price acc peer og e acc' rs pd cr)
  then show ?case by (auto simp: prepare_receive_def split: if_splits prod.splits)
next
  case (provide_ok price acc peer res acc' rs pd cr)
  then show ?case using prepare_provide_invariant [of c pd cr] by (auto simp: sane_totals_def)
next
  case (provide_refused price acc peer e acc' rs pd cr)
  then show ?case using acc_invariant_get_or_create
    by (auto simp: prepare_provide_def Let_def split: if_splits prod.splits)
next
  case (apply_leg res rs acc pd cr)
  note x = acc_invariant_open [OF apply_leg(3,1)]
  have "sane_thresholds c (pd (res_state res)) (cr (res_state res))"
    using apply_leg(2) by (simp add: sane_totals_def)
  from leg_apply_within [OF this acc_invariant_at(1) [OF apply_leg(3) x(1)] x(3,4)]
  show ?case using acc_invariant_close [OF apply_leg(3,1)]
    by (simp add: reservation_apply_def reservation_drop_def)
next
  case (drop_leg res rs acc pd cr)
  note x = acc_invariant_open [OF drop_leg(3,1)]
  from leg_release_within [OF acc_invariant_at(1) [OF drop_leg(3) x(1)] x(3,4)]
  show ?case using acc_invariant_close [OF drop_leg(3,1)] x(2)
    by (simp add: reservation_drop_def)
next
  case (forfeit_leg res rs acc pd cr)
  note x = acc_invariant_open [OF forfeit_leg(4,1)]
  let ?f = "\<lambda>s. sub_shadow_reserved (add_ghost s (res_price res)) (res_price res)"
  have "reservation_forfeit acc res = update_peer (res_state res) ?f acc"
    using x(1,2) forfeit_leg(2)
    by (simp add: reservation_forfeit_def reservation_drop_def update_peer_compose)
  moreover have "sane_thresholds c (pd (res_state res)) (cr (res_state res))"
    using forfeit_leg(3) by (simp add: sane_totals_def)
  ultimately show ?case
    using acc_invariant_close [OF forfeit_leg(4,1), of ?f] forfeit_leg(2) x(4)
      peer_within_forfeit [OF _ acc_invariant_at(1) [OF forfeit_leg(4) x(1)] x(3)]
    by (auto simp: all_legs sub_shadow_reserved_def add_ghost_def)
next
  case (paid acc peer h acc' amount rs pd cr)
  note h = for_peer_invariant [OF paid(4,1)]
  have "sane_thresholds c (pd (ph_state h) + amount) (cr (ph_state h))"
    using paid(5) by (auto simp: sane_totals_def dest: spec [of _ "ph_state h"])
  from peer_within_settled(1) [OF acc_invariant_at(1) [OF h] paid(2) this]
  show ?case using acc_invariant_settled [OF h paid(2), of 0 amount] by simp
next
  case (credited acc peer h acc' amount rs pd cr)
  note h = for_peer_invariant [OF credited(4,1)]
  have "sane_thresholds c (pd (ph_state h)) (cr (ph_state h) + amount)"
    using credited(5) by (auto simp: sane_totals_def dest: spec [of _ "ph_state h"])
  from peer_within_settled(2) [OF acc_invariant_at(1) [OF h] credited(2) this]
  show ?case using acc_invariant_settled [OF h _ credited(2), of 0] by simp
next
  case (removed acc rs pd cr peer)
  then show ?case
    by (auto simp: acc_invariant_def remove_peer_def refs_valid_def peer_at_def ran_def split: if_splits)
qed

lemma acc_reachable_invariant:
  "acc_reachable c s \<Longrightarrow> sane_totals c s \<Longrightarrow> acc_invariant c s"
proof (induction rule: acc_reachable.induct)
  case start
  then show ?case by (simp add: acc_invariant_def accounting_new_def refs_valid_def)
next
  case (step s t)
  then show ?case using acc_step_invariant acc_step_sane by blast
qed

section \<open>A sample run\<close>

text \<open>One run under the default configuration: the peer is served a chunk for 10000,
  the largest receive the disconnect line then allows is reserved, and the peer settles
  its 10000 while that reservation is open.\<close>

definition sample_reservation :: "leg \<Rightarrow> au \<Rightarrow> reservation" where
  "sample_reservation l price = reservation_new l 0 price"

definition sample_system ::
  "int \<Rightarrow> nat \<Rightarrow> nat \<Rightarrow> reservation list \<Rightarrow> (state_ref \<Rightarrow> int) \<Rightarrow> acc_system" where
  "sample_system b reserved shadow rs cr =
     \<lparr>sys_acc = \<lparr>acc_config = bandwidth_config_default,
        acc_heap = [(peer_state_new 13500000 16875000)\<lparr>ps_balance := b, ps_reserved := reserved,
                      ps_shadow_reserved := shadow\<rparr>],
        acc_peers = [7 \<mapsto> 0]\<rparr>,
      sys_open = rs, sys_paid = (\<lambda>_. 0), sys_credited = cr\<rparr>"

lemma default_thresholds:
  "payment_threshold bandwidth_config_default = 13500000"
  "disconnect_threshold bandwidth_config_default = 16875000"
  by (simp_all add: payment_threshold_def disconnect_threshold_def payment_tolerance_percent_def
      bandwidth_config_default_def au_from_amount_def au_scale_percent_exact Let_def
      u64_saturating_add_def)

lemmas sample_simps = sample_system_def sample_reservation_def reservation_new_def
  peer_state_new_def accounting_new_def get_or_create_peer_def peer_at_def update_peer_def
  default_thresholds valid_price_def is_i64_def Let_def

lemma sample_created:
  "get_or_create_peer (accounting_new bandwidth_config_default) 7 =
     (0, sys_acc (sample_system 0 0 0 [] (\<lambda>_. 0)))"
  by (simp add: sample_simps)

lemma sample_projection:
  "provide_projection (peer_at (sys_acc (sample_system 0 0 0 [] cr)) 0) 10000 = 10000"
  "ps_payment_threshold (peer_at (sys_acc (sample_system 0 0 0 [] cr)) 0) = 13500000"
  by (simp_all add: sample_simps provide_projection_def balance_def shadow_reserved_balance_def
      ghost_balance_def au_saturating_add_def au_from_amount_def i64_clamp_def)

lemma sample_served:
  "acc_reachable bandwidth_config_default (sample_system 10000 0 0 [] (\<lambda>_. 0))"
proof -
  let ?res = "sample_reservation Provide 10000"
  have "prepare_provide (accounting_new bandwidth_config_default) 7 10000 =
      (Inr ?res, sys_acc (sample_system 0 0 10000 [?res] (\<lambda>_. 0)))"
    by (simp add: prepare_provide_def sample_created sample_projection)
      (simp add: sample_simps add_shadow_reserved_def au_as_amount_def)
  then have "acc_step \<lparr>sys_acc = accounting_new bandwidth_config_default, sys_open = [],
        sys_paid = (\<lambda>_. 0), sys_credited = (\<lambda>_. 0)\<rparr>
      \<lparr>sys_acc = sys_acc (sample_system 0 0 10000 [?res] (\<lambda>_. 0)), sys_open = [?res],
        sys_paid = (\<lambda>_. 0), sys_credited = (\<lambda>_. 0)\<rparr>"
    by (intro acc_step.provide_ok [where price = 10000 and peer = 7])
      (simp_all add: valid_price_def is_i64_def)
  then have "acc_reachable bandwidth_config_default (sample_system 0 0 10000 [?res] (\<lambda>_. 0))"
    using acc_reachable.step [OF acc_reachable.start] by (simp add: sample_system_def)
  moreover have "acc_step (sample_system 0 0 10000 [?res] (\<lambda>_. 0))
      (sample_system 10000 0 0 [] (\<lambda>_. 0))"
    using acc_step.apply_leg [of ?res "[?res]" "sys_acc (sample_system 0 0 10000 [?res] (\<lambda>_. 0))"
        "\<lambda>_. 0" "\<lambda>_. 0"]
    by (simp add: sample_simps reservation_apply_def reservation_drop_def add_balance_def
        sub_shadow_reserved_def au_as_amount_def i64_clamp_def)
  ultimately show ?thesis by (rule acc_reachable.step)
qed

lemma sample_prepare_receive:
  "prepare_receive (sys_acc (sample_system 10000 0 0 [] (\<lambda>_. 0))) 7 16885000 True =
     (Inr (sample_reservation Receive 16885000),
      sys_acc (sample_system 10000 16885000 0 [sample_reservation Receive 16885000] (\<lambda>_. 0)))"
  by (simp add: sample_simps prepare_receive_def admits_def admit_def snapshot_admit_def
      ledger_snapshot_def debt_project_def debt_exceeds_def balance_def reserved_balance_def au_defs
      add_reserved_def i64_clamp_def u64_saturating_add_def)

lemma sample_reserved:
  "acc_reachable bandwidth_config_default
     (sample_system 10000 16885000 0 [sample_reservation Receive 16885000] (\<lambda>_. 0))"
  using acc_reachable.step [OF sample_served]
    acc_step.receive_ok [OF _ sample_prepare_receive, of "[]" "\<lambda>_. 0" "\<lambda>_. 0"]
  by (simp add: sample_system_def valid_price_def is_i64_def)

lemma sample_settled:
  "acc_reachable bandwidth_config_default
     (sample_system 0 16885000 0 [sample_reservation Receive 16885000] ((\<lambda>_. 0)(0 := 10000)))"
proof (rule acc_reachable.step [OF sample_reserved])
  let ?s = "sample_system 10000 16885000 0 [sample_reservation Receive 16885000] (\<lambda>_. 0)"
  show "acc_step ?s
      (sample_system 0 16885000 0 [sample_reservation Receive 16885000] ((\<lambda>_. 0)(0 := 10000)))"
    using acc_step.credited [of "sys_acc ?s" 7 _ "sys_acc ?s" 10000 "sys_open ?s" "\<lambda>_. 0" "\<lambda>_. 0"]
    by (simp add: sample_simps for_peer_def add_balance_def au_saturating_neg_def i64_clamp_def)
qed

lemma sample_sane: "sane_totals bandwidth_config_default (sample_system b m n rs ((\<lambda>_. 0)(0 := 10000)))"
  "sane_totals bandwidth_config_default (sample_system b m n rs (\<lambda>_. 0))"
  by (simp_all add: sane_totals_def sane_thresholds_def sample_system_def default_thresholds)

section \<open>Properties\<close>

text \<open>C17. An admitted receive never takes us past the disconnect line: right after
  \<^verbatim>\<open>prepare_receive\<close> grants a reservation, what we owe the peer plus everything
  reserved against it is at most the disconnect threshold, for every history of
  operations in which each prepare call runs its check and its reservation together.\<close>

theorem admitted_receive_within_disconnect:
  assumes "acc_reachable c s" and "sane_totals c s" and "valid_price price"
    and "prepare_receive (sys_acc s) peer price og = (Inr res, acc')"
  shows "int (ps_reserved (peer_at acc' (res_state res))) - ps_balance (peer_at acc' (res_state res))
    \<le> disconnect_threshold c"
proof -
  obtain acc rs pd cr where s: "s = \<lparr>sys_acc = acc, sys_open = rs, sys_paid = pd, sys_credited = cr\<rparr>"
    by (cases s) auto
  obtain r acc1 where goc: "get_or_create_peer acc peer = (r, acc1)" by fastforce
  note inv = acc_reachable_invariant [OF assms(1,2), unfolded s]
  from acc_invariant_get_or_create [OF inv goc]
  have inv1: "acc_invariant c \<lparr>sys_acc = acc1, sys_open = rs, sys_paid = pd, sys_credited = cr\<rparr>"
    and r: "r < length (acc_heap acc1)" by auto
  from assms(4) goc have admit: "admits (admit acc peer price)" and res: "res_state res = r"
    and acc': "acc' = update_peer r (\<lambda>s. add_reserved s price) acc1"
    by (auto simp: s prepare_receive_def reservation_new_def split: if_splits)
  have sane: "sane_thresholds c (pd r) (cr r)" using assms(2) by (simp add: sane_totals_def s)
  note within = acc_invariant_at(1) [OF inv1 r]
  note exact = receive_guard_exact [OF sane within assms(3) admit_guard [OF admit goc]]
  show ?thesis
    using exact peer_within_add_reserved(2) [OF sane within assms(3) exact] assms(3) r
    by (simp add: res acc' add_reserved_def au_as_amount_def valid_price_def)
qed

theorem admitted_receive_within_disconnect_witness:
  "int (ps_reserved (peer_at (sys_acc (sample_system 10000 16885000 0
       [sample_reservation Receive 16885000] (\<lambda>_. 0))) 0)) - 10000
     \<le> disconnect_threshold bandwidth_config_default"
  using admitted_receive_within_disconnect [OF sample_served sample_sane(2) _ sample_prepare_receive]
  by (simp add: sample_simps)

text \<open>C2. In every reachable state the reservation counters of a peer are exactly what
  its open reservations hold, on both legs, so nothing leaks: with no reservation open
  both counters are zero.\<close>

theorem reservations_conserved:
  assumes "acc_reachable c s" and "sane_totals c s" and "acc_peers (sys_acc s) peer = Some r"
  shows "ps_reserved (peer_at (sys_acc s) r) = outstanding Receive r (sys_open s) \<and>
    ps_shadow_reserved (peer_at (sys_acc s) r) = outstanding Provide r (sys_open s) \<and>
    (sys_open s = [] \<longrightarrow>
      ps_reserved (peer_at (sys_acc s) r) = 0 \<and> ps_shadow_reserved (peer_at (sys_acc s) r) = 0)"
  using acc_reachable_invariant [OF assms(1,2)] assms(3) by (auto simp: acc_invariant_def refs_validD)

theorem reservations_conserved_witness:
  "outstanding Receive 0 [sample_reservation Receive 16885000] = 16885000"
  using reservations_conserved [OF sample_settled sample_sane(1), of 7 0]
  by (simp add: sample_simps)

text \<open>C4. In every reachable state both debts are bounded by their threshold plus what
  has been settled on that peer's state: without settlements, by the thresholds.\<close>

theorem exposure_bounded:
  assumes "acc_reachable c s" and "sane_totals c s" and "acc_peers (sys_acc s) peer = Some r"
  shows "int (ps_reserved (peer_at (sys_acc s) r)) - ps_balance (peer_at (sys_acc s) r)
      \<le> disconnect_threshold c + sys_credited s r \<and>
    ps_balance (peer_at (sys_acc s) r) + int (ps_shadow_reserved (peer_at (sys_acc s) r))
      + int (ps_ghost (peer_at (sys_acc s) r)) \<le> payment_threshold c + sys_paid s r"
  using acc_reachable_invariant [OF assms(1,2)] assms(3)
  by (auto simp: acc_invariant_def peer_within_def dest: refs_validD)

theorem exposure_bounded_witness:
  "(16885000 :: int) \<le> disconnect_threshold bandwidth_config_default + 10000"
  using exposure_bounded [OF sample_settled sample_sane(1), of 7 0]
  by (simp add: sample_simps)

text \<open>The settled total in that bound cannot be dropped: under the default
  configuration a reachable state has a peer whose reserved debt lies past the
  disconnect line, because a settlement cleared the balance an open reservation had
  been admitted against.\<close>

lemma settlement_can_pass_disconnect_line:
  "\<exists>s r. acc_reachable bandwidth_config_default s \<and> acc_peers (sys_acc s) 7 = Some r \<and>
     disconnect_threshold bandwidth_config_default <
       int (ps_reserved (peer_at (sys_acc s) r)) - ps_balance (peer_at (sys_acc s) r)"
  by (rule exI, rule exI [of _ 0], rule conjI, rule sample_settled) (simp add: sample_simps)

lemma prepare_receive_split:
  "prepare_receive acc peer price og =
     (if admits (admit acc peer price)
      then (let (res, acc') = receive_reserve acc peer price in (Inr res, acc'))
      else (Inl (DisconnectThreshold peer (ledger_balance acc peer)
              (disconnect_threshold (acc_config acc))), acc))"
  by (simp add: prepare_receive_def receive_reserve_def split: prod.splits)

lemma sample_receive_reserve:
  "receive_reserve (accounting_new bandwidth_config_default) 7 10000000 =
     (sample_reservation Receive 10000000, sys_acc (sample_system 0 10000000 0 [] (\<lambda>_. 0)))"
  "receive_reserve (sys_acc (sample_system 0 10000000 0 [] (\<lambda>_. 0))) 7 10000000 =
     (sample_reservation Receive 10000000, sys_acc (sample_system 0 20000000 0 [] (\<lambda>_. 0)))"
  by (simp_all add: receive_reserve_def sample_simps add_reserved_def au_as_amount_def)

lemmas admit_simps = admits_def admit_def snapshot_admit_def ledger_snapshot_def debt_project_def
  debt_exceeds_def balance_def reserved_balance_def au_defs i64_clamp_def

lemma sample_admits:
  "admits (admit (accounting_new bandwidth_config_default) 7 10000000)"
  "\<not> admits (admit (sys_acc (sample_system 0 10000000 0 [] (\<lambda>_. 0))) 7 10000000)"
  by (simp_all add: sample_simps admit_simps)

text \<open>The gate is a check followed by a reservation: \<^verbatim>\<open>prepare_receive\<close> is exactly
  the admission test and then \<open>receive_reserve\<close>. When two calls interleave between the
  two parts, both can be admitted although the reservations together pass the
  disconnect line, and run one after the other the second is refused.\<close>

lemma interleaved_receives_pass_disconnect_line:
  "prepare_receive acc peer price og =
     (if admits (admit acc peer price)
      then (let (res, acc') = receive_reserve acc peer price in (Inr res, acc'))
      else (Inl (DisconnectThreshold peer (ledger_balance acc peer)
              (disconnect_threshold (acc_config acc))), acc)) \<and>
   (let acc0 = accounting_new bandwidth_config_default;
        acc1 = snd (receive_reserve acc0 7 10000000);
        acc2 = snd (receive_reserve acc1 7 10000000)
    in admits (admit acc0 7 10000000) \<and> \<not> admits (admit acc1 7 10000000) \<and>
       disconnect_threshold bandwidth_config_default < int (ps_reserved (peer_at acc2 0)))"
  using sample_admits sample_receive_reserve
  by (simp add: Let_def prepare_receive_split peer_at_def sample_system_def default_thresholds)

end
