(* ===== verification/Peer_Ledger.thy ===== *)
theory Peer_Ledger
  imports Accounting_Safety
begin

text \<open>
  The contract the settlement services rely on: a ledger with one signed balance per
  peer and an operation that records an amount in one direction. The services reach it
  through \<^verbatim>\<open>SwarmBandwidthAccounting::for_peer\<close> and \<^verbatim>\<open>SwarmPeerBandwidth::record\<close>; the
  interpretation shows that per-peer accounting provides it.
\<close>

section \<open>The contract\<close>

locale peer_ledger =
  fixes wf :: "'s \<Rightarrow> bool"
    and bal :: "'s \<Rightarrow> 'p \<Rightarrow> int"
    and rec :: "'s \<Rightarrow> 'p \<Rightarrow> int \<Rightarrow> direction \<Rightarrow> 's"
  assumes wf_rec: "wf s \<Longrightarrow> wf (rec s p a d)"
    and bal_range: "wf s \<Longrightarrow> is_i64 (bal s p)"
    and bal_upload: "wf s \<Longrightarrow> bal (rec s p a Upload) p = i64_clamp (bal s p + a)"
    and bal_download: "wf s \<Longrightarrow> valid_price a \<Longrightarrow> bal (rec s p a Download) p = i64_clamp (bal s p - a)"
    and bal_other: "wf s \<Longrightarrow> q \<noteq> p \<Longrightarrow> bal (rec s p a d) q = bal s q"
begin

lemma upload_towards_zero:
  assumes "wf s" and "0 \<le> a" and "a \<le> - bal s p"
  shows "bal (rec s p a Upload) p = bal s p + a \<and> bal (rec s p a Upload) p \<le> 0"
proof -
  have "is_i64 (bal s p + a)"
    using assms bal_range [OF assms(1), of p] by (auto simp: is_i64_def)
  then show ?thesis using assms by (simp add: bal_upload)
qed

lemma download_towards_zero:
  assumes "wf s" and "0 \<le> a" and "a \<le> bal s p"
  shows "bal (rec s p a Download) p = bal s p - a \<and> 0 \<le> bal (rec s p a Download) p"
proof -
  have "is_i64 (bal s p - a)" and "valid_price a"
    using assms bal_range [OF assms(1), of p] by (auto simp: is_i64_def valid_price_def)
  then show ?thesis using assms by (simp add: bal_download)
qed

end

section \<open>Accounting provides it\<close>

definition record_peer :: "accounting \<Rightarrow> overlay_address \<Rightarrow> au \<Rightarrow> direction \<Rightarrow> accounting" where
  "record_peer acc peer amount dir =
     (let (h, acc') = for_peer acc peer in record_usage h amount dir acc')"

definition acc_wf :: "accounting \<Rightarrow> bool" where
  "acc_wf acc \<longleftrightarrow> refs_valid acc \<and> inj_on (acc_peers acc) (dom (acc_peers acc)) \<and>
     (\<forall>s \<in> set (acc_heap acc). is_i64 (ps_balance s))"

lemma acc_wf_new [simp]: "acc_wf (accounting_new c)"
  by (simp add: acc_wf_def accounting_new_def refs_valid_def)

lemma get_or_create_peer_wf:
  assumes "acc_wf acc" and "get_or_create_peer acc p = (r, acc')"
  shows "acc_wf acc'" and "acc_peers acc' p = Some r" and "r < length (acc_heap acc')"
    and "ledger_balance acc' q = ledger_balance acc q"
proof -
  have "acc_wf acc' \<and> acc_peers acc' p = Some r \<and> r < length (acc_heap acc') \<and>
      ledger_balance acc' q = ledger_balance acc q"
    using assms(2)
  proof (cases rule: get_or_create_peer_cases)
    case known
    with assms(1) show ?thesis by (auto simp: acc_wf_def dest: refs_validD)
  next
    case fresh
    have old: "x < length (acc_heap acc)" if "acc_peers acc y = Some x" for x y
      using assms(1) that by (auto simp: acc_wf_def dest: refs_validD)
    have "inj_on (acc_peers acc') (dom (acc_peers acc'))"
      using assms(1) fresh old by (fastforce simp: acc_wf_def inj_on_def dom_def split: if_splits)
    moreover have "refs_valid acc'"
      using fresh old by (fastforce simp: refs_valid_def ran_def split: if_splits)
    moreover have "ledger_balance acc' q = ledger_balance acc q"
      using fresh old
      by (auto simp: ledger_balance_def peer_at_def nth_append balance_def peer_state_new_def
          au_zero_def split: option.split)
    ultimately show ?thesis
      using assms(1) fresh by (auto simp: acc_wf_def peer_state_new_def is_i64_def)
  qed
  then show "acc_wf acc'" and "acc_peers acc' p = Some r" and "r < length (acc_heap acc')"
    and "ledger_balance acc' q = ledger_balance acc q" by auto
qed

lemma record_peer_eq:
  assumes "get_or_create_peer acc p = (r, acc')"
  shows "record_peer acc p a d = update_peer r
    (\<lambda>s. add_balance s (case d of Upload \<Rightarrow> a | Download \<Rightarrow> au_saturating_neg a)) acc'"
  using assms by (cases d) (simp_all add: record_peer_def for_peer_def)

lemma acc_wf_update_balance:
  assumes "acc_wf acc" shows "acc_wf (update_peer r (\<lambda>s. add_balance s a) acc)"
  using assms
  by (auto simp: acc_wf_def refs_valid_def add_balance_def dest!: subsetD [OF set_update_subset_insert])

lemma record_peer_balance:
  assumes "acc_wf acc"
  shows "ledger_balance (record_peer acc p a d) q =
    (if q = p then i64_clamp (ledger_balance acc p +
       (case d of Upload \<Rightarrow> a | Download \<Rightarrow> au_saturating_neg a)) else ledger_balance acc q)"
proof -
  obtain r acc' where goc: "get_or_create_peer acc p = (r, acc')" by fastforce
  note wf = get_or_create_peer_wf [OF assms goc]
  have "acc_peers acc' q = Some x \<Longrightarrow> q \<noteq> p \<Longrightarrow> x \<noteq> r" for x
    using wf(1,2) by (metis acc_wf_def domI inj_onD)
  then show ?thesis
    using wf(2,3) wf(4) [of p, symmetric] wf(4) [of q, symmetric]
    by (auto simp: record_peer_eq [OF goc] ledger_balance_def add_balance_def balance_def
        split: option.split)
qed

lemma ledger_balance_range:
  assumes "acc_wf acc" shows "is_i64 (ledger_balance acc p)"
proof (cases "acc_peers acc p")
  case (Some r)
  with assms have "acc_heap acc ! r \<in> set (acc_heap acc)" by (auto simp: acc_wf_def dest: refs_validD)
  with assms Some show ?thesis by (simp add: acc_wf_def ledger_balance_def peer_at_def balance_def)
qed (simp add: ledger_balance_def au_zero_def is_i64_def)

lemma record_peer_wf: "acc_wf acc \<Longrightarrow> acc_wf (record_peer acc p a d)"
  by (cases "get_or_create_peer acc p")
    (simp add: record_peer_eq acc_wf_update_balance get_or_create_peer_wf)

interpretation acc_ledger: peer_ledger acc_wf ledger_balance record_peer
proof
  show "ledger_balance (record_peer s p a Download) p = i64_clamp (ledger_balance s p - a)"
    if "acc_wf s" "valid_price a" for s p a
    using that by (simp add: record_peer_balance valid_price_def au_saturating_neg_def is_i64_def)
qed (simp_all add: record_peer_wf record_peer_balance ledger_balance_range)

end
