(* ===== verification/Pseudosettle.thy ===== *)
theory Pseudosettle
  imports Peer_Ledger
begin

text \<open>
  Time-based settlement, \<^verbatim>\<open>crates/swarm/accounting/pseudosettle/src\<close>: the service actor
  (service.rs), its errors (error.rs) and the settlement provider (lib.rs).

  A handler is a function from the service and its input to the new service and the
  list of calls it makes outside, in order. The clock is an argument: a handler that
  samples it more than once takes one reading per sample. The outbound channel is an
  argument too: \<open>None\<close> when it is open, or the text of the error every send returns. A
  response channel is the number of the request it answers.
\<close>

section \<open>State\<close>

datatype pseudosettle_settlement_error =
    ServiceStopped
  | SettlementInProgress
  | TooSoon
  | NetworkError string
  | Rejected

datatype pseudosettle_command = Settle overlay_address au nat

record pending_settlement =
  pend_amount :: au
  pend_response :: nat

record pseudosettle_ack =
  ack_accepted :: au
  ack_time :: int

datatype pseudosettle_event =
    Sent overlay_address pseudosettle_ack
  | Received overlay_address nat nat
  | Failed overlay_address

record pseudosettle_service =
  psv_accounting :: accounting
  psv_refresh_rate :: au
  psv_pending :: "overlay_address \<rightharpoonup> pending_settlement"
  psv_last_settlement :: "overlay_address \<rightharpoonup> nat"
  psv_last_settle_ack :: "overlay_address \<rightharpoonup> nat"
  psv_first_seen :: "overlay_address \<rightharpoonup> nat"
  psv_reporter :: bool

datatype ps_effect =
    Respond nat "pseudosettle_settlement_error + au"
  | SendPseudosettle overlay_address nat
  | AckPseudosettle overlay_address nat pseudosettle_ack
  | Record overlay_address au direction
  | ReportViolation overlay_address

text \<open>The samples of one handler run: on entry, inside \<^verbatim>\<open>calculate_acceptable\<close>, and for
  the timestamp of an outbound ack.\<close>

record clock_readings =
  clk_entry :: nat
  clk_allowance :: nat
  clk_ack :: nat

definition clock_skew_window_secs :: nat where
  "clock_skew_window_secs = 60"

definition pseudosettle_service_new :: "accounting \<Rightarrow> au \<Rightarrow> pseudosettle_service" where
  "pseudosettle_service_new acc rate =
     \<lparr>psv_accounting = acc, psv_refresh_rate = rate, psv_pending = Map.empty,
      psv_last_settlement = Map.empty, psv_last_settle_ack = Map.empty,
      psv_first_seen = Map.empty, psv_reporter = False\<rparr>"

definition with_reporter :: "pseudosettle_service \<Rightarrow> pseudosettle_service" where
  "with_reporter svc = svc\<lparr>psv_reporter := True\<rparr>"

section \<open>Operations\<close>

definition report_violation :: "pseudosettle_service \<Rightarrow> overlay_address \<Rightarrow> ps_effect list" where
  "report_violation svc peer = (if psv_reporter svc then [ReportViolation peer] else [])"

definition wire_from_au :: "au \<Rightarrow> nat" where
  "wire_from_au amount = au_as_amount amount"

text \<open>\<^verbatim>\<open>current_timestamp() as i64\<close>: the cast reinterprets the bits.\<close>

definition ack_timestamp :: "nat \<Rightarrow> int" where
  "ack_timestamp now = (if int now \<le> i64_max then int now else int now - int u64_modulus)"

fun handle_command ::
  "pseudosettle_service \<Rightarrow> clock_readings \<Rightarrow> string option \<Rightarrow> pseudosettle_command
     \<Rightarrow> pseudosettle_service \<times> ps_effect list" where
  "handle_command svc clk chan (Settle peer amount response) =
     (if psv_pending svc peer \<noteq> None then (svc, [Respond response (Inl SettlementInProgress)])
      else if (case psv_last_settle_ack svc peer of Some t \<Rightarrow> clk_entry clk \<le> t | None \<Rightarrow> False)
      then (svc, [Respond response (Inl TooSoon)])
      else
        (let svc' = svc\<lparr>psv_pending := (psv_pending svc)
               (peer \<mapsto> \<lparr>pend_amount = amount, pend_response = response\<rparr>)\<rparr>
         in case chan of
              None \<Rightarrow> (svc', [SendPseudosettle peer (wire_from_au amount)])
            | Some e \<Rightarrow>
                (svc'\<lparr>psv_pending := (psv_pending svc')(peer := None)\<rparr>,
                 [Respond response (Inl (NetworkError e))])))"

definition calculate_acceptable ::
  "pseudosettle_service \<Rightarrow> nat \<Rightarrow> overlay_address \<Rightarrow> au \<Rightarrow> au \<Rightarrow> au" where
  "calculate_acceptable svc now peer bal requested =
     (if \<not> au_is_positive bal then au_zero
      else
        (let since = (case psv_last_settlement svc peer of
                        Some t \<Rightarrow> t
                      | None \<Rightarrow> (case psv_first_seen svc peer of Some t \<Rightarrow> t | None \<Rightarrow> now));
             elapsed = now - since;
             allowance = (case au_checked_scale (psv_refresh_rate svc) elapsed of
                            Some v \<Rightarrow> v
                          | None \<Rightarrow> au_from_amount u64_max)
         in au_min (au_min requested bal) allowance))"

definition effective_ack_time :: "nat \<Rightarrow> int \<Rightarrow> nat" where
  "effective_ack_time now t =
     (if 0 \<le> t \<and> now - clock_skew_window_secs \<le> nat t \<and> nat t \<le> now then nat t else now)"

fun handle_event ::
  "pseudosettle_service \<Rightarrow> clock_readings \<Rightarrow> string option \<Rightarrow> pseudosettle_event
     \<Rightarrow> pseudosettle_service \<times> ps_effect list" where
  "handle_event svc clk chan (Sent peer ack) =
     (case psv_pending svc peer of
        None \<Rightarrow> (svc, [])
      | Some pending \<Rightarrow>
          (let accepted = au_min (ack_accepted ack) (pend_amount pending);
               effective = effective_ack_time (clk_entry clk) (ack_time ack);
               paced = (case psv_last_settle_ack svc peer of
                          Some prev \<Rightarrow> max prev effective | None \<Rightarrow> effective)
           in (svc\<lparr>psv_pending := (psv_pending svc)(peer := None),
                   psv_accounting := record_peer (psv_accounting svc) peer accepted Upload,
                   psv_last_settle_ack := (psv_last_settle_ack svc)(peer \<mapsto> paced)\<rparr>,
               (if ack_accepted ack > pend_amount pending then report_violation svc peer else [])
                 @ [Record peer accepted Upload, Respond (pend_response pending) (Inr accepted)])))"
| "handle_event svc clk chan (Received peer amount request_id) =
     (if (case psv_last_settlement svc peer of Some t \<Rightarrow> clk_entry clk \<le> t | None \<Rightarrow> False)
      then (svc, if chan = None
                 then [AckPseudosettle peer request_id
                         \<lparr>ack_accepted = au_zero, ack_time = ack_timestamp (clk_ack clk)\<rparr>]
                 else [])
      else
        (let svc1 = svc\<lparr>psv_first_seen := (psv_first_seen svc)
               (peer \<mapsto> (case psv_first_seen svc peer of Some t \<Rightarrow> t | None \<Rightarrow> clk_entry clk))\<rparr>;
             (h, acc1) = for_peer (psv_accounting svc1) peer;
             acceptable = calculate_acceptable svc1 (clk_allowance clk) peer
               (handle_balance h acc1) (au_saturating_from_u256 amount);
             (svc2, recorded) =
               (if au_is_positive acceptable
                then (svc1\<lparr>psv_accounting := record_usage h acceptable Download acc1,
                           psv_last_settlement := (psv_last_settlement svc1)(peer \<mapsto> clk_entry clk)\<rparr>,
                      [Record peer acceptable Download])
                else (svc1\<lparr>psv_accounting := acc1\<rparr>, []))
         in (svc2, recorded @ (if chan = None
               then [AckPseudosettle peer request_id
                       \<lparr>ack_accepted = acceptable, ack_time = ack_timestamp (clk_ack clk)\<rparr>]
               else []))))"
| "handle_event svc clk chan (Failed peer) =
     (case psv_pending svc peer of
        None \<Rightarrow> (svc, [])
      | Some pending \<Rightarrow>
          (svc\<lparr>psv_pending := (psv_pending svc)(peer := None)\<rparr>,
           [Respond (pend_response pending) (Inl (NetworkError ''substream failed''))]))"

text \<open>The inputs of the actor loop, in the order it takes them.\<close>

datatype ps_input =
    Command clock_readings "string option" pseudosettle_command
  | Event clock_readings "string option" pseudosettle_event

fun ps_step :: "pseudosettle_service \<Rightarrow> ps_input \<Rightarrow> pseudosettle_service \<times> ps_effect list" where
  "ps_step svc (Command clk chan cmd) = handle_command svc clk chan cmd"
| "ps_step svc (Event clk chan ev) = handle_event svc clk chan ev"

fun ps_run :: "pseudosettle_service \<Rightarrow> ps_input list \<Rightarrow> pseudosettle_service \<times> ps_effect list" where
  "ps_run svc [] = (svc, [])"
| "ps_run svc (i # is) =
     (let (svc', out) = ps_step svc i; (svc'', outs) = ps_run svc' is in (svc'', out @ outs))"

text \<open>\<^verbatim>\<open>PseudosettleProvider::settle\<close>: the offer it makes, given whether it has a handle,
  or the result when it makes none.\<close>

definition provider_offer :: "bool \<Rightarrow> au \<Rightarrow> au option" where
  "provider_offer has_handle bal =
     (if has_handle \<and> au_is_negative bal then Some (au_unsigned_abs bal) else None)"

section \<open>Lemmas\<close>

lemma effective_ack_time_bounds:
  "now - clock_skew_window_secs \<le> effective_ack_time now t \<and> effective_ack_time now t \<le> now"
  by (simp add: effective_ack_time_def)

lemma for_peer_handle_balance:
  assumes "acc_wf acc" and "for_peer acc peer = (h, acc')"
  shows "handle_balance h acc' = ledger_balance acc peer" and "acc_wf acc'"
    and "record_usage h a d acc' = record_peer acc peer a d"
proof -
  obtain r acc1 where goc: "get_or_create_peer acc peer = (r, acc1)" by fastforce
  note wf = get_or_create_peer_wf [OF assms(1) goc]
  show "handle_balance h acc' = ledger_balance acc peer" and "acc_wf acc'"
    using assms(2) goc wf(1,2) wf(4) [of peer, symmetric]
    by (auto simp: for_peer_def handle_balance_def ledger_balance_def)
  show "record_usage h a d acc' = record_peer acc peer a d"
    using assms(2) by (simp add: record_peer_def)
qed

text \<open>What a positive acceptance is bounded by.\<close>

definition elapsed_since :: "pseudosettle_service \<Rightarrow> overlay_address \<Rightarrow> nat \<Rightarrow> nat" where
  "elapsed_since svc peer now = now -
     (case psv_last_settlement svc peer of
        Some t \<Rightarrow> t | None \<Rightarrow> (case psv_first_seen svc peer of Some t \<Rightarrow> t | None \<Rightarrow> now))"

lemma calculate_acceptable_bounds:
  assumes "is_i64 bal" and "0 \<le> requested" and "0 \<le> psv_refresh_rate svc" and "int now \<le> i64_max"
    and a_def: "a = calculate_acceptable svc now peer bal requested"
  shows "0 \<le> a \<and> a \<le> requested \<and> a \<le> max 0 bal \<and>
    a \<le> psv_refresh_rate svc * int (elapsed_since svc peer now)"
proof (cases "0 < bal")
  case False
  then show ?thesis using assms
    by (simp add: a_def calculate_acceptable_def au_is_positive_def au_zero_def)
next
  case True
  let ?e = "elapsed_since svc peer now" and ?r = "psv_refresh_rate svc"
  define v where "v = (case au_checked_scale ?r ?e of Some v \<Rightarrow> v | None \<Rightarrow> au_from_amount u64_max)"
  have a: "a = min (min requested bal) v"
    using True unfolding a_def v_def calculate_acceptable_def elapsed_since_def
    by (simp add: au_is_positive_def au_min_def Let_def)
  have "int ?e \<le> i64_max" using assms(4) by (simp add: elapsed_since_def)
  then have "0 \<le> v \<and> (v = ?r * int ?e \<or> i64_max < ?r * int ?e)"
    using assms(3) by (auto simp: v_def au_checked_scale_nonneg)
  moreover have "bal \<le> i64_max" using assms(1) by (simp add: is_i64_def)
  ultimately show ?thesis using a assms(2) True by linarith
qed

lemma au_saturating_from_u256_nonneg [simp]: "0 \<le> au_saturating_from_u256 n"
  by (simp add: au_saturating_from_u256_def)

text \<open>The two outcomes of an inbound request that passes the rate gate.\<close>

definition accepted_amount ::
  "pseudosettle_service \<Rightarrow> clock_readings \<Rightarrow> overlay_address \<Rightarrow> nat \<Rightarrow> au" where
  "accepted_amount svc clk peer amount =
     calculate_acceptable
       (svc\<lparr>psv_first_seen := (psv_first_seen svc)
          (peer \<mapsto> (case psv_first_seen svc peer of Some t \<Rightarrow> t | None \<Rightarrow> clk_entry clk))\<rparr>)
       (clk_allowance clk) peer (ledger_balance (psv_accounting svc) peer)
       (au_saturating_from_u256 amount)"

definition rate_gated :: "pseudosettle_service \<Rightarrow> clock_readings \<Rightarrow> overlay_address \<Rightarrow> bool" where
  "rate_gated svc clk peer \<longleftrightarrow>
     (case psv_last_settlement svc peer of Some t \<Rightarrow> clk_entry clk \<le> t | None \<Rightarrow> False)"

lemma handle_received:
  assumes "acc_wf (psv_accounting svc)" and "\<not> rate_gated svc clk peer"
    and a: "a = accepted_amount svc clk peer amount"
  shows "handle_event svc clk chan (Received peer amount rid) =
    (svc\<lparr>psv_first_seen := (psv_first_seen svc)
           (peer \<mapsto> (case psv_first_seen svc peer of Some t \<Rightarrow> t | None \<Rightarrow> clk_entry clk)),
         psv_accounting := (if 0 < a then record_peer (psv_accounting svc) peer a Download
                            else snd (for_peer (psv_accounting svc) peer)),
         psv_last_settlement := (if 0 < a then (psv_last_settlement svc)(peer \<mapsto> clk_entry clk)
                                 else psv_last_settlement svc)\<rparr>,
     (if 0 < a then [Record peer a Download] else []) @
     (if chan = None then [AckPseudosettle peer rid
        \<lparr>ack_accepted = a, ack_time = ack_timestamp (clk_ack clk)\<rparr>] else []))"
proof -
  obtain h acc1 where h: "for_peer (psv_accounting svc) peer = (h, acc1)" by fastforce
  note f = for_peer_handle_balance [OF assms(1) h]
  show ?thesis
    using assms(2)
    by (simp add: rate_gated_def a accepted_amount_def record_peer_def h f(1) Let_def au_is_positive_def)
qed

lemma handle_received_gated:
  "rate_gated svc clk peer \<Longrightarrow> handle_event svc clk chan (Received peer amount rid) =
     (svc, if chan = None then [AckPseudosettle peer rid
        \<lparr>ack_accepted = au_zero, ack_time = ack_timestamp (clk_ack clk)\<rparr>] else [])"
  by (simp add: rate_gated_def)

declare handle_event.simps(2) [simp del]

lemma for_peer_ledger:
  assumes "acc_wf acc"
  shows "ledger_balance (snd (for_peer acc p)) q = ledger_balance acc q" and "acc_wf (snd (for_peer acc p))"
  using get_or_create_peer_wf [OF assms]
  by (auto simp: for_peer_def split: prod.splits)

lemma elapsed_since_first_seen:
  "elapsed_since (svc\<lparr>psv_first_seen := (psv_first_seen svc)
      (peer \<mapsto> (case psv_first_seen svc peer of Some t \<Rightarrow> t | None \<Rightarrow> t0))\<rparr>) peer now =
   now - (case psv_last_settlement svc peer of Some t \<Rightarrow> t
          | None \<Rightarrow> (case psv_first_seen svc peer of Some t \<Rightarrow> t | None \<Rightarrow> t0))"
  by (cases "psv_last_settlement svc peer") (simp_all add: elapsed_since_def)

lemma accepted_amount_bounds:
  assumes "acc_wf (psv_accounting svc)" and "0 \<le> psv_refresh_rate svc"
    and "int (clk_allowance clk) \<le> i64_max"
  shows "0 \<le> accepted_amount svc clk peer amount"
    and "accepted_amount svc clk peer amount \<le> int amount"
    and "accepted_amount svc clk peer amount \<le> max 0 (ledger_balance (psv_accounting svc) peer)"
    and "accepted_amount svc clk peer amount \<le> psv_refresh_rate svc * int (clk_allowance clk -
      (case psv_last_settlement svc peer of Some t \<Rightarrow> t
       | None \<Rightarrow> (case psv_first_seen svc peer of Some t \<Rightarrow> t | None \<Rightarrow> clk_entry clk)))"
proof -
  have "au_saturating_from_u256 amount \<le> int amount"
    by (simp add: au_saturating_from_u256_def au_from_amount_def)
  with calculate_acceptable_bounds [OF ledger_balance_range [OF assms(1), of peer]
      au_saturating_from_u256_nonneg [of amount], of
      "svc\<lparr>psv_first_seen := (psv_first_seen svc)
          (peer \<mapsto> (case psv_first_seen svc peer of Some t \<Rightarrow> t | None \<Rightarrow> clk_entry clk))\<rparr>"
      "clk_allowance clk" "accepted_amount svc clk peer amount" peer] assms(2,3)
  show "0 \<le> accepted_amount svc clk peer amount"
    and "accepted_amount svc clk peer amount \<le> int amount"
    and "accepted_amount svc clk peer amount \<le> max 0 (ledger_balance (psv_accounting svc) peer)"
    and "accepted_amount svc clk peer amount \<le> psv_refresh_rate svc * int (clk_allowance clk -
      (case psv_last_settlement svc peer of Some t \<Rightarrow> t
       | None \<Rightarrow> (case psv_first_seen svc peer of Some t \<Rightarrow> t | None \<Rightarrow> clk_entry clk)))"
    by (auto simp: accepted_amount_def elapsed_since_first_seen)
qed

section \<open>Runs\<close>

fun input_clock :: "ps_input \<Rightarrow> clock_readings" where
  "input_clock (Command clk chan cmd) = clk"
| "input_clock (Event clk chan ev) = clk"

text \<open>Time does not run backwards between handlers, and within a handler the entry and
  the allowance sample fall in the same second.\<close>

fun clock_steady :: "nat \<Rightarrow> ps_input list \<Rightarrow> bool" where
  "clock_steady t [] \<longleftrightarrow> True"
| "clock_steady t (i # is) \<longleftrightarrow>
     (let clk = input_clock i
      in t \<le> clk_entry clk \<and> clk_allowance clk = clk_entry clk \<and> int (clk_entry clk) \<le> i64_max \<and>
         clock_steady (clk_entry clk) is)"

fun download_of :: "overlay_address \<Rightarrow> ps_effect \<Rightarrow> int" where
  "download_of p (Record q a Download) = (if q = p then a else 0)"
| "download_of p _ = 0"

definition downloaded :: "overlay_address \<Rightarrow> ps_effect list \<Rightarrow> int" where
  "downloaded p out = sum_list (map (download_of p) out)"

lemma downloaded_simps [simp]:
  "downloaded p [] = 0" "downloaded p (e # es) = download_of p e + downloaded p es"
  "downloaded p (es @ fs) = downloaded p es + downloaded p fs"
  by (simp_all add: downloaded_def)

definition allowance_inv :: "overlay_address \<Rightarrow> nat \<Rightarrow> int \<Rightarrow> pseudosettle_service \<Rightarrow> bool" where
  "allowance_inv p t tot svc \<longleftrightarrow> acc_wf (psv_accounting svc) \<and> 0 \<le> psv_refresh_rate svc \<and>
     (case psv_last_settlement svc p of
        None \<Rightarrow> tot = 0 \<and> (\<forall>f. psv_first_seen svc p = Some f \<longrightarrow> f \<le> t)
      | Some l \<Rightarrow> (\<exists>f. psv_first_seen svc p = Some f \<and> f \<le> l \<and> l \<le> t \<and>
          tot \<le> psv_refresh_rate svc * int (l - f)))"

lemma allowance_inv_later: "allowance_inv p t tot svc \<Longrightarrow> t \<le> u \<Longrightarrow> allowance_inv p u tot svc"
  by (auto simp: allowance_inv_def split: option.splits)

lemma handle_command_frame:
  assumes "handle_command svc clk chan cmd = (svc', out)"
  shows "psv_accounting svc' = psv_accounting svc" "psv_refresh_rate svc' = psv_refresh_rate svc"
    "psv_last_settlement svc' = psv_last_settlement svc" "psv_first_seen svc' = psv_first_seen svc"
    "downloaded p out = 0"
  using assms by (cases cmd; auto simp: Let_def split: if_splits option.splits)+

lemma report_violation_downloaded [simp]: "downloaded p (report_violation svc q) = 0"
  by (simp add: report_violation_def)

lemma allowance_inv_received:
  assumes inv: "allowance_inv p t tot svc" and "t \<le> clk_entry clk"
    and "clk_allowance clk = clk_entry clk" and "int (clk_entry clk) \<le> i64_max"
    and step: "handle_event svc clk chan (Received peer amount rid) = (svc', out)"
  shows "allowance_inv p (clk_entry clk) (tot + downloaded p out) svc'"
proof (cases "rate_gated svc clk peer")
  case True
  then have "svc' = svc" and "downloaded p out = 0"
    using step by (auto simp: handle_received_gated)
  then show ?thesis using allowance_inv_later [OF inv assms(2)] by simp
next
  case False
  define a where "a = accepted_amount svc clk peer amount"
  have wf: "acc_wf (psv_accounting svc)" and rate: "0 \<le> psv_refresh_rate svc"
    using inv by (auto simp: allowance_inv_def)
  note b = accepted_amount_bounds [OF wf rate, of clk peer amount, folded a_def]
  note eq = handle_received [OF wf False a_def, of chan rid, unfolded step]
  show ?thesis
  proof (cases "peer = p \<and> 0 < a")
    case False
    then show ?thesis
      using eq allowance_inv_later [OF inv assms(2)] assms(2) wf for_peer_ledger(2) [OF wf]
        record_peer_wf [OF wf]
      by (auto simp: allowance_inv_def split: option.splits)
  next
    case True
    then show ?thesis
    proof (cases "psv_last_settlement svc p")
      case None
      with True eq b(4) assms(2,3,4) inv record_peer_wf [OF wf] show ?thesis
        by (auto simp: allowance_inv_def split: option.splits)
    next
      case (Some l)
      then obtain f where f: "psv_first_seen svc p = Some f" "f \<le> l" "l \<le> t"
        "tot \<le> psv_refresh_rate svc * int (l - f)" using inv by (auto simp: allowance_inv_def)
      have "a \<le> psv_refresh_rate svc * int (clk_entry clk - l)" using b(4) Some True assms(3,4) by simp
      with f assms(2) have "tot + a \<le> psv_refresh_rate svc * int (clk_entry clk - f)"
        by (simp add: of_nat_diff algebra_simps)
      with True eq Some f assms(2) rate record_peer_wf [OF wf] show ?thesis
        by (auto simp: allowance_inv_def)
    qed
  qed
qed

lemma allowance_inv_step:
  assumes inv: "allowance_inv p t tot svc" and "clock_steady t [i]" and "ps_step svc i = (svc', out)"
  shows "allowance_inv p (clk_entry (input_clock i)) (tot + downloaded p out) svc'"
proof (cases i)
  case (Command clk chan cmd)
  with assms(3) have c: "handle_command svc clk chan cmd = (svc', out)" by simp
  have "allowance_inv p (clk_entry clk) tot svc"
    using allowance_inv_later [OF inv] assms(2) Command by (simp add: Let_def)
  then show ?thesis using Command handle_command_frame [OF c]
    by (simp add: allowance_inv_def cong: option.case_cong)
next
  case (Event clk chan ev)
  show ?thesis
  proof (cases ev)
    case (Received peer amount rid)
    with Event assms show ?thesis
      using allowance_inv_received [OF inv, of clk chan peer amount rid svc' out]
      by (simp add: Let_def)
  qed (use Event assms allowance_inv_later [OF inv] record_peer_wf in
      \<open>auto simp: Let_def allowance_inv_def split: option.splits if_splits\<close>)
qed

lemma allowance_inv_run:
  "allowance_inv p t tot svc \<Longrightarrow> clock_steady t is \<Longrightarrow> ps_run svc is = (svc', out) \<Longrightarrow>
     \<exists>u. allowance_inv p u (tot + downloaded p out) svc'"
proof (induction "is" arbitrary: svc t tot out)
  case (Cons i "is")
  obtain svc1 out1 where s1: "ps_step svc i = (svc1, out1)" by fastforce
  obtain out2 where s2: "ps_run svc1 is = (svc', out2)" and out: "out = out1 @ out2"
    using Cons.prems(3) s1 by (auto split: prod.splits)
  have "allowance_inv p (clk_entry (input_clock i)) (tot + downloaded p out1) svc1"
    using allowance_inv_step [OF Cons.prems(1) _ s1] Cons.prems(2) by (simp add: Let_def)
  from Cons.IH [OF this _ s2] Cons.prems(2) show ?case by (simp add: out Let_def add.assoc)
qed auto

lemma ps_step_rate: "ps_step svc i = (svc', out) \<Longrightarrow> psv_refresh_rate svc' = psv_refresh_rate svc"
proof (cases i)
  case (Event clk chan ev)
  assume "ps_step svc i = (svc', out)"
  with Event show ?thesis
    by (cases ev)
      (auto simp: handle_event.simps(2) Let_def split: option.splits prod.splits if_splits)
qed (auto dest: handle_command_frame(2))

lemma ps_run_rate: "ps_run svc is = (svc', out) \<Longrightarrow> psv_refresh_rate svc' = psv_refresh_rate svc"
  by (induction "is" arbitrary: svc out) (auto dest: ps_step_rate split: prod.splits)

text \<open>How often a request is asked, answered and waiting.\<close>

fun asked :: "nat \<Rightarrow> ps_input list \<Rightarrow> nat" where
  "asked n [] = 0"
| "asked n (Command clk chan (Settle peer amount response) # is) =
     (if response = n then 1 else 0) + asked n is"
| "asked n (Event clk chan ev # is) = asked n is"

fun answers :: "nat \<Rightarrow> ps_effect \<Rightarrow> bool" where
  "answers n (Respond m r) \<longleftrightarrow> m = n"
| "answers n _ \<longleftrightarrow> False"

definition answered :: "nat \<Rightarrow> ps_effect list \<Rightarrow> nat" where
  "answered n out = length (filter (answers n) out)"

definition waiting_peers :: "nat \<Rightarrow> pseudosettle_service \<Rightarrow> overlay_address set" where
  "waiting_peers n svc = {p. \<exists>x. psv_pending svc p = Some x \<and> pend_response x = n}"

lemma waiting_finite [simp]: "finite (waiting_peers n svc)"
  by (rule finite_subset [of _ UNIV]) auto

lemma waiting_insert:
  assumes "psv_pending svc p = None"
  shows "card (waiting_peers n (svc\<lparr>psv_pending := (psv_pending svc)(p \<mapsto> x)\<rparr>)) =
    (if pend_response x = n then 1 else 0) + card (waiting_peers n svc)"
proof -
  have "waiting_peers n (svc\<lparr>psv_pending := (psv_pending svc)(p \<mapsto> x)\<rparr>) =
      (if pend_response x = n then insert p (waiting_peers n svc) else waiting_peers n svc)"
    and "p \<notin> waiting_peers n svc"
    using assms by (auto simp: waiting_peers_def)
  then show ?thesis by simp
qed

lemma waiting_remove:
  assumes "psv_pending svc p = Some x" and "psv_pending svc' = (psv_pending svc)(p := None)"
  shows "card (waiting_peers n svc) = (if pend_response x = n then 1 else 0) + card (waiting_peers n svc')"
proof -
  have "waiting_peers n svc =
      (if pend_response x = n then insert p (waiting_peers n svc') else waiting_peers n svc')"
    and "p \<notin> waiting_peers n svc'"
    using assms by (auto simp: waiting_peers_def split: if_splits)
  then show ?thesis by simp
qed

lemma answered_simps [simp]:
  "answered n [] = 0" "answered n (e # es) = (if answers n e then 1 else 0) + answered n es"
  "answered n (es @ fs) = answered n es + answered n fs"
  by (simp_all add: answered_def)

lemma received_responses:
  assumes "handle_event svc clk chan (Received peer amount rid) = (svc', out)"
  shows "psv_pending svc' = psv_pending svc" and "answered n out = 0"
  using assms by (auto simp: handle_event.simps(2) Let_def split: prod.splits if_splits)

lemma released_responses:
  assumes "handle_event svc clk chan ev = (svc', out)" and "ev = Sent peer ack \<or> ev = Failed peer"
  shows "answered n out + card (waiting_peers n svc') = card (waiting_peers n svc)"
proof (cases "psv_pending svc peer")
  case None
  then show ?thesis using assms by auto
next
  case (Some x)
  then have "psv_pending svc' = (psv_pending svc)(peer := None)"
    and "answered n out = (if pend_response x = n then 1 else 0)"
    using assms by (auto simp: Let_def report_violation_def split: if_splits)
  then show ?thesis using waiting_remove [OF Some, of svc' n] by simp
qed

lemma ps_step_responses:
  assumes "ps_step svc i = (svc', out)"
  shows "answered n out + card (waiting_peers n svc') = asked n [i] + card (waiting_peers n svc)"
proof (cases i)
  case (Command clk chan cmd)
  obtain peer amount m where cmd: "cmd = Settle peer amount m" by (cases cmd)
  show ?thesis using assms Command cmd
    by (auto simp: Let_def waiting_insert fun_upd_idem split: if_splits option.splits)
next
  case (Event clk chan ev)
  show ?thesis
  proof (cases ev)
    case (Received peer amount rid)
    with Event assms have "handle_event svc clk chan (Received peer amount rid) = (svc', out)" by simp
    from received_responses [OF this] Event show ?thesis by (simp add: waiting_peers_def)
  qed (use Event assms released_responses [of svc clk chan ev svc' out _ _ n] in auto)
qed

section \<open>A sample service\<close>

text \<open>A peer that owes 1000, a refresh rate of 10 per second, and requests for 500.\<close>

definition sample_ledger :: accounting where
  "sample_ledger = record_peer (accounting_new bandwidth_config_default) 7 1000 Upload"

definition sample_service :: pseudosettle_service where
  "sample_service = pseudosettle_service_new sample_ledger 10"

definition readings :: "nat \<Rightarrow> nat \<Rightarrow> clock_readings" where
  "readings t u = \<lparr>clk_entry = t, clk_allowance = u, clk_ack = u\<rparr>"

definition request :: "nat \<Rightarrow> nat \<Rightarrow> ps_input" where
  "request t u = Event (readings t u) None (Received 7 500 1)"

lemma ledger_balance_new: "ledger_balance (accounting_new c) p = 0"
  by (simp add: ledger_balance_def accounting_new_def au_zero_def)

lemma sample_ledger_wf [simp]: "acc_wf sample_ledger"
  by (simp add: sample_ledger_def record_peer_wf)

lemma sample_ledger_balance [simp]: "ledger_balance sample_ledger 7 = 1000"
  by (simp add: sample_ledger_def record_peer_balance ledger_balance_new i64_clamp_def)

text \<open>One inbound request on a ledger, by what it grants.\<close>

lemma request_step:
  assumes "acc_wf (psv_accounting svc)" and "\<not> rate_gated svc (readings t u) 7"
    and "accepted_amount svc (readings t u) 7 500 = a"
  shows "\<exists>svc' out. ps_step svc (request t u) = (svc', out) \<and> acc_wf (psv_accounting svc') \<and>
    ledger_balance (psv_accounting svc') 7 = (if 0 < a
      then ledger_balance (record_peer (psv_accounting svc) 7 a Download) 7
      else ledger_balance (psv_accounting svc) 7) \<and>
    psv_last_settlement svc' 7 = (if 0 < a then Some t else psv_last_settlement svc 7) \<and>
    psv_first_seen svc' 7 = Some (case psv_first_seen svc 7 of Some f \<Rightarrow> f | None \<Rightarrow> t) \<and>
    psv_refresh_rate svc' = psv_refresh_rate svc \<and> downloaded 7 out = (if 0 < a then a else 0)"
  unfolding request_def ps_step.simps
    handle_received [OF assms(1,2) assms(3) [symmetric]]
  using assms(1)
  by (simp add: for_peer_ledger record_peer_wf readings_def cong: option.case_cong)

lemmas accept_simps = accepted_amount_def calculate_acceptable_def au_is_positive_def au_min_def
  au_checked_scale_def au_saturating_from_u256_def au_from_amount_def is_i64_def readings_def
  Let_def

section \<open>Properties\<close>

text \<open>An ack credits at most what we offered: the balance moves by the smaller of
  the accepted and the offered amount, an over-acceptance is reported, the request is
  answered and released, and the reference that paces the next offer neither moves
  back nor passes our clock or what it already was.\<close>

lemma ack_credits_at_most_offer:
  assumes "acc_wf (psv_accounting svc)" and "psv_pending svc peer = Some pending"
    and "handle_event svc clk chan (Sent peer ack) = (svc', out)"
  shows "ledger_balance (psv_accounting svc') peer = i64_clamp
      (ledger_balance (psv_accounting svc) peer + min (ack_accepted ack) (pend_amount pending)) \<and>
    psv_pending svc' peer = None \<and>
    Respond (pend_response pending) (Inr (min (ack_accepted ack) (pend_amount pending))) \<in> set out \<and>
    (ReportViolation peer \<in> set out \<longleftrightarrow> psv_reporter svc \<and> pend_amount pending < ack_accepted ack) \<and>
    (\<exists>t. psv_last_settle_ack svc' peer = Some t \<and> clk_entry clk - 60 \<le> t \<and>
       (case psv_last_settle_ack svc peer of
          None \<Rightarrow> t \<le> clk_entry clk | Some prev \<Rightarrow> prev \<le> t \<and> t \<le> max prev (clk_entry clk)))"
  using assms effective_ack_time_bounds [of "clk_entry clk" "ack_time ack"]
  by (auto simp: Let_def au_min_def record_peer_balance report_violation_def clock_skew_window_secs_def
      split: option.splits if_splits)

text \<open>An inbound settlement is capped: what we accept is at most the request, at
  most what the peer owes, and at most the refresh rate times the time since the last
  one (or since we first saw the peer), and it never turns the peer's debt into ours.\<close>

lemma inbound_settlement_capped:
  assumes "acc_wf (psv_accounting svc)" and "0 \<le> psv_refresh_rate svc"
    and "int (clk_allowance clk) \<le> i64_max"
    and "handle_event svc clk chan (Received peer amount rid) = (svc', out)"
    and "Record peer a Download \<in> set out"
  shows "0 < a \<and> a \<le> int amount \<and> a \<le> ledger_balance (psv_accounting svc) peer \<and>
    ledger_balance (psv_accounting svc') peer = ledger_balance (psv_accounting svc) peer - a \<and>
    0 \<le> ledger_balance (psv_accounting svc') peer \<and>
    a \<le> psv_refresh_rate svc * int (clk_allowance clk -
      (case psv_last_settlement svc peer of Some t \<Rightarrow> t
       | None \<Rightarrow> (case psv_first_seen svc peer of Some t \<Rightarrow> t | None \<Rightarrow> clk_entry clk)))"
proof -
  have open_gate: "\<not> rate_gated svc clk peer"
    using assms(4,5) by (auto simp: handle_received_gated split: if_splits)
  note eq = handle_received [OF assms(1) open_gate refl, of chan amount rid, unfolded assms(4)]
  note b = accepted_amount_bounds [OF assms(1,2,3), of peer amount]
  have a: "a = accepted_amount svc clk peer amount" "0 < a"
    using eq assms(5) by (auto split: if_splits)
  then have le: "a \<le> ledger_balance (psv_accounting svc) peer" using b(3) by linarith
  have "psv_accounting svc' = record_peer (psv_accounting svc) peer a Download" using eq a by simp
  then have "ledger_balance (psv_accounting svc') peer = ledger_balance (psv_accounting svc) peer - a \<and>
      0 \<le> ledger_balance (psv_accounting svc') peer"
    using acc_ledger.download_towards_zero [OF assms(1) _ le] a(2) by simp
  with a(2) le b(2,4) show ?thesis unfolding a(1) [symmetric] by blast
qed

text \<open>C5. Over any run of the service in which time does not go back and no handler
  straddles a second, everything a peer has been credited is at most the refresh rate
  times the time from when it was first seen to its last credit.\<close>

theorem total_credit_within_allowance:
  assumes "acc_wf acc" and "0 \<le> rate" and "clock_steady 0 is"
    and "ps_run (pseudosettle_service_new acc rate) is = (svc', out)"
  shows "case psv_last_settlement svc' p of
      None \<Rightarrow> downloaded p out = 0
    | Some l \<Rightarrow> (\<exists>f. psv_first_seen svc' p = Some f \<and> f \<le> l \<and>
        downloaded p out \<le> rate * int (l - f))"
proof -
  have rate: "psv_refresh_rate svc' = rate"
    using ps_run_rate [OF assms(4)] by (simp add: pseudosettle_service_new_def)
  have "allowance_inv p 0 0 (pseudosettle_service_new acc rate)"
    using assms by (simp add: allowance_inv_def pseudosettle_service_new_def)
  from allowance_inv_run [OF this assms(3,4)]
  obtain u where "allowance_inv p u (downloaded p out) svc'" by auto
  then show ?thesis using rate by (auto simp: allowance_inv_def split: option.splits)
qed

theorem total_credit_within_allowance_witness:
  "\<exists>svc out. ps_run sample_service [request 10 10, request 15 15] = (svc, out) \<and>
     psv_last_settlement svc 7 = Some 15 \<and> downloaded 7 out = 50 \<and> downloaded 7 out \<le> 10 * (15 - 10)"
proof -
  let ?is = "[request 10 10, request 15 15]"
  have "\<not> rate_gated sample_service (readings 10 10) 7" and "acc_wf (psv_accounting sample_service)"
    and "accepted_amount sample_service (readings 10 10) 7 500 = 0"
    by (simp_all add: rate_gated_def sample_service_def pseudosettle_service_new_def accept_simps)
  from request_step [OF this(2,1,3)] obtain s1 o1 where
    s1: "ps_step sample_service (request 10 10) = (s1, o1)" "acc_wf (psv_accounting s1)"
      "ledger_balance (psv_accounting s1) 7 = 1000" "psv_last_settlement s1 7 = None"
      "psv_first_seen s1 7 = Some 10" "psv_refresh_rate s1 = 10" "downloaded 7 o1 = 0"
    by (auto simp: sample_service_def pseudosettle_service_new_def)
  have "\<not> rate_gated s1 (readings 15 15) 7" and "accepted_amount s1 (readings 15 15) 7 500 = 50"
    using s1 by (simp_all add: rate_gated_def accept_simps)
  from request_step [OF s1(2) this] obtain s2 o2 where
    s2: "ps_step s1 (request 15 15) = (s2, o2)" "downloaded 7 o2 = 50"
      "psv_last_settlement s2 7 = Some 15" "psv_first_seen s2 7 = Some 10"
    using s1 by auto
  with s1 have run: "ps_run sample_service ?is = (s2, o1 @ o2)" by simp
  have "clock_steady 0 ?is" by (simp add: request_def readings_def Let_def)
  from total_credit_within_allowance [OF sample_ledger_wf _ this run [unfolded sample_service_def], of 7]
  show ?thesis using run s1(7) s2 by simp
qed

text \<open>C21. No settlement request is lost or answered twice: over any run from a fresh
  service, every request has been answered as often as it was asked, less the peers it
  is still waiting on.\<close>

theorem every_request_answered_once:
  assumes "ps_run (pseudosettle_service_new acc rate) is = (svc', out)"
  shows "answered n out + card (waiting_peers n svc') = asked n is"
proof -
  have run: "ps_run svc is = (svc', out) \<Longrightarrow>
      answered n out + card (waiting_peers n svc') = asked n is + card (waiting_peers n svc)" for svc
  proof (induction "is" arbitrary: svc out)
    case (Cons i "is")
    obtain svc1 out1 where s1: "ps_step svc i = (svc1, out1)" by fastforce
    obtain out2 where s2: "ps_run svc1 is = (svc', out2)" and out: "out = out1 @ out2"
      using Cons.prems s1 by (auto split: prod.splits)
    have "asked n (i # is) = asked n [i] + asked n is"
      by (cases "(n, [i])" rule: asked.cases) auto
    then show ?case using Cons.IH [OF s2] ps_step_responses [OF s1, of n] by (simp add: out)
  qed simp
  show ?thesis using run [OF assms] by (simp add: waiting_peers_def pseudosettle_service_new_def)
qed

theorem every_request_answered_once_witness:
  "answered 3 (snd (ps_run (pseudosettle_service_new sample_ledger 10)
     [Command (readings 5 5) None (Settle 7 40 3), Event (readings 6 6) None (Failed 7)])) = 1"
proof -
  let ?is = "[Command (readings 5 5) None (Settle 7 40 3), Event (readings 6 6) None (Failed 7)]"
  let ?run = "ps_run (pseudosettle_service_new sample_ledger 10) ?is"
  have "waiting_peers 3 (fst ?run) = {}"
    by (auto simp: waiting_peers_def pseudosettle_service_new_def)
  then show ?thesis
    using every_request_answered_once [of sample_ledger 10 ?is, OF prod.collapse [symmetric], of 3]
    by (simp del: ps_run.simps)
qed

text \<open>The restriction on straddling handlers is needed: the service measures the
  allowance to a second clock sample but stores the first as the new reference, so a
  handler that crosses a second boundary grants that second again to the next request.
  Here two requests whose samples all lie within two seconds are granted three
  seconds' worth.\<close>

lemma straddling_handlers_exceed_allowance:
  "downloaded 7 (snd (ps_run sample_service [request 10 11, request 11 12])) = 30 \<and>
   psv_refresh_rate sample_service * (12 - 10) = 20"
proof -
  have "\<not> rate_gated sample_service (readings 10 11) 7" and "acc_wf (psv_accounting sample_service)"
    and "accepted_amount sample_service (readings 10 11) 7 500 = 10"
    by (simp_all add: rate_gated_def sample_service_def pseudosettle_service_new_def accept_simps)
  from request_step [OF this(2,1,3)] obtain s1 o1 where
    s1: "ps_step sample_service (request 10 11) = (s1, o1)" "acc_wf (psv_accounting s1)"
      "ledger_balance (psv_accounting s1) 7 = 990" "psv_last_settlement s1 7 = Some 10"
      "psv_refresh_rate s1 = 10" "downloaded 7 o1 = 10"
    by (auto simp: sample_service_def pseudosettle_service_new_def record_peer_balance
        au_saturating_neg_def i64_clamp_def)
  have "\<not> rate_gated s1 (readings 11 12) 7" and "accepted_amount s1 (readings 11 12) 7 500 = 20"
    using s1 by (simp_all add: rate_gated_def accept_simps)
  from request_step [OF s1(2) this] obtain s2 o2 where
    "ps_step s1 (request 11 12) = (s2, o2)" "downloaded 7 o2 = 20" by auto
  with s1 show ?thesis by (simp add: sample_service_def pseudosettle_service_new_def)
qed

end
