(* ===== verification/Swap.thy ===== *)
theory Swap
  imports Peer_Ledger
begin

text \<open>
  Cheque settlement, \<^verbatim>\<open>crates/swarm/accounting/swap/src\<close>: the service actor
  (service.rs), its errors (error.rs) and the settlement provider (lib.rs), with the
  signature check of \<^verbatim>\<open>crates/swarm/accounting/chequebook/src/cheque.rs\<close>.

  Hashing, signing, and signature parsing and recovery are library code: they are the
  fields of a record \<open>crypto\<close> the handlers take. A \<^verbatim>\<open>U256\<close> is a natural number; its
  \<^verbatim>\<open>+\<close> and \<^verbatim>\<open>-\<close> wrap, written out. Error values carry the error they wrap in place of its
  display text. On-chain cashing is optional and changes no state of the service.
\<close>

section \<open>Cheques\<close>

record cheque =
  chq_chequebook :: eth_address
  chq_beneficiary :: eth_address
  chq_cumulative_payout :: nat

record signed_cheque =
  sc_cheque :: cheque
  sc_signature :: bytes

record crypto =
  cr_signing_hash :: "cheque \<Rightarrow> b256"
  cr_sign :: "b256 \<Rightarrow> string + bytes"
  cr_parse :: "bytes \<Rightarrow> string + bytes"
  cr_recover :: "bytes \<Rightarrow> b256 \<Rightarrow> string + eth_address"

datatype cheque_error =
    SignatureLength nat
  | InvalidSignature string
  | RecoveryFailed string
  | InvalidSigner eth_address eth_address

definition parse_signature :: "crypto \<Rightarrow> signed_cheque \<Rightarrow> cheque_error + bytes" where
  "parse_signature cr c =
     (if length (sc_signature c) \<noteq> 65 then Inl (SignatureLength (length (sc_signature c)))
      else case cr_parse cr (sc_signature c) of Inl e \<Rightarrow> Inl (InvalidSignature e) | Inr sig \<Rightarrow> Inr sig)"

definition recover_signer :: "crypto \<Rightarrow> signed_cheque \<Rightarrow> cheque_error + eth_address" where
  "recover_signer cr c =
     (case parse_signature cr c of
        Inl e \<Rightarrow> Inl e
      | Inr sig \<Rightarrow> (case cr_recover cr sig (cr_signing_hash cr (sc_cheque c)) of
          Inl e \<Rightarrow> Inl (RecoveryFailed e) | Inr a \<Rightarrow> Inr a))"

definition cheque_verify :: "crypto \<Rightarrow> signed_cheque \<Rightarrow> eth_address \<Rightarrow> cheque_error + unit" where
  "cheque_verify cr c owner =
     (case recover_signer cr c of
        Inl e \<Rightarrow> Inl e
      | Inr signer \<Rightarrow> if signer \<noteq> owner then Inl (InvalidSigner owner signer) else Inr ())"

section \<open>State\<close>

datatype swap_settlement_error =
    SwapServiceStopped
  | SwapSettlementInProgress
  | SwapNetworkError string
  | UnknownBeneficiary
  | UnknownPeerIdentity
  | BeneficiaryMismatch eth_address eth_address
  | SigningFailed string
  | IssuerMismatch eth_address eth_address
  | NonIncreasingPayout nat nat
  | AmountOverflow nat
  | NegativeAmount au
  | ValidationFailed cheque_error
  | ExposureLimit nat nat
  | NoChainBackend

fun swap_error_from_au :: "au_conversion_error \<Rightarrow> swap_settlement_error" where
  "swap_error_from_au (U256TooLarge v) = AmountOverflow v"
| "swap_error_from_au (Negative v) = NegativeAmount v"

record peer_swap_info =
  psi_beneficiary :: eth_address
  psi_issuer :: eth_address

record peer_cheque_state =
  pcs_info :: "peer_swap_info option"
  pcs_last_sent_payout :: nat
  pcs_last_received_payout :: nat
  pcs_received_uncashed :: nat

definition peer_cheque_state_default :: peer_cheque_state where
  "peer_cheque_state_default =
     \<lparr>pcs_info = None, pcs_last_sent_payout = 0, pcs_last_received_payout = 0,
      pcs_received_uncashed = 0\<rparr>"

datatype swap_command =
    SwapSettle overlay_address au nat
  | RegisterPeerInfo overlay_address peer_swap_info

datatype swap_event =
    ChequeSent overlay_address
  | ChequeReceived overlay_address signed_cheque
  | SwapFailed overlay_address

record swap_pending =
  sp_amount :: au
  sp_response :: nat

record swap_service =
  sw_accounting :: accounting
  sw_chequebook :: eth_address
  sw_beneficiary :: eth_address
  sw_peers :: "overlay_address \<rightharpoonup> peer_cheque_state"
  sw_bounce_limit :: nat
  sw_pending :: "overlay_address \<rightharpoonup> swap_pending"
  sw_reporter :: bool

datatype swap_effect =
    SwapRespond nat "swap_settlement_error + au"
  | SendCheque overlay_address signed_cheque
  | SwapRecord overlay_address au direction
  | SwapReportViolation overlay_address

definition default_bounce_limit :: nat where
  "default_bounce_limit = 135000000"

definition swap_service_new :: "accounting \<Rightarrow> eth_address \<Rightarrow> eth_address \<Rightarrow> swap_service" where
  "swap_service_new acc chequebook beneficiary =
     \<lparr>sw_accounting = acc, sw_chequebook = chequebook, sw_beneficiary = beneficiary,
      sw_peers = Map.empty, sw_bounce_limit = default_bounce_limit, sw_pending = Map.empty,
      sw_reporter = False\<rparr>"

definition swap_with_reporter :: "swap_service \<Rightarrow> swap_service" where
  "swap_with_reporter svc = svc\<lparr>sw_reporter := True\<rparr>"

definition with_bounce_limit :: "swap_service \<Rightarrow> nat \<Rightarrow> swap_service" where
  "with_bounce_limit svc limit = svc\<lparr>sw_bounce_limit := limit\<rparr>"

definition swap_report_violation :: "swap_service \<Rightarrow> overlay_address \<Rightarrow> swap_effect list" where
  "swap_report_violation svc peer = (if sw_reporter svc then [SwapReportViolation peer] else [])"

text \<open>\<^verbatim>\<open>peers.entry(peer).or_default()\<close>.\<close>

definition cheque_state :: "swap_service \<Rightarrow> overlay_address \<Rightarrow> peer_cheque_state" where
  "cheque_state svc peer =
     (case sw_peers svc peer of Some s \<Rightarrow> s | None \<Rightarrow> peer_cheque_state_default)"

definition set_cheque_state ::
  "swap_service \<Rightarrow> overlay_address \<Rightarrow> peer_cheque_state \<Rightarrow> swap_service" where
  "set_cheque_state svc peer s = svc\<lparr>sw_peers := (sw_peers svc)(peer \<mapsto> s)\<rparr>"

section \<open>Operations\<close>

definition issue_cheque ::
  "crypto \<Rightarrow> swap_service \<Rightarrow> overlay_address \<Rightarrow> nat
     \<Rightarrow> (swap_settlement_error + signed_cheque) \<times> swap_service" where
  "issue_cheque cr svc peer wire_amount =
     (let s = cheque_state svc peer;
          svc' = set_cheque_state svc peer s
      in case pcs_info s of
           None \<Rightarrow> (Inl UnknownBeneficiary, svc')
         | Some info \<Rightarrow>
             (let next_payout = (pcs_last_sent_payout s + wire_amount) mod u256_modulus;
                  c = \<lparr>chq_chequebook = sw_chequebook svc, chq_beneficiary = psi_beneficiary info,
                       chq_cumulative_payout = next_payout\<rparr>
              in case cr_sign cr (cr_signing_hash cr c) of
                   Inl e \<Rightarrow> (Inl (SigningFailed e), svc')
                 | Inr sig \<Rightarrow>
                     (Inr \<lparr>sc_cheque = c, sc_signature = sig\<rparr>,
                      set_cheque_state svc peer (s\<lparr>pcs_last_sent_payout := next_payout\<rparr>))))"

fun swap_handle_command ::
  "crypto \<Rightarrow> swap_service \<Rightarrow> string option \<Rightarrow> swap_command \<Rightarrow> swap_service \<times> swap_effect list" where
  "swap_handle_command cr svc chan (RegisterPeerInfo peer info) =
     (set_cheque_state svc peer ((cheque_state svc peer)\<lparr>pcs_info := Some info\<rparr>), [])"
| "swap_handle_command cr svc chan (SwapSettle peer amount response) =
     (if sw_pending svc peer \<noteq> None
      then (svc, [SwapRespond response (Inl SwapSettlementInProgress)])
      else case u256_try_from_au amount of
        Inl e \<Rightarrow> (svc, [SwapRespond response (Inl (swap_error_from_au e))])
      | Inr wire_amount \<Rightarrow>
          (case issue_cheque cr svc peer wire_amount of
             (Inl e, svc') \<Rightarrow> (svc', [SwapRespond response (Inl e)])
           | (Inr c, svc') \<Rightarrow>
               (case chan of
                  Some e \<Rightarrow>
                    (set_cheque_state svc' peer ((cheque_state svc' peer)
                       \<lparr>pcs_last_sent_payout :=
                          (pcs_last_sent_payout (cheque_state svc' peer) + u256_modulus - wire_amount)
                            mod u256_modulus\<rparr>),
                     [SwapRespond response (Inl (SwapNetworkError e))])
                | None \<Rightarrow>
                    (svc'\<lparr>sw_pending := (sw_pending svc')
                       (peer \<mapsto> \<lparr>sp_amount = amount, sp_response = response\<rparr>)\<rparr>,
                     [SendCheque peer c]))))"

definition accept_cheque ::
  "crypto \<Rightarrow> swap_service \<Rightarrow> overlay_address \<Rightarrow> signed_cheque
     \<Rightarrow> (swap_settlement_error + au) \<times> swap_service" where
  "accept_cheque cr svc peer c =
     (case Option.bind (sw_peers svc peer) pcs_info of
        None \<Rightarrow> (Inl UnknownPeerIdentity, svc)
      | Some info \<Rightarrow>
          if chq_beneficiary (sc_cheque c) \<noteq> sw_beneficiary svc
          then (Inl (BeneficiaryMismatch (sw_beneficiary svc) (chq_beneficiary (sc_cheque c))), svc)
          else case recover_signer cr c of
            Inl e \<Rightarrow> (Inl (ValidationFailed e), svc)
          | Inr recovered \<Rightarrow>
              if recovered \<noteq> psi_issuer info
              then (Inl (IssuerMismatch (psi_issuer info) recovered), svc)
              else
                (let s = cheque_state svc peer;
                     received = chq_cumulative_payout (sc_cheque c);
                     prev = pcs_last_received_payout s
                 in if received \<le> prev then (Inl (NonIncreasingPayout prev received), svc)
                    else
                      (let headroom = sw_bounce_limit svc - pcs_received_uncashed s
                       in if headroom = 0
                          then (Inl (ExposureLimit (pcs_received_uncashed s) (sw_bounce_limit svc)), svc)
                          else
                            (let increment = min (received - prev) headroom
                             in case au_try_from_u256 increment of
                                  Inl e \<Rightarrow> (Inl (swap_error_from_au e), svc)
                                | Inr amount \<Rightarrow>
                                    (Inr amount, set_cheque_state svc peer
                                       (s\<lparr>pcs_last_received_payout := (prev + increment) mod u256_modulus,
                                          pcs_received_uncashed :=
                                            (pcs_received_uncashed s + increment) mod u256_modulus\<rparr>))))))"

fun swap_handle_event ::
  "crypto \<Rightarrow> swap_service \<Rightarrow> swap_event \<Rightarrow> swap_service \<times> swap_effect list" where
  "swap_handle_event cr svc (ChequeSent peer) =
     (case sw_pending svc peer of
        None \<Rightarrow> (svc, [])
      | Some p \<Rightarrow>
          (svc\<lparr>sw_pending := (sw_pending svc)(peer := None),
               sw_accounting := record_peer (sw_accounting svc) peer (sp_amount p) Upload\<rparr>,
           [SwapRecord peer (sp_amount p) Upload, SwapRespond (sp_response p) (Inr (sp_amount p))]))"
| "swap_handle_event cr svc (ChequeReceived peer c) =
     (case accept_cheque cr svc peer c of
        (Inr amount, svc') \<Rightarrow>
          (svc'\<lparr>sw_accounting := record_peer (sw_accounting svc') peer amount Download\<rparr>,
           [SwapRecord peer amount Download])
      | (Inl e, svc') \<Rightarrow>
          (svc', if e \<noteq> UnknownPeerIdentity then swap_report_violation svc' peer else []))"
| "swap_handle_event cr svc (SwapFailed peer) =
     (case sw_pending svc peer of
        None \<Rightarrow> (svc, [])
      | Some p \<Rightarrow>
          (svc\<lparr>sw_pending := (sw_pending svc)(peer := None)\<rparr>,
           [SwapRespond (sp_response p) (Inl (SwapNetworkError ''substream failed''))]))"

datatype swap_input =
    SwapCommand "string option" swap_command
  | SwapEvent swap_event

fun swap_step :: "crypto \<Rightarrow> swap_service \<Rightarrow> swap_input \<Rightarrow> swap_service \<times> swap_effect list" where
  "swap_step cr svc (SwapCommand chan cmd) = swap_handle_command cr svc chan cmd"
| "swap_step cr svc (SwapEvent ev) = swap_handle_event cr svc ev"

fun swap_run :: "crypto \<Rightarrow> swap_service \<Rightarrow> swap_input list \<Rightarrow> swap_service \<times> swap_effect list" where
  "swap_run cr svc [] = (svc, [])"
| "swap_run cr svc (i # is) =
     (let (svc', out) = swap_step cr svc i; (svc'', outs) = swap_run cr svc' is
      in (svc'', out @ outs))"

text \<open>\<^verbatim>\<open>SwapProvider::settle\<close>: the payment it asks the service for, if any.\<close>

definition swap_provider_offer :: "bandwidth_config \<Rightarrow> bool \<Rightarrow> au \<Rightarrow> au option" where
  "swap_provider_offer c has_handle bal =
     (if \<not> au_is_negative bal then None
      else if au_unsigned_abs bal < early_payment_trigger c then None
      else if has_handle then Some (au_unsigned_abs bal) else None)"

section \<open>Lemmas\<close>

lemma cheque_state_set [simp]:
  "cheque_state (set_cheque_state svc p x) q = (if q = p then x else cheque_state svc q)"
  by (simp add: cheque_state_def set_cheque_state_def)

lemma set_cheque_state_frame [simp]:
  "sw_bounce_limit (set_cheque_state svc p x) = sw_bounce_limit svc"
  "sw_pending (set_cheque_state svc p x) = sw_pending svc"
  "sw_accounting (set_cheque_state svc p x) = sw_accounting svc"
  "sw_reporter (set_cheque_state svc p x) = sw_reporter svc"
  "sw_beneficiary (set_cheque_state svc p x) = sw_beneficiary svc"
  by (simp_all add: set_cheque_state_def)

lemma cheque_state_frame [simp]:
  "cheque_state (svc\<lparr>sw_pending := m\<rparr>) p = cheque_state svc p"
  "cheque_state (svc\<lparr>sw_accounting := a\<rparr>) p = cheque_state svc p"
  by (simp_all add: cheque_state_def)

lemma au_try_from_u256_Inr: "au_try_from_u256 v = Inr a \<longleftrightarrow> a = int v \<and> v \<le> nat i64_max"
  by (auto simp: au_try_from_u256_def)

text \<open>The exposure invariant: what has been credited is what is counted as uncashed, and
  both stay within the limit.\<close>

definition exposure_ok :: "swap_service \<Rightarrow> bool" where
  "exposure_ok svc \<longleftrightarrow> sw_bounce_limit svc < u256_modulus \<and>
     (\<forall>p. pcs_received_uncashed (cheque_state svc p) = pcs_last_received_payout (cheque_state svc p) \<and>
          pcs_last_received_payout (cheque_state svc p) \<le> sw_bounce_limit svc)"

lemma accept_cheque_Inr:
  assumes "accept_cheque cr svc peer c = (Inr amount, svc')" and "exposure_ok svc"
  shows "\<exists>info. Option.bind (sw_peers svc peer) pcs_info = Some info \<and>
      recover_signer cr c = Inr (psi_issuer info)"
    and "chq_beneficiary (sc_cheque c) = sw_beneficiary svc"
    and "pcs_last_received_payout (cheque_state svc peer) < chq_cumulative_payout (sc_cheque c)"
    and "amount = int (min (chq_cumulative_payout (sc_cheque c)
        - pcs_last_received_payout (cheque_state svc peer))
      (sw_bounce_limit svc - pcs_received_uncashed (cheque_state svc peer)))"
    and "0 < amount \<and> amount \<le> i64_max"
    and "svc' = set_cheque_state svc peer ((cheque_state svc peer)
      \<lparr>pcs_last_received_payout := pcs_last_received_payout (cheque_state svc peer) + nat amount,
       pcs_received_uncashed := pcs_received_uncashed (cheque_state svc peer) + nat amount\<rparr>)"
proof -
  let ?s = "cheque_state svc peer" and ?r = "chq_cumulative_payout (sc_cheque c)"
  define i where "i = min (?r - pcs_last_received_payout ?s) (sw_bounce_limit svc - pcs_received_uncashed ?s)"
  obtain info where info: "Option.bind (sw_peers svc peer) pcs_info = Some info"
    using assms(1) by (auto simp: accept_cheque_def split: option.splits)
  have rest: "chq_beneficiary (sc_cheque c) = sw_beneficiary svc"
    "recover_signer cr c = Inr (psi_issuer info)" "pcs_last_received_payout ?s < ?r"
    "sw_bounce_limit svc - pcs_received_uncashed ?s \<noteq> 0" "au_try_from_u256 i = Inr amount"
    "svc' = set_cheque_state svc peer (?s
      \<lparr>pcs_last_received_payout := (pcs_last_received_payout ?s + i) mod u256_modulus,
       pcs_received_uncashed := (pcs_received_uncashed ?s + i) mod u256_modulus\<rparr>)"
    using assms(1) info unfolding accept_cheque_def Let_def i_def [symmetric]
    by (auto split: if_splits sum.splits)
  have exp: "pcs_received_uncashed ?s = pcs_last_received_payout ?s"
    "pcs_last_received_payout ?s \<le> sw_bounce_limit svc" "sw_bounce_limit svc < u256_modulus"
    using assms(2) unfolding exposure_ok_def by blast+
  have "pcs_last_received_payout ?s + i \<le> sw_bounce_limit svc"
    using exp(1,2) by (simp add: i_def)
  from mod_less [OF le_less_trans [OF this exp(3)]]
  have wrap: "(pcs_last_received_payout ?s + i) mod u256_modulus = pcs_last_received_payout ?s + i" .
  have amount: "amount = int i" "i \<le> nat i64_max"
    using rest(5) unfolding au_try_from_u256_Inr by blast+
  have pos: "0 < i" using rest(3,4) by (simp add: i_def)
  show "\<exists>info. Option.bind (sw_peers svc peer) pcs_info = Some info \<and>
      recover_signer cr c = Inr (psi_issuer info)" using info rest(2) by blast
  show "chq_beneficiary (sc_cheque c) = sw_beneficiary svc" by (rule rest(1))
  show "pcs_last_received_payout ?s < ?r" by (rule rest(3))
  show "amount = int (min (?r - pcs_last_received_payout ?s)
      (sw_bounce_limit svc - pcs_received_uncashed ?s))" using amount(1) by (simp only: i_def)
  show "0 < amount \<and> amount \<le> i64_max" using amount pos by simp
  show "svc' = set_cheque_state svc peer (?s
      \<lparr>pcs_last_received_payout := pcs_last_received_payout ?s + nat amount,
       pcs_received_uncashed := pcs_received_uncashed ?s + nat amount\<rparr>)"
    unfolding rest(6) exp(1) wrap amount(1) nat_int ..
qed

lemma accept_cheque_Inl: "accept_cheque cr svc peer c = (Inl e, svc') \<Longrightarrow> svc' = svc"
  by (auto simp: accept_cheque_def Let_def split: option.splits if_splits sum.splits)

fun cheque_credit_of :: "overlay_address \<Rightarrow> swap_effect \<Rightarrow> int" where
  "cheque_credit_of p (SwapRecord q a Download) = (if q = p then a else 0)"
| "cheque_credit_of p _ = 0"

definition cheque_credit :: "overlay_address \<Rightarrow> swap_effect list \<Rightarrow> int" where
  "cheque_credit p out = sum_list (map (cheque_credit_of p) out)"

lemma cheque_credit_simps [simp]:
  "cheque_credit p [] = 0" "cheque_credit p (e # es) = cheque_credit_of p e + cheque_credit p es"
  "cheque_credit p (es @ fs) = cheque_credit p es + cheque_credit p fs"
  by (simp_all add: cheque_credit_def)

text \<open>What a step does to the receiving side of the cheque states.\<close>

definition same_received :: "swap_service \<Rightarrow> swap_service \<Rightarrow> bool" where
  "same_received svc svc' \<longleftrightarrow> sw_bounce_limit svc' = sw_bounce_limit svc \<and>
     (\<forall>p. pcs_last_received_payout (cheque_state svc' p) = pcs_last_received_payout (cheque_state svc p) \<and>
          pcs_received_uncashed (cheque_state svc' p) = pcs_received_uncashed (cheque_state svc p))"

lemma issue_cheque_received: "issue_cheque cr svc p w = (r, svc') \<Longrightarrow> same_received svc svc'"
  by (auto simp: issue_cheque_def same_received_def Let_def split: option.splits sum.splits)

lemma same_received_trans: "same_received a b \<Longrightarrow> same_received b c \<Longrightarrow> same_received a c"
  by (simp add: same_received_def)

lemma swap_command_received:
  assumes "swap_handle_command cr svc chan cmd = (svc', out)"
  shows "same_received svc svc' \<and> cheque_credit p out = 0"
proof (cases cmd)
  case (SwapSettle peer amount response)
  obtain r svc1 where i: "issue_cheque cr svc peer (nat amount) = (r, svc1)" by fastforce
  from issue_cheque_received [OF i] show ?thesis
    using assms SwapSettle i
    by (auto simp: u256_try_from_au_def same_received_def split: if_splits sum.splits option.splits)
next
  case (RegisterPeerInfo peer info)
  with assms show ?thesis by (auto simp: same_received_def)
qed

lemma swap_step_exposure:
  assumes "exposure_ok svc" and "swap_step cr svc i = (svc', out)"
  shows "exposure_ok svc'" and "sw_bounce_limit svc' = sw_bounce_limit svc"
    and "int (pcs_last_received_payout (cheque_state svc' p)) =
      int (pcs_last_received_payout (cheque_state svc p)) + cheque_credit p out"
proof -
  have quiet: "exposure_ok svc' \<and> sw_bounce_limit svc' = sw_bounce_limit svc \<and>
      int (pcs_last_received_payout (cheque_state svc' p)) =
        int (pcs_last_received_payout (cheque_state svc p)) + cheque_credit p out"
    if "same_received svc svc'" "cheque_credit p out = 0"
    using that assms(1) by (simp add: same_received_def exposure_ok_def)
  have "exposure_ok svc' \<and> sw_bounce_limit svc' = sw_bounce_limit svc \<and>
      int (pcs_last_received_payout (cheque_state svc' p)) =
        int (pcs_last_received_payout (cheque_state svc p)) + cheque_credit p out"
  proof (cases i)
    case (SwapCommand chan cmd)
    then show ?thesis using assms(2) swap_command_received quiet by fastforce
  next
    case (SwapEvent ev)
    show ?thesis
    proof (cases ev)
      case (ChequeReceived peer c)
      obtain r svc1 where acc: "accept_cheque cr svc peer c = (r, svc1)" by fastforce
      show ?thesis
      proof (cases r)
        case (Inl e)
        have "svc1 = svc" by (rule accept_cheque_Inl [OF acc [unfolded Inl]])
        then show ?thesis using acc Inl assms(2) SwapEvent ChequeReceived
          by (intro quiet) (auto simp: same_received_def swap_report_violation_def)
      next
        case (Inr amount)
        note a = accept_cheque_Inr [OF acc [unfolded Inr] assms(1)]
        have st: "svc' = svc1\<lparr>sw_accounting := record_peer (sw_accounting svc1) peer amount Download\<rparr>"
          "out = [SwapRecord peer amount Download]"
          using assms(2) SwapEvent ChequeReceived acc Inr by auto
        have "nat amount \<le> sw_bounce_limit svc - pcs_received_uncashed (cheque_state svc peer)"
          using a(4) by simp
        then show ?thesis using assms(1) a(5) unfolding st a(6)
          by (auto simp: exposure_ok_def)
      qed
    qed (use assms(2) SwapEvent in \<open>intro quiet; auto simp: same_received_def split: option.splits\<close>)+
  qed
  then show "exposure_ok svc'" and "sw_bounce_limit svc' = sw_bounce_limit svc"
    and "int (pcs_last_received_payout (cheque_state svc' p)) =
      int (pcs_last_received_payout (cheque_state svc p)) + cheque_credit p out" by auto
qed

lemma swap_run_exposure:
  "exposure_ok svc \<Longrightarrow> swap_run cr svc is = (svc', out) \<Longrightarrow>
     exposure_ok svc' \<and> sw_bounce_limit svc' = sw_bounce_limit svc \<and>
     int (pcs_last_received_payout (cheque_state svc' p)) =
       int (pcs_last_received_payout (cheque_state svc p)) + cheque_credit p out"
proof (induction "is" arbitrary: svc out)
  case (Cons i "is")
  obtain svc1 out1 where s1: "swap_step cr svc i = (svc1, out1)" by fastforce
  obtain out2 where s2: "swap_run cr svc1 is = (svc', out2)" and out: "out = out1 @ out2"
    using Cons.prems(2) s1 by (auto split: prod.splits)
  note e = swap_step_exposure [OF Cons.prems(1) s1]
  from Cons.IH [OF e(1) s2] e(2) e(3) [of p] show ?case by (simp add: out)
qed simp

text \<open>The payouts of the cheques sent to a peer.\<close>

fun payout_of :: "overlay_address \<Rightarrow> swap_effect \<Rightarrow> nat list" where
  "payout_of p (SendCheque q c) = (if q = p then [chq_cumulative_payout (sc_cheque c)] else [])"
| "payout_of p _ = []"

definition payouts :: "overlay_address \<Rightarrow> swap_effect list \<Rightarrow> nat list" where
  "payouts p out = concat (map (payout_of p) out)"

lemma payouts_simps [simp]:
  "payouts p [] = []" "payouts p (e # es) = payout_of p e @ payouts p es"
  "payouts p (es @ fs) = payouts p es @ payouts p fs"
  by (simp_all add: payouts_def)

fun settle_positive :: "swap_input \<Rightarrow> bool" where
  "settle_positive (SwapCommand chan (SwapSettle p a n)) \<longleftrightarrow> 0 < a \<and> a \<le> i64_max"
| "settle_positive _ \<longleftrightarrow> True"

text \<open>One step either sends nothing to a peer and keeps its last payout, or sends one
  cheque that raises it by the amount.\<close>

definition sent_by :: "overlay_address \<Rightarrow> swap_service \<Rightarrow> swap_service \<Rightarrow> swap_effect list \<Rightarrow> bool" where
  "sent_by p svc svc' out \<longleftrightarrow>
     (let a = pcs_last_sent_payout (cheque_state svc p);
          b = pcs_last_sent_payout (cheque_state svc' p)
      in (payouts p out = [] \<and> b = a) \<or> (payouts p out = [b] \<and> a < b \<and> b \<le> a + nat i64_max))"

lemma issue_cheque_sent:
  assumes "issue_cheque cr svc peer w = (r, svc')" and "pcs_last_sent_payout (cheque_state svc peer) + w < u256_modulus"
  shows "pcs_last_sent_payout (cheque_state svc' q) =
      (if q = peer \<and> (\<exists>c. r = Inr c) then pcs_last_sent_payout (cheque_state svc peer) + w
       else pcs_last_sent_payout (cheque_state svc q))"
    and "r = Inr c \<Longrightarrow> chq_cumulative_payout (sc_cheque c) = pcs_last_sent_payout (cheque_state svc peer) + w"
  using assms(1) mod_less [OF assms(2)]
  by (auto simp: issue_cheque_def Let_def split: option.splits sum.splits)

lemma wrap_back:
  assumes "a + w < u256_modulus" shows "(a + w + u256_modulus - w) mod u256_modulus = a"
proof -
  have "a + w + u256_modulus - w = a + u256_modulus" by (simp only: add.assoc add.commute [of w] diff_add_inverse2 flip: add.assoc)
  moreover have "a < u256_modulus" using assms by (rule le_less_trans [rotated]) simp
  ultimately show ?thesis by (simp only: mod_add_self2 mod_less)
qed

lemma swap_settle_sent:
  assumes "swap_handle_command cr svc chan (SwapSettle peer amount n) = (svc', out)"
    and "0 < amount" and "amount \<le> i64_max"
    and room: "pcs_last_sent_payout (cheque_state svc peer) + nat amount < u256_modulus"
  shows "sent_by p svc svc' out"
proof (cases "sw_pending svc peer = None")
  case False
  then show ?thesis using assms(1) by (auto simp: sent_by_def)
next
  case True
  have wire: "u256_try_from_au amount = Inr (nat amount)" using assms(2) by (simp add: u256_try_from_au_def)
  obtain r svc1 where i: "issue_cheque cr svc peer (nat amount) = (r, svc1)" by fastforce
  note s = issue_cheque_sent [OF i room]
  show ?thesis
  proof (cases r)
    case (Inl e)
    then show ?thesis using assms(1) True wire i s(1) [of p] by (simp add: sent_by_def) auto
  next
    case (Inr c)
    show ?thesis
    proof (cases chan)
      case None
      then have "svc' = svc1\<lparr>sw_pending := (sw_pending svc1)(peer \<mapsto> \<lparr>sp_amount = amount, sp_response = n\<rparr>)\<rparr>"
        and "out = [SendCheque peer c]"
        using assms(1) True wire i Inr by auto
      then show ?thesis using s(1) [of p] s(2) [OF Inr] Inr assms(2,3)
        by (auto simp: sent_by_def Let_def)
    next
      case (Some e)
      then have "pcs_last_sent_payout (cheque_state svc' p) =
          (if p = peer then (pcs_last_sent_payout (cheque_state svc1 peer) + u256_modulus - nat amount)
             mod u256_modulus else pcs_last_sent_payout (cheque_state svc1 p))"
        and "payouts p out = []"
        using assms(1) True wire i Inr by auto
      then show ?thesis using s(1) [of p] s(1) [of peer] Inr wrap_back [OF room]
        by (simp add: sent_by_def Let_def)
    qed
  qed
qed

lemma accept_cheque_shape:
  assumes "accept_cheque cr svc peer c = (r, svc')"
  obtains "svc' = svc"
  | x y where "svc' = set_cheque_state svc peer ((cheque_state svc peer)
      \<lparr>pcs_last_received_payout := x, pcs_received_uncashed := y\<rparr>)"
proof (cases r)
  case (Inl e)
  then show ?thesis using assms accept_cheque_Inl that(1) by blast
next
  case (Inr a)
  with assms show ?thesis unfolding accept_cheque_def Let_def
    by (auto split: option.splits if_splits sum.splits intro: that(2))
qed

lemma accept_cheque_sent:
  assumes "accept_cheque cr svc peer c = (r, svc')"
  shows "pcs_last_sent_payout (cheque_state svc' q) = pcs_last_sent_payout (cheque_state svc q)"
  using assms by (cases rule: accept_cheque_shape) simp_all

lemma sent_by_same: "(\<And>q. cheque_state svc' q = cheque_state svc q) \<Longrightarrow> payouts p out = [] \<Longrightarrow> sent_by p svc svc' out"
  by (simp add: sent_by_def)

lemma swap_step_sent:
  assumes "swap_step cr svc i = (svc', out)" and "settle_positive i"
    and room: "\<And>q. pcs_last_sent_payout (cheque_state svc q) + nat i64_max < u256_modulus"
  shows "sent_by p svc svc' out"
proof (cases i)
  case (SwapCommand chan cmd)
  show ?thesis
  proof (cases cmd)
    case (SwapSettle peer amount n)
    then have a: "0 < amount" "amount \<le> i64_max" using assms(2) SwapCommand by simp_all
    have "nat amount \<le> nat i64_max" using a(2) by (rule nat_mono)
    then have "pcs_last_sent_payout (cheque_state svc peer) + nat amount < u256_modulus"
      using room [of peer] by (rule le_less_trans [OF add_left_mono])
    then show ?thesis using swap_settle_sent [OF _ a] assms(1) SwapCommand SwapSettle by simp
  next
    case (RegisterPeerInfo peer info)
    then show ?thesis using assms(1) SwapCommand by (auto simp: sent_by_def)
  qed
next
  case (SwapEvent ev)
  show ?thesis
  proof (cases ev)
    case (ChequeReceived peer c)
    obtain r svc1 where acc: "accept_cheque cr svc peer c = (r, svc1)" by fastforce
    then show ?thesis using assms(1) SwapEvent ChequeReceived accept_cheque_sent [OF acc]
      by (cases r) (auto simp: sent_by_def swap_report_violation_def)
  qed (use assms(1) SwapEvent in \<open>intro sent_by_same; auto split: option.splits\<close>)+
qed

lemma swap_run_sent:
  assumes "swap_run cr svc is = (svc', out)" and "\<forall>i \<in> set is. settle_positive i"
    and "\<And>q. pcs_last_sent_payout (cheque_state svc q) + length is * nat i64_max < u256_modulus"
  shows "sorted_wrt (<) (pcs_last_sent_payout (cheque_state svc p) # payouts p out)"
  using assms
proof (induction "is" arbitrary: svc out)
  case (Cons i "is")
  obtain svc1 out1 where s1: "swap_step cr svc i = (svc1, out1)" by fastforce
  obtain out2 where s2: "swap_run cr svc1 is = (svc', out2)" and out: "out = out1 @ out2"
    using Cons.prems(1) s1 by (auto split: prod.splits)
  have room: "pcs_last_sent_payout (cheque_state svc q) + nat i64_max + length is * nat i64_max
      < u256_modulus" for q
    using Cons.prems(3) [of q] by (simp only: list.size add_mult_distrib ac_simps)
  have "pcs_last_sent_payout (cheque_state svc q) + nat i64_max < u256_modulus" for q
    using le_less_trans [OF le_add1 room [of q]] .
  then have sent: "sent_by q svc svc1 out1" for q
    using swap_step_sent [OF s1] Cons.prems(2) by simp
  have "pcs_last_sent_payout (cheque_state svc1 q) \<le> pcs_last_sent_payout (cheque_state svc q) + nat i64_max" for q
    using sent [of q] by (auto simp: sent_by_def Let_def)
  then have "pcs_last_sent_payout (cheque_state svc1 q) + length is * nat i64_max < u256_modulus" for q
    using room [of q] by (rule le_less_trans [OF add_right_mono])
  from Cons.IH [OF s2 _ this] Cons.prems(2)
  have "sorted_wrt (<) (pcs_last_sent_payout (cheque_state svc1 p) # payouts p out2)" by simp
  then show ?case using sent [of p] by (auto simp: out sent_by_def Let_def)
qed simp

lemma swap_step_credit_nonneg:
  assumes "exposure_ok svc" and "swap_step cr svc i = (svc', out)"
  shows "0 \<le> cheque_credit p out"
proof (cases "\<exists>peer c amount svc1. i = SwapEvent (ChequeReceived peer c) \<and>
    accept_cheque cr svc peer c = (Inr amount, svc1)")
  case True
  then show ?thesis using assms accept_cheque_Inr(5) by fastforce
next
  case False
  show ?thesis
  proof (cases i)
    case (SwapCommand chan cmd)
    then show ?thesis using assms(2) swap_command_received [of cr svc chan cmd svc' out p] by simp
  next
    case (SwapEvent ev)
    then show ?thesis using assms(2) False
      by (cases ev) (auto simp: swap_report_violation_def split: option.splits prod.splits sum.splits)
  qed
qed

lemma swap_run_credit_nonneg:
  "exposure_ok svc \<Longrightarrow> swap_run cr svc is = (svc', out) \<Longrightarrow> 0 \<le> cheque_credit p out"
proof (induction "is" arbitrary: svc out)
  case (Cons i "is")
  obtain svc1 out1 where s1: "swap_step cr svc i = (svc1, out1)" by fastforce
  obtain out2 where s2: "swap_run cr svc1 is = (svc', out2)" and out: "out = out1 @ out2"
    using Cons.prems(2) s1 by (auto split: prod.splits)
  show ?case
    using Cons.IH [OF swap_step_exposure(1) [OF Cons.prems(1) s1] s2]
      swap_step_credit_nonneg [OF Cons.prems(1) s1, of p] by (simp add: out)
qed simp

section \<open>A sample service\<close>

text \<open>A concrete signature scheme: every 65-byte signature recovers to one address. The
  peer's identity is known and the exposure limit is 100.\<close>

definition sample_crypto :: crypto where
  "sample_crypto =
     \<lparr>cr_signing_hash = (\<lambda>c. of_nat (chq_cumulative_payout c)), cr_sign = (\<lambda>h. Inr (replicate 65 0)),
      cr_parse = Inr, cr_recover = (\<lambda>sig h. Inr 99)\<rparr>"

definition sample_swap :: swap_service where
  "sample_swap = set_cheque_state
     (swap_with_reporter (with_bounce_limit (swap_service_new (accounting_new bandwidth_config_default) 1 2) 100))
     7 (peer_cheque_state_default\<lparr>pcs_info := Some \<lparr>psi_beneficiary = 3, psi_issuer = 99\<rparr>\<rparr>)"

definition sample_cheque :: "nat \<Rightarrow> signed_cheque" where
  "sample_cheque payout =
     \<lparr>sc_cheque = \<lparr>chq_chequebook = 5, chq_beneficiary = 2, chq_cumulative_payout = payout\<rparr>,
      sc_signature = replicate 65 0\<rparr>"

lemmas sample_swap_simps = sample_crypto_def sample_swap_def sample_cheque_def swap_with_reporter_def
  with_bounce_limit_def swap_service_new_def set_cheque_state_def cheque_state_def
  peer_cheque_state_default_def

lemma sample_swap_exposure: "exposure_ok sample_swap"
  by (simp add: exposure_ok_def sample_swap_simps split: option.split)

section \<open>Properties\<close>

text \<open>C11. A received cheque is credited only when it is authenticated: the peer's
  identity is known, the cheque names our beneficiary, its signature recovers to the
  peer's issuer and its payout is above the last one; and what is credited is the
  increase, cut to what the exposure limit leaves.\<close>

theorem cheque_credit_authenticated:
  assumes "exposure_ok svc" and "swap_handle_event cr svc (ChequeReceived peer c) = (svc', out)"
    and "SwapRecord peer amount Download \<in> set out"
  shows "(\<exists>info. Option.bind (sw_peers svc peer) pcs_info = Some info \<and>
      recover_signer cr c = Inr (psi_issuer info)) \<and>
    chq_beneficiary (sc_cheque c) = sw_beneficiary svc \<and>
    pcs_last_received_payout (cheque_state svc peer) < chq_cumulative_payout (sc_cheque c) \<and>
    amount = int (min (chq_cumulative_payout (sc_cheque c)
        - pcs_last_received_payout (cheque_state svc peer))
      (sw_bounce_limit svc - pcs_received_uncashed (cheque_state svc peer)))"
proof -
  obtain r svc1 where acc: "accept_cheque cr svc peer c = (r, svc1)" by fastforce
  then have "r = Inr amount" using assms(2,3)
    by (cases r) (auto simp: swap_report_violation_def split: if_splits)
  from accept_cheque_Inr [OF acc [unfolded this] assms(1)] show ?thesis by blast
qed

theorem cheque_credit_authenticated_witness:
  "swap_handle_event sample_crypto sample_swap (ChequeReceived 7 (sample_cheque 60)) =
     (fst (swap_handle_event sample_crypto sample_swap (ChequeReceived 7 (sample_cheque 60))),
      [SwapRecord 7 60 Download]) \<and>
   chq_beneficiary (sc_cheque (sample_cheque 60)) = sw_beneficiary sample_swap \<and>
   (60 :: int) = int (min (60 - 0) (100 - 0))"
proof -
  let ?x = "swap_handle_event sample_crypto sample_swap (ChequeReceived 7 (sample_cheque 60))"
  have out: "snd ?x = [SwapRecord 7 60 Download]"
    by (simp add: sample_swap_simps accept_cheque_def recover_signer_def parse_signature_def
        au_try_from_u256_def)
  then have "?x = (fst ?x, [SwapRecord 7 60 Download])" by (metis prod.collapse)
  with cheque_credit_authenticated [OF sample_swap_exposure this, of 60] show ?thesis by simp
qed

text \<open>C3. The exposure to a peer's cheques is capped for good: over any run, what its
  cheques have been credited equals the payout recorded for it and never exceeds the
  bounce limit.\<close>

theorem cheque_exposure_capped:
  assumes "limit < u256_modulus"
    and "swap_run cr (with_bounce_limit (swap_service_new acc chequebook beneficiary) limit) is = (svc', out)"
  shows "cheque_credit p out = int (pcs_last_received_payout (cheque_state svc' p)) \<and>
    0 \<le> cheque_credit p out \<and> cheque_credit p out \<le> int limit"
proof -
  let ?svc = "with_bounce_limit (swap_service_new acc chequebook beneficiary) limit"
  have ok: "exposure_ok ?svc" and zero: "pcs_last_received_payout (cheque_state ?svc p) = 0"
    and lim: "sw_bounce_limit ?svc = limit"
    using assms(1) by (simp_all add: exposure_ok_def with_bounce_limit_def swap_service_new_def
        cheque_state_def peer_cheque_state_default_def)
  have run: "exposure_ok svc'" "sw_bounce_limit svc' = limit"
    "int (pcs_last_received_payout (cheque_state svc' p)) = cheque_credit p out"
    using swap_run_exposure [OF ok assms(2), of p] zero lim by simp_all
  from run(1) have "pcs_last_received_payout (cheque_state svc' p) \<le> limit"
    unfolding exposure_ok_def run(2) by blast
  then show ?thesis using run(3) by simp
qed

theorem cheque_exposure_capped_witness:
  "cheque_credit 7 (snd (swap_run sample_crypto
     (with_bounce_limit (swap_service_new (accounting_new bandwidth_config_default) 1 2) 100)
     [SwapCommand None (RegisterPeerInfo 7 \<lparr>psi_beneficiary = 3, psi_issuer = 99\<rparr>),
      SwapEvent (ChequeReceived 7 (sample_cheque 60)), SwapEvent (ChequeReceived 7 (sample_cheque 500))]))
     \<le> 100"
  using cheque_exposure_capped [of 100 sample_crypto "accounting_new bandwidth_config_default" 1 2
      "[SwapCommand None (RegisterPeerInfo 7 \<lparr>psi_beneficiary = 3, psi_issuer = 99\<rparr>),
        SwapEvent (ChequeReceived 7 (sample_cheque 60)), SwapEvent (ChequeReceived 7 (sample_cheque 500))]",
      OF _ prod.collapse [symmetric], of 7]
  by (simp del: swap_run.simps)

text \<open>Once a peer's exposure has reached the limit no later cheque of it is ever
  credited, since nothing lowers the exposure; and each further authentic cheque that
  raises the payout is scored against the peer as a violation.\<close>

lemma exposure_limit_is_final:
  assumes "exposure_ok svc" and "pcs_last_received_payout (cheque_state svc p) = sw_bounce_limit svc"
    and "swap_run cr svc is = (svc', out)"
    and "Option.bind (sw_peers svc' p) pcs_info = Some info"
    and "chq_beneficiary (sc_cheque c) = sw_beneficiary svc'"
    and "recover_signer cr c = Inr (psi_issuer info)"
    and "sw_bounce_limit svc < chq_cumulative_payout (sc_cheque c)" and "sw_reporter svc'"
  shows "cheque_credit p out = 0 \<and>
    swap_handle_event cr svc' (ChequeReceived p c) = (svc', [SwapReportViolation p])"
proof -
  have run: "exposure_ok svc'" "sw_bounce_limit svc' = sw_bounce_limit svc"
    "int (pcs_last_received_payout (cheque_state svc' p)) = int (sw_bounce_limit svc) + cheque_credit p out"
    using swap_run_exposure [OF assms(1,3), of p] assms(2) by simp_all
  have bound: "pcs_received_uncashed (cheque_state svc' p) = pcs_last_received_payout (cheque_state svc' p)"
    "pcs_last_received_payout (cheque_state svc' p) \<le> sw_bounce_limit svc"
    using run(1) unfolding exposure_ok_def run(2) by blast+
  have "cheque_credit p out = 0"
    using run(3) bound(2) swap_run_credit_nonneg [OF assms(1,3), of p] by linarith
  moreover from this run(3) have "pcs_last_received_payout (cheque_state svc' p) = sw_bounce_limit svc"
    by simp
  ultimately show ?thesis using assms(4-8) bound(1) run(2)
    by (simp add: accept_cheque_def swap_report_violation_def Let_def)
qed

text \<open>C20. The cheques we send to a peer carry strictly increasing payouts, over any run
  of positive settlements short enough not to exhaust 256 bits, whatever fails in
  between: a cheque the channel refuses leaves the payout where it was.\<close>

theorem sent_payouts_increase:
  assumes "swap_run cr (swap_service_new acc chequebook beneficiary) is = (svc', out)"
    and "\<forall>i \<in> set is. settle_positive i" and "length is * nat i64_max < u256_modulus"
  shows "sorted_wrt (<) (payouts p out)"
proof -
  have zero: "pcs_last_sent_payout (cheque_state (swap_service_new acc chequebook beneficiary) q) = 0" for q
    by (simp add: swap_service_new_def cheque_state_def peer_cheque_state_default_def)
  have "sorted_wrt (<) (0 # payouts p out)"
    using swap_run_sent [OF assms(1,2), of p] assms(3) unfolding zero by simp
  then show ?thesis by simp
qed

definition sample_settlements :: "swap_input list" where
  "sample_settlements =
     [SwapCommand None (RegisterPeerInfo 7 \<lparr>psi_beneficiary = 3, psi_issuer = 99\<rparr>),
      SwapCommand None (SwapSettle 7 40 1), SwapEvent (ChequeSent 7),
      SwapCommand (Some ''closed'') (SwapSettle 7 5 2), SwapCommand None (SwapSettle 7 30 3)]"

theorem sent_payouts_increase_witness:
  "payouts 7 (snd (swap_run sample_crypto
     (swap_service_new (accounting_new bandwidth_config_default) 1 2) sample_settlements)) = [40, 70] \<and>
   sorted_wrt (<) (payouts 7 (snd (swap_run sample_crypto
     (swap_service_new (accounting_new bandwidth_config_default) 1 2) sample_settlements)))"
proof
  show "payouts 7 (snd (swap_run sample_crypto
     (swap_service_new (accounting_new bandwidth_config_default) 1 2) sample_settlements)) = [40, 70]"
    by (simp add: sample_settlements_def sample_swap_simps issue_cheque_def u256_try_from_au_def)
  show "sorted_wrt (<) (payouts 7 (snd (swap_run sample_crypto
     (swap_service_new (accounting_new bandwidth_config_default) 1 2) sample_settlements)))"
    by (rule sent_payouts_increase [OF prod.collapse [symmetric]]) (simp_all add: sample_settlements_def)
qed

end
