(* ===== verification/Ordered_Table.thy ===== *)
theory Ordered_Table
  imports Vertex_Prelude
begin

text \<open>
  Tables of the storage layer, \<^verbatim>\<open>crates/storage/src/traits.rs\<close>. A table is the list of
  its rows in ascending key order, which is what a cursor walks; the operations are
  those of \<^verbatim>\<open>DbTx\<close>, \<^verbatim>\<open>DbTxMut\<close> and \<^verbatim>\<open>DbCursorRO\<close> as their documentation states them, on a
  backend that does not fail. The locale \<open>ordered_table\<close> is what the stores above rely
  on. \<^verbatim>\<open>Database::update\<close> commits only when its closure succeeds, and the secondary-index
  operations \<^verbatim>\<open>IndexedRead\<close> and \<^verbatim>\<open>IndexedWrite\<close> are modelled on two tables.
\<close>

section \<open>Rows in key order\<close>

type_synonym ('k, 'v) tbl = "('k \<times> 'v) list"

definition tbl_wf :: "('k :: linorder, 'v) tbl \<Rightarrow> bool" where
  "tbl_wf t \<longleftrightarrow> sorted_wrt (<) (map fst t)"

definition tbl_get :: "('k, 'v) tbl \<Rightarrow> 'k \<Rightarrow> 'v option" where
  "tbl_get t k = map_of t k"

definition tbl_exists :: "('k, 'v) tbl \<Rightarrow> 'k \<Rightarrow> bool" where
  "tbl_exists t k \<longleftrightarrow> tbl_get t k \<noteq> None"

definition tbl_entries :: "('k, 'v) tbl \<Rightarrow> ('k \<times> 'v) list" where
  "tbl_entries t = t"

definition tbl_keys :: "('k, 'v) tbl \<Rightarrow> 'k list" where
  "tbl_keys t = map fst (tbl_entries t)"

definition tbl_count :: "('k, 'v) tbl \<Rightarrow> nat" where
  "tbl_count t = length t"

fun tbl_put :: "'k \<Rightarrow> 'v \<Rightarrow> ('k :: linorder, 'v) tbl \<Rightarrow> ('k, 'v) tbl" where
  "tbl_put k v [] = [(k, v)]"
| "tbl_put k v ((k', v') # t) =
     (if k < k' then (k, v) # (k', v') # t
      else if k = k' then (k, v) # t
      else (k', v') # tbl_put k v t)"

definition tbl_delete :: "'k \<Rightarrow> ('k, 'v) tbl \<Rightarrow> ('k, 'v) tbl" where
  "tbl_delete k t = filter (\<lambda>r. fst r \<noteq> k) t"

definition tbl_clear :: "('k, 'v) tbl \<Rightarrow> ('k, 'v) tbl" where
  "tbl_clear t = []"

text \<open>A cursor yields the rows from where it was positioned on: \<^verbatim>\<open>first\<close> or \<^verbatim>\<open>seek\<close>, and
  then \<^verbatim>\<open>next\<close> until the end.\<close>

definition tbl_first :: "('k, 'v) tbl \<Rightarrow> ('k \<times> 'v) option" where
  "tbl_first t = (case t of [] \<Rightarrow> None | r # _ \<Rightarrow> Some r)"

definition tbl_first_key :: "('k, 'v) tbl \<Rightarrow> 'k option" where
  "tbl_first_key t = map_option fst (tbl_first t)"

definition tbl_from :: "'k \<Rightarrow> ('k :: linorder, 'v) tbl \<Rightarrow> ('k \<times> 'v) list" where
  "tbl_from k t = dropWhile (\<lambda>r. fst r < k) t"

definition tbl_seek :: "'k \<Rightarrow> ('k :: linorder, 'v) tbl \<Rightarrow> ('k \<times> 'v) option" where
  "tbl_seek k t = tbl_first (tbl_from k t)"

text \<open>\<^verbatim>\<open>Database::update\<close>: the writes of a closure that fails are dropped.\<close>

definition db_update :: "('d \<Rightarrow> ('e + 'r) \<times> 'd) \<Rightarrow> 'd \<Rightarrow> ('e + 'r) \<times> 'd" where
  "db_update f d = (case f d of (Inl e, _) \<Rightarrow> (Inl e, d) | (Inr r, d') \<Rightarrow> (Inr r, d'))"

section \<open>Laws\<close>

lemma tbl_wf_Nil [simp]: "tbl_wf []"
  by (simp add: tbl_wf_def)

lemma tbl_wf_Cons: "tbl_wf ((k, v) # t) \<longleftrightarrow> (\<forall>k' \<in> fst ` set t. k < k') \<and> tbl_wf t"
  by (auto simp: tbl_wf_def)

lemma tbl_put_keys: "fst ` set (tbl_put k v t) = insert k (fst ` set t)"
  by (induction k v t rule: tbl_put.induct) auto

lemma tbl_put_wf [simp]: "tbl_wf t \<Longrightarrow> tbl_wf (tbl_put k v t)"
  by (induction k v t rule: tbl_put.induct) (auto simp: tbl_wf_Cons tbl_put_keys dest: order.strict_trans)

lemma tbl_delete_wf [simp]: "tbl_wf t \<Longrightarrow> tbl_wf (tbl_delete k t)"
  by (induction t) (auto simp: tbl_wf_Cons tbl_delete_def)

lemma tbl_get_Nil [simp, table_simps]: "tbl_get [] k = None"
  by (simp add: tbl_get_def)

lemma tbl_get_put [simp, table_simps]: "tbl_get (tbl_put k v t) k' = (if k' = k then Some v else tbl_get t k')"
  by (induction k v t rule: tbl_put.induct) (auto simp: tbl_get_def)

lemma tbl_get_delete [simp, table_simps]: "tbl_get (tbl_delete k t) k' = (if k' = k then None else tbl_get t k')"
  by (induction t) (auto simp: tbl_get_def tbl_delete_def)

lemma tbl_get_Some_in: "tbl_get t k = Some v \<Longrightarrow> (k, v) \<in> set t"
  by (simp add: tbl_get_def map_of_SomeD)

lemma tbl_wf_distinct: "tbl_wf t \<Longrightarrow> distinct (map fst t)"
  by (simp add: tbl_wf_def strict_sorted_iff)

lemma tbl_in_get: "tbl_wf t \<Longrightarrow> (k, v) \<in> set t \<longleftrightarrow> tbl_get t k = Some v"
  by (auto simp: tbl_get_def tbl_wf_distinct map_of_eq_Some_iff)

lemma tbl_get_None: "tbl_get t k = None \<longleftrightarrow> k \<notin> fst ` set t"
  by (simp add: tbl_get_def map_of_eq_None_iff)

lemma tbl_put_fresh_filter:
  "tbl_get t k = None \<Longrightarrow>
     length (filter P (tbl_keys (tbl_put k v t))) = (if P k then 1 else 0) + length (filter P (tbl_keys t))"
  by (induction k v t rule: tbl_put.induct)
    (auto simp: tbl_get_def tbl_keys_def tbl_entries_def split: if_splits)

lemma tbl_delete_absent: "tbl_get t k = None \<Longrightarrow> tbl_delete k t = t"
  by (auto simp: tbl_get_None tbl_delete_def intro!: filter_True)

lemma tbl_delete_filter:
  "tbl_wf t \<Longrightarrow> tbl_get t k = Some v \<Longrightarrow>
     length (filter P (tbl_keys t)) = (if P k then 1 else 0) + length (filter P (tbl_keys (tbl_delete k t)))"
proof (induction t)
  case (Cons r t)
  obtain k' v' where r: "r = (k', v')" by fastforce
  show ?case
  proof (cases "k = k'")
    case True
    then have "tbl_get t k = None" using Cons.prems(1) by (auto simp: r tbl_wf_Cons tbl_get_None)
    then have "tbl_delete k ((k', v') # t) = t"
      using True tbl_delete_absent [of t k] by (simp add: tbl_delete_def)
    then show ?thesis using True by (simp add: r tbl_keys_def tbl_entries_def)
  next
    case False
    then show ?thesis using Cons
      by (auto simp: r tbl_wf_Cons tbl_get_def tbl_delete_def tbl_keys_def tbl_entries_def)
  qed
qed simp

lemma tbl_count_filter: "tbl_count t = length (filter (\<lambda>_. True) (tbl_keys t))"
  by (simp add: tbl_count_def tbl_keys_def tbl_entries_def)

lemmas tbl_put_fresh_count = tbl_put_fresh_filter [where P = "\<lambda>_. True", folded tbl_count_filter, simplified]
lemmas tbl_delete_count = tbl_delete_filter [where P = "\<lambda>_. True", folded tbl_count_filter, simplified]

lemma tbl_from_set: "tbl_wf t \<Longrightarrow> set (tbl_from k t) = {r \<in> set t. k \<le> fst r}"
proof (induction t)
  case (Cons r t)
  then show ?case
    by (cases r) (auto simp: tbl_from_def tbl_wf_Cons not_less dest: order.strict_trans1)
qed (simp add: tbl_from_def)

lemma tbl_from_wf: "tbl_wf t \<Longrightarrow> tbl_wf (tbl_from k t)"
  by (induction t) (auto simp: tbl_from_def tbl_wf_Cons)

text \<open>A cursor positioned at \<open>k\<close> and walked while \<open>P\<close> holds visits every row of a range.\<close>

lemma tbl_range_scan:
  assumes "tbl_wf t" and "\<And>x y. x < y \<Longrightarrow> P y \<Longrightarrow> P x \<or> x < k" and "\<And>x. P x \<Longrightarrow> k \<le> x"
  shows "takeWhile (\<lambda>r. P (fst r)) (tbl_from k t) = filter (\<lambda>r. P (fst r)) t"
  using assms(1)
proof (induction t)
  case (Cons r t)
  obtain x v where r: "r = (x, v)" by fastforce
  have wf: "tbl_wf t" and above: "\<And>y. y \<in> set t \<Longrightarrow> x < fst y" using Cons.prems by (auto simp: r tbl_wf_Cons)
  show ?case
  proof (cases "x < k")
    case True
    then show ?thesis using Cons.IH [OF wf] assms(3) [of x] by (auto simp: r tbl_from_def)
  next
    case False
    have "\<not> fst y < k" if "y \<in> set t" for y using above [OF that] False by (meson order.strict_trans)
    then have "tbl_from k t = t" by (cases t) (auto simp: tbl_from_def)
    moreover have "filter (\<lambda>r. P (fst r)) t = []" if "\<not> P x"
      using above assms(2) [of x] that False by (auto simp: filter_empty_conv)
    ultimately show ?thesis using Cons.IH [OF wf] False by (auto simp: r tbl_from_def)
  qed
qed (simp add: tbl_from_def)

section \<open>The contract of a table\<close>

locale ordered_table =
  fixes wf :: "'t \<Rightarrow> bool" and get :: "'t \<Rightarrow> 'k :: linorder \<Rightarrow> 'v option"
    and put :: "'k \<Rightarrow> 'v \<Rightarrow> 't \<Rightarrow> 't" and delete :: "'k \<Rightarrow> 't \<Rightarrow> 't" and rows :: "'t \<Rightarrow> ('k \<times> 'v) list"
  assumes wf_put: "wf t \<Longrightarrow> wf (put k v t)" and wf_delete: "wf t \<Longrightarrow> wf (delete k t)"
    and get_put: "get (put k v t) k' = (if k' = k then Some v else get t k')"
    and get_delete: "get (delete k t) k' = (if k' = k then None else get t k')"
    and rows_get: "wf t \<Longrightarrow> (k, v) \<in> set (rows t) \<longleftrightarrow> get t k = Some v"
    and rows_sorted: "wf t \<Longrightarrow> sorted_wrt (<) (map fst (rows t))"
begin

text \<open>Deleting a run of keys, as a range clear does.\<close>

lemma get_delete_all: "get (fold delete ks t) k = (if k \<in> set ks then None else get t k)"
  by (induction ks arbitrary: t) (auto simp: get_delete)

lemma wf_delete_all: "wf t \<Longrightarrow> wf (fold delete ks t)"
  by (induction ks arbitrary: t) (auto simp: wf_delete)

text \<open>A table is determined by its lookups: the rows in order are.\<close>

lemma rows_unique:
  assumes "wf s" and "wf t" and "\<And>k. get s k = get t k"
  shows "rows s = rows t"
proof -
  have keys: "map fst (rows s) = map fst (rows t)"
  proof (rule sorted_distinct_set_unique)
    show "set (map fst (rows s)) = set (map fst (rows t))"
      using rows_get [OF assms(1)] rows_get [OF assms(2)] assms(3) by (auto simp: image_iff)
  qed (use rows_sorted assms in \<open>simp_all add: strict_sorted_iff\<close>)
  show ?thesis
  proof (rule nth_equalityI)
    show len: "length (rows s) = length (rows t)" using keys by (metis length_map)
    fix i assume i: "i < length (rows s)"
    then have "fst (rows s ! i) = fst (rows t ! i)" using keys len by (metis nth_map)
    moreover have "get s (fst (rows s ! i)) = Some (snd (rows s ! i))"
      "get t (fst (rows t ! i)) = Some (snd (rows t ! i))"
      using rows_get [OF assms(1), of "fst (rows s ! i)" "snd (rows s ! i)"]
        rows_get [OF assms(2), of "fst (rows t ! i)" "snd (rows t ! i)"] i len by simp_all
    ultimately show "rows s ! i = rows t ! i" using assms(3) by (simp add: prod_eq_iff)
  qed
qed

end

interpretation table: ordered_table tbl_wf tbl_get tbl_put tbl_delete tbl_entries
  by unfold_locales (simp_all add: tbl_in_get tbl_entries_def tbl_wf_def [symmetric])

section \<open>Secondary indexes\<close>

text \<open>A primary table and an index from an extracted key to the primary key.\<close>

record ('k, 'v, 'i) indexed =
  ix_primary :: "('k, 'v) tbl"
  ix_index :: "('i, 'k) tbl"

definition get_via :: "('k, 'v, 'i) indexed \<Rightarrow> 'i \<Rightarrow> 'v option" where
  "get_via d i = (case tbl_get (ix_index d) i of None \<Rightarrow> None | Some pk \<Rightarrow> tbl_get (ix_primary d) pk)"

definition put_indexed ::
  "('v \<Rightarrow> 'i) \<Rightarrow> 'k \<Rightarrow> 'v \<Rightarrow> ('k :: linorder, 'v, 'i :: linorder) indexed \<Rightarrow> ('k, 'v, 'i) indexed" where
  "put_indexed extract pk v d =
     (let new_idx = extract v;
          d' = (case tbl_get (ix_primary d) pk of
                  Some old \<Rightarrow>
                    (let old_idx = extract old
                     in if old_idx \<noteq> new_idx then d\<lparr>ix_index := tbl_delete old_idx (ix_index d)\<rparr> else d)
                | None \<Rightarrow> d)
      in d'\<lparr>ix_primary := tbl_put pk v (ix_primary d'), ix_index := tbl_put new_idx pk (ix_index d')\<rparr>)"

definition delete_indexed ::
  "('v \<Rightarrow> 'i) \<Rightarrow> 'k \<Rightarrow> ('k, 'v, 'i) indexed \<Rightarrow> bool \<times> ('k, 'v, 'i) indexed" where
  "delete_indexed extract pk d =
     (case tbl_get (ix_primary d) pk of
        None \<Rightarrow> (False, d)
      | Some v \<Rightarrow>
          (True, d\<lparr>ix_primary := tbl_delete pk (ix_primary d),
                   ix_index := tbl_delete (extract v) (ix_index d)\<rparr>))"

definition clear_indexed :: "('k, 'v, 'i) indexed \<Rightarrow> ('k, 'v, 'i) indexed" where
  "clear_indexed d = d\<lparr>ix_primary := tbl_clear (ix_primary d), ix_index := tbl_clear (ix_index d)\<rparr>"

text \<open>The index is exact: it holds the extracted key of every primary row and nothing
  else. That needs the extracted keys to be unique.\<close>

definition index_exact :: "('v \<Rightarrow> 'i) \<Rightarrow> ('k, 'v, 'i) indexed \<Rightarrow> bool" where
  "index_exact extract d \<longleftrightarrow>
     (\<forall>i k. tbl_get (ix_index d) i = Some k \<longleftrightarrow> (\<exists>v. tbl_get (ix_primary d) k = Some v \<and> extract v = i))"

text \<open>Indexed writes keep the index exact: after a put, a delete or a clear every
  primary row is found under its extracted key and no stale index row remains, provided
  the new row's key is not already taken by another row; and a lookup through the index
  then returns exactly the row with that key.\<close>

lemma indexed_writes_exact:
  assumes "index_exact extract d"
    and "\<forall>k' v'. tbl_get (ix_primary d) k' = Some v' \<and> extract v' = extract v \<longrightarrow> k' = pk"
  shows "index_exact extract (put_indexed extract pk v d) \<and>
    index_exact extract (snd (delete_indexed extract pk d)) \<and> index_exact extract (clear_indexed d) \<and>
    get_via (put_indexed extract pk v d) (extract v) = Some v"
proof -
  have inj: "k = k'" if "tbl_get (ix_primary d) k = Some x" "tbl_get (ix_primary d) k' = Some y"
    "extract x = extract y" for k k' x y
    using assms(1) that unfolding index_exact_def by (metis option.inject)
  have "index_exact extract (put_indexed extract pk v d)"
  proof (cases "tbl_get (ix_primary d) pk")
    case None
    then show ?thesis using assms
      by (auto simp: index_exact_def put_indexed_def Let_def)
  next
    case (Some old)
    then show ?thesis using assms inj
      by (auto simp: index_exact_def put_indexed_def Let_def split: if_splits)
  qed
  moreover have "index_exact extract (snd (delete_indexed extract pk d))"
  proof (cases "tbl_get (ix_primary d) pk")
    case None
    then show ?thesis using assms(1) by (simp add: delete_indexed_def)
  next
    case (Some old)
    then show ?thesis using assms(1) inj
      by (auto simp: index_exact_def delete_indexed_def split: if_splits)
  qed
  moreover have "index_exact extract (clear_indexed d)"
    by (simp add: index_exact_def clear_indexed_def tbl_clear_def)
  moreover have "get_via (put_indexed extract pk v d) (extract v) = Some v"
    by (auto simp: get_via_def put_indexed_def Let_def)
  ultimately show ?thesis by blast
qed

end
