(* ===== verification/Byte_Codec.thy ===== *)
theory Byte_Codec
  imports Vertex_Prelude "HOL-Library.Product_Lexorder"
begin

text \<open>
  Big-endian byte keys. Tables order their keys by encoded bytes, and every key of the
  storage layer is a fixed-width big-endian layout, so that byte order is the order of
  the fields. The locale \<open>key_codec\<close> is what a table relies on: a fixed length, a round
  trip, a decoder that refuses every other length, and an order the bytes preserve.
\<close>

section \<open>Numbers as bytes\<close>

fun be_encode :: "nat \<Rightarrow> nat \<Rightarrow> bytes" where
  "be_encode 0 n = []"
| "be_encode (Suc k) n = of_nat (n div 256 ^ k) # be_encode k (n mod 256 ^ k)"

fun be_decode :: "bytes \<Rightarrow> nat" where
  "be_decode [] = 0"
| "be_decode (b # bs) = unat b * 256 ^ length bs + be_decode bs"

text \<open>The comparison of byte arrays.\<close>

fun bytes_less :: "bytes \<Rightarrow> bytes \<Rightarrow> bool" where
  "bytes_less _ [] \<longleftrightarrow> False"
| "bytes_less [] (y # ys) \<longleftrightarrow> True"
| "bytes_less (x # xs) (y # ys) \<longleftrightarrow> x < y \<or> (x = y \<and> bytes_less xs ys)"

lemma length_be_encode [simp]: "length (be_encode k n) = k"
  by (induction k arbitrary: n) auto

lemma unat_byte: "unat (b :: 8 word) < 256"
  using unsigned_less [of b] by simp

lemma be_decode_less: "be_decode bs < 256 ^ length bs"
proof (induction bs)
  case (Cons b bs)
  have "unat b * 256 ^ length bs + be_decode bs < (unat b + 1) * 256 ^ length bs"
    using Cons by simp
  also have "\<dots> \<le> 256 * 256 ^ length bs"
    using unat_byte [of b] by (intro mult_right_mono) auto
  finally show ?case by simp
qed simp

lemma be_decode_encode: "n < 256 ^ k \<Longrightarrow> be_decode (be_encode k n) = n"
proof (induction k arbitrary: n)
  case (Suc k)
  have "n div 256 ^ k < 256" using Suc.prems by (simp add: less_mult_imp_div_less)
  then have "unat (of_nat (n div 256 ^ k) :: 8 word) = n div 256 ^ k"
    by (simp add: unat_of_nat take_bit_nat_eq_self)
  with Suc.IH [of "n mod 256 ^ k"] show ?case by (simp add: div_mult_mod_eq)
qed simp

lemma be_encode_decode: "be_encode (length bs) (be_decode bs) = bs"
proof (induction bs)
  case (Cons b bs)
  have "be_decode bs div 256 ^ length bs = 0" "be_decode bs mod 256 ^ length bs = be_decode bs"
    using be_decode_less [of bs] by simp_all
  with Cons show ?case by (simp add: div_mult_self3)
qed simp

lemma digit_less:
  fixes a b u v m :: nat
  assumes "u < m" and "v < m"
  shows "a * m + u < b * m + v \<longleftrightarrow> a < b \<or> (a = b \<and> u < v)"
proof -
  have "p * m + x < q * m + y" if "p < q" "x < m" for p q x y
  proof -
    have "Suc p * m \<le> q * m" using that(1) by (intro mult_le_mono1) simp
    with that(2) show ?thesis by simp
  qed
  then show ?thesis using assms by (metis add_less_cancel_left nat_neq_iff order_less_asym)
qed

lemma bytes_less_decode:
  assumes "length xs = length ys"
  shows "bytes_less xs ys \<longleftrightarrow> be_decode xs < be_decode ys"
  using assms
proof (induction xs ys rule: list_induct2)
  case (Cons x xs y ys)
  have "be_decode xs < 256 ^ length ys" using be_decode_less [of xs] unfolding Cons.hyps .
  from digit_less [OF this be_decode_less [of ys], of "unat x" "unat y"] Cons.IH
  show ?case unfolding bytes_less.simps be_decode.simps Cons.hyps
    by (simp only: word_less_nat_alt word_unat_eq_iff)
qed simp

lemma bytes_less_append:
  "length xs = length ys \<Longrightarrow>
     bytes_less (xs @ us) (ys @ vs) \<longleftrightarrow> bytes_less xs ys \<or> (xs = ys \<and> bytes_less us vs)"
  by (induction xs ys rule: bytes_less.induct) auto

lemma be_encode_inj: "m < 256 ^ k \<Longrightarrow> n < 256 ^ k \<Longrightarrow> be_encode k m = be_encode k n \<longleftrightarrow> m = n"
  by (metis be_decode_encode)

lemma bytes_less_encode:
  "m < 256 ^ k \<Longrightarrow> n < 256 ^ k \<Longrightarrow> bytes_less (be_encode k m) (be_encode k n) \<longleftrightarrow> m < n"
  by (simp add: bytes_less_decode be_decode_encode)

section \<open>Words as bytes\<close>

definition word_bytes :: "'a :: len word \<Rightarrow> bytes" where
  "word_bytes w = be_encode (LENGTH('a) div 8) (unat w)"

definition word_of_bytes :: "bytes \<Rightarrow> 'a :: len word" where
  "word_of_bytes bs = of_nat (be_decode bs)"

lemma power_256: "8 dvd n \<Longrightarrow> (256 :: nat) ^ (n div 8) = 2 ^ n"
proof -
  assume "8 dvd n"
  then have "(2 :: nat) ^ n = (2 ^ 8) ^ (n div 8)" by (metis dvd_mult_div_cancel power_mult)
  then show ?thesis by simp
qed

lemma length_word_bytes [simp]: "length (word_bytes (w :: 'a :: len word)) = LENGTH('a) div 8"
  by (simp add: word_bytes_def)

lemma word_bytes_bound: "8 dvd LENGTH('a) \<Longrightarrow> unat (w :: 'a :: len word) < 256 ^ (LENGTH('a) div 8)"
  by (simp only: power_256 unsigned_less)

lemma word_of_word_bytes: "8 dvd LENGTH('a) \<Longrightarrow> word_of_bytes (word_bytes w) = (w :: 'a :: len word)"
  by (simp add: word_of_bytes_def word_bytes_def be_decode_encode word_bytes_bound)

lemma unat_word_of_bytes:
  assumes "8 dvd LENGTH('a)" and "length bs = LENGTH('a) div 8"
  shows "unat (word_of_bytes bs :: 'a :: len word) = be_decode bs"
proof -
  have "be_decode bs < 2 ^ LENGTH('a)"
    using be_decode_less [of bs] unfolding assms(2) power_256 [OF assms(1)] .
  then show ?thesis by (simp add: word_of_bytes_def unat_of_nat take_bit_nat_eq_self)
qed

lemma word_bytes_of_word:
  assumes "8 dvd LENGTH('a)" and "length bs = LENGTH('a) div 8"
  shows "word_bytes (word_of_bytes bs :: 'a :: len word) = bs"
  unfolding word_bytes_def unat_word_of_bytes [OF assms] assms(2) [symmetric] by (rule be_encode_decode)

lemma word_bytes_less:
  "8 dvd LENGTH('a) \<Longrightarrow> bytes_less (word_bytes a) (word_bytes b) \<longleftrightarrow> a < (b :: 'a :: len word)"
  by (simp add: word_bytes_def bytes_less_encode word_bytes_bound word_less_nat_alt)

lemma word_bytes_inject: "8 dvd LENGTH('a) \<Longrightarrow> word_bytes a = word_bytes b \<longleftrightarrow> a = (b :: 'a :: len word)"
  by (metis word_of_word_bytes)

lemma bytes_of_length_1: "length bs = Suc 0 \<Longrightarrow> [hd bs] = bs"
  by (cases bs) auto

text \<open>What a fixed layout of fields needs: the fields are cut out again, put back
  together, and compared from the first on.\<close>

named_theorems codec_simps

lemmas [codec_simps] = word_of_word_bytes word_bytes_of_word word_bytes_less word_bytes_inject
  bytes_less_append less_prod_def less_eq_prod_def

lemma layout_hd: "0 < length bs \<Longrightarrow> hd bs # drop (Suc 0) bs = bs"
  by (cases bs) auto

lemma layout_take: "k = m + n \<Longrightarrow> take n (drop m bs) @ drop k bs = drop m bs"
  by (metis append_take_drop_id drop_drop add.commute)

lemma layout_nth: "k = Suc m \<Longrightarrow> m < length bs \<Longrightarrow> bs ! m # drop k bs = drop m bs"
  by (simp add: Cons_nth_drop_Suc)

lemma layout_last: "length bs = Suc m \<Longrightarrow> take m bs @ [bs ! m] = bs"
  by (metis lessI take_Suc_conv_app_nth take_all_iff order_refl)

named_theorems layout_simps
lemmas [layout_simps] = layout_hd layout_take layout_nth layout_last

section \<open>The contract of a key codec\<close>

locale key_codec =
  fixes enc :: "'k :: linorder \<Rightarrow> bytes" and dec :: "bytes \<Rightarrow> 'k option" and len :: nat
  assumes enc_length: "length (enc k) = len"
    and dec_enc: "dec (enc k) = Some k"
    and dec_length: "length bs \<noteq> len \<Longrightarrow> dec bs = None"
    and enc_dec: "length bs = len \<Longrightarrow> \<exists>k. dec bs = Some k \<and> enc k = bs"
    and enc_order: "bytes_less (enc a) (enc b) \<longleftrightarrow> a < b"
begin

lemma enc_inject: "enc a = enc b \<longleftrightarrow> a = b"
  using dec_enc by (metis option.inject)

lemma dec_defined: "dec bs = Some k \<longleftrightarrow> bs = enc k"
  by (metis dec_enc dec_length enc_dec option.distinct(1) option.inject)

text \<open>Byte order on encoded keys is the order of the keys, so sorting either way agrees.\<close>

lemma sorted_encoded: "sorted_wrt bytes_less (map enc ks) \<longleftrightarrow> sorted_wrt (<) ks"
  by (simp add: sorted_wrt_map enc_order)

end

section \<open>Single-byte keys\<close>

text \<open>The keys of a table whose key is one byte: the discriminant of the metadata row, the
  postage context row and the bin of a counter.\<close>

definition encode_byte_key :: "8 word \<Rightarrow> bytes" where
  "encode_byte_key b = [b]"

definition decode_byte_key :: "bytes \<Rightarrow> 8 word option" where
  "decode_byte_key value = (if length value = 1 then Some (hd value) else None)"

interpretation byte_key: key_codec encode_byte_key decode_byte_key 1
  by unfold_locales (auto simp: encode_byte_key_def decode_byte_key_def bytes_of_length_1)

text \<open>Keys that are one 32-byte hash: chunk and overlay addresses and batch ids.\<close>

definition encode_hash_key :: "b256 \<Rightarrow> bytes" where
  "encode_hash_key h = word_bytes h"

definition decode_hash_key :: "bytes \<Rightarrow> b256 option" where
  "decode_hash_key value = (if length value = 32 then Some (word_of_bytes value) else None)"

interpretation hash_key: key_codec encode_hash_key decode_hash_key 32
  by unfold_locales (auto simp: encode_hash_key_def decode_hash_key_def codec_simps)

end
