(* ===== verification/Reserve_Schema.thy ===== *)
theory Reserve_Schema
  imports Byte_Codec
begin

text \<open>
  The compound keys and rows of the reserve, \<^verbatim>\<open>storer/src/db_reserve/schema.rs\<close>, the stamp
  slot key of \<^verbatim>\<open>postage/src/stampindex.rs\<close> and the interval key of
  \<^verbatim>\<open>storer/src/db_intervals.rs\<close>. Each key has the order the source gives it (the derived
  field order, or for the slot key the order of the encodings) and its codec; each
  interpretation of \<open>key_codec\<close> shows that the encoded bytes sort as the keys do.

  A proximity order and a bin are bytes, addresses, batch ids and hashes are 32-byte
  words. A \<^verbatim>\<open>StampIndex\<close> is a type of another repository; it is identified with the
  8 big-endian bytes \<^verbatim>\<open>to_be_bytes\<close> gives, read as a 64-bit word.
\<close>

section \<open>Entries by proximity\<close>

datatype entry_key = EntryKey (ek_po: "8 word") (ek_batch: b256) (ek_stamp_hash: b256) (ek_addr: b256)

definition entry_key_fields :: "entry_key \<Rightarrow> 8 word \<times> b256 \<times> b256 \<times> b256" where
  "entry_key_fields k = (ek_po k, ek_batch k, ek_stamp_hash k, ek_addr k)"

lemma entry_key_fields_inject: "entry_key_fields a = entry_key_fields b \<longleftrightarrow> a = b"
  by (auto simp: entry_key_fields_def intro: entry_key.expand)

instantiation entry_key :: linorder
begin
definition less_entry_key :: "entry_key \<Rightarrow> entry_key \<Rightarrow> bool" where
  "less_entry_key a b \<longleftrightarrow> entry_key_fields a < entry_key_fields b"
definition less_eq_entry_key :: "entry_key \<Rightarrow> entry_key \<Rightarrow> bool" where
  "less_eq_entry_key a b \<longleftrightarrow> entry_key_fields a \<le> entry_key_fields b"
instance
  by intro_classes (auto simp: less_entry_key_def less_eq_entry_key_def entry_key_fields_inject [symmetric])
end

definition encode_entry_key :: "entry_key \<Rightarrow> bytes" where
  "encode_entry_key k = [ek_po k] @ word_bytes (ek_batch k) @ word_bytes (ek_stamp_hash k) @ word_bytes (ek_addr k)"

definition decode_entry_key :: "bytes \<Rightarrow> entry_key option" where
  "decode_entry_key value =
     (if length value = 97 then Some (EntryKey (hd value) (word_of_bytes (take 32 (drop 1 value))) (word_of_bytes (take 32 (drop 33 value))) (word_of_bytes (drop 65 value))) else None)"

interpretation entry_key: key_codec encode_entry_key decode_entry_key 97
proof
  fix bs :: bytes
  assume "length bs = 97"
  then show "\<exists>k. decode_entry_key bs = Some k \<and> encode_entry_key k = bs"
    by (simp add: encode_entry_key_def decode_entry_key_def codec_simps layout_simps)
qed (auto simp: encode_entry_key_def decode_entry_key_def less_entry_key_def entry_key_fields_def nth_append codec_simps)

section \<open>Entries by batch\<close>

datatype batch_group_key = BatchGroupKey (bg_batch: b256) (bg_po: "8 word") (bg_addr: b256) (bg_stamp_hash: b256)

definition batch_group_key_fields :: "batch_group_key \<Rightarrow> b256 \<times> 8 word \<times> b256 \<times> b256" where
  "batch_group_key_fields k = (bg_batch k, bg_po k, bg_addr k, bg_stamp_hash k)"

lemma batch_group_key_fields_inject: "batch_group_key_fields a = batch_group_key_fields b \<longleftrightarrow> a = b"
  by (auto simp: batch_group_key_fields_def intro: batch_group_key.expand)

instantiation batch_group_key :: linorder
begin
definition less_batch_group_key :: "batch_group_key \<Rightarrow> batch_group_key \<Rightarrow> bool" where
  "less_batch_group_key a b \<longleftrightarrow> batch_group_key_fields a < batch_group_key_fields b"
definition less_eq_batch_group_key :: "batch_group_key \<Rightarrow> batch_group_key \<Rightarrow> bool" where
  "less_eq_batch_group_key a b \<longleftrightarrow> batch_group_key_fields a \<le> batch_group_key_fields b"
instance
  by intro_classes (auto simp: less_batch_group_key_def less_eq_batch_group_key_def batch_group_key_fields_inject [symmetric])
end

definition encode_batch_group_key :: "batch_group_key \<Rightarrow> bytes" where
  "encode_batch_group_key k = word_bytes (bg_batch k) @ [bg_po k] @ word_bytes (bg_addr k) @ word_bytes (bg_stamp_hash k)"

definition decode_batch_group_key :: "bytes \<Rightarrow> batch_group_key option" where
  "decode_batch_group_key value =
     (if length value = 97 then Some (BatchGroupKey (word_of_bytes (take 32 value)) (value ! 32) (word_of_bytes (take 32 (drop 33 value))) (word_of_bytes (drop 65 value))) else None)"

interpretation batch_group_key: key_codec encode_batch_group_key decode_batch_group_key 97
proof
  fix bs :: bytes
  assume "length bs = 97"
  then show "\<exists>k. decode_batch_group_key bs = Some k \<and> encode_batch_group_key k = bs"
    by (simp add: encode_batch_group_key_def decode_batch_group_key_def codec_simps layout_simps)
qed (auto simp: encode_batch_group_key_def decode_batch_group_key_def less_batch_group_key_def batch_group_key_fields_def nth_append codec_simps)

section \<open>Entries in insertion order\<close>

datatype replay_key = ReplayKey (rk_bin: "8 word") (rk_binid: "64 word")

definition replay_key_fields :: "replay_key \<Rightarrow> 8 word \<times> 64 word" where
  "replay_key_fields k = (rk_bin k, rk_binid k)"

lemma replay_key_fields_inject: "replay_key_fields a = replay_key_fields b \<longleftrightarrow> a = b"
  by (auto simp: replay_key_fields_def intro: replay_key.expand)

instantiation replay_key :: linorder
begin
definition less_replay_key :: "replay_key \<Rightarrow> replay_key \<Rightarrow> bool" where
  "less_replay_key a b \<longleftrightarrow> replay_key_fields a < replay_key_fields b"
definition less_eq_replay_key :: "replay_key \<Rightarrow> replay_key \<Rightarrow> bool" where
  "less_eq_replay_key a b \<longleftrightarrow> replay_key_fields a \<le> replay_key_fields b"
instance
  by intro_classes (auto simp: less_replay_key_def less_eq_replay_key_def replay_key_fields_inject [symmetric])
end

definition encode_replay_key :: "replay_key \<Rightarrow> bytes" where
  "encode_replay_key k = [rk_bin k] @ word_bytes (rk_binid k)"

definition decode_replay_key :: "bytes \<Rightarrow> replay_key option" where
  "decode_replay_key value =
     (if length value = 9 then Some (ReplayKey (hd value) (word_of_bytes (drop 1 value))) else None)"

interpretation replay_key: key_codec encode_replay_key decode_replay_key 9
proof
  fix bs :: bytes
  assume "length bs = 9"
  then show "\<exists>k. decode_replay_key bs = Some k \<and> encode_replay_key k = bs"
    by (simp add: encode_replay_key_def decode_replay_key_def codec_simps layout_simps)
qed (auto simp: encode_replay_key_def decode_replay_key_def less_replay_key_def replay_key_fields_def nth_append codec_simps)

section \<open>Sync progress by peer\<close>

datatype peer_bin_key = PeerBinKey (pb_peer: b256) (pb_bin: "8 word")

definition peer_bin_key_fields :: "peer_bin_key \<Rightarrow> b256 \<times> 8 word" where
  "peer_bin_key_fields k = (pb_peer k, pb_bin k)"

lemma peer_bin_key_fields_inject: "peer_bin_key_fields a = peer_bin_key_fields b \<longleftrightarrow> a = b"
  by (auto simp: peer_bin_key_fields_def intro: peer_bin_key.expand)

instantiation peer_bin_key :: linorder
begin
definition less_peer_bin_key :: "peer_bin_key \<Rightarrow> peer_bin_key \<Rightarrow> bool" where
  "less_peer_bin_key a b \<longleftrightarrow> peer_bin_key_fields a < peer_bin_key_fields b"
definition less_eq_peer_bin_key :: "peer_bin_key \<Rightarrow> peer_bin_key \<Rightarrow> bool" where
  "less_eq_peer_bin_key a b \<longleftrightarrow> peer_bin_key_fields a \<le> peer_bin_key_fields b"
instance
  by intro_classes (auto simp: less_peer_bin_key_def less_eq_peer_bin_key_def peer_bin_key_fields_inject [symmetric])
end

definition encode_peer_bin_key :: "peer_bin_key \<Rightarrow> bytes" where
  "encode_peer_bin_key k = word_bytes (pb_peer k) @ [pb_bin k]"

definition decode_peer_bin_key :: "bytes \<Rightarrow> peer_bin_key option" where
  "decode_peer_bin_key value =
     (if length value = 33 then Some (PeerBinKey (word_of_bytes (take 32 value)) (value ! 32)) else None)"

interpretation peer_bin_key: key_codec encode_peer_bin_key decode_peer_bin_key 33
proof
  fix bs :: bytes
  assume "length bs = 33"
  then show "\<exists>k. decode_peer_bin_key bs = Some k \<and> encode_peer_bin_key k = bs"
    by (simp add: encode_peer_bin_key_def decode_peer_bin_key_def codec_simps layout_simps)
qed (auto simp: encode_peer_bin_key_def decode_peer_bin_key_def less_peer_bin_key_def peer_bin_key_fields_def nth_append codec_simps)

section \<open>Stamp slots\<close>

text \<open>The source orders slot keys by their encodings.\<close>

datatype stamp_slot_key = StampSlotKey (slot_batch_id: b256) (slot_stamp_index: "64 word")

definition encode_stamp_slot_key :: "stamp_slot_key \<Rightarrow> bytes" where
  "encode_stamp_slot_key k = word_bytes (slot_batch_id k) @ word_bytes (slot_stamp_index k)"

definition decode_stamp_slot_key :: "bytes \<Rightarrow> stamp_slot_key option" where
  "decode_stamp_slot_key value =
     (if length value = 40
      then Some (StampSlotKey (word_of_bytes (take 32 value)) (word_of_bytes (drop 32 value))) else None)"

lemma encode_stamp_slot_key_less:
  "bytes_less (encode_stamp_slot_key a) (encode_stamp_slot_key b) \<longleftrightarrow>
     (slot_batch_id a, slot_stamp_index a) < (slot_batch_id b, slot_stamp_index b)"
  by (auto simp: encode_stamp_slot_key_def codec_simps)

definition stamp_slot_key_lt :: "stamp_slot_key \<Rightarrow> stamp_slot_key \<Rightarrow> bool" where
  "stamp_slot_key_lt a b \<longleftrightarrow> bytes_less (encode_stamp_slot_key a) (encode_stamp_slot_key b)"

instantiation stamp_slot_key :: linorder
begin
definition less_stamp_slot_key :: "stamp_slot_key \<Rightarrow> stamp_slot_key \<Rightarrow> bool" where
  "less_stamp_slot_key = stamp_slot_key_lt"
definition less_eq_stamp_slot_key :: "stamp_slot_key \<Rightarrow> stamp_slot_key \<Rightarrow> bool" where
  "less_eq_stamp_slot_key a b \<longleftrightarrow> \<not> b < a"
instance
  by intro_classes
    (auto simp: less_stamp_slot_key_def stamp_slot_key_lt_def less_eq_stamp_slot_key_def encode_stamp_slot_key_less
       intro!: stamp_slot_key.expand)
end

interpretation stamp_slot_key: key_codec encode_stamp_slot_key decode_stamp_slot_key 40
proof
  fix bs :: bytes
  assume "length bs = 40"
  then show "\<exists>k. decode_stamp_slot_key bs = Some k \<and> encode_stamp_slot_key k = bs"
    by (simp add: encode_stamp_slot_key_def decode_stamp_slot_key_def codec_simps)
qed (auto simp: encode_stamp_slot_key_def decode_stamp_slot_key_def less_stamp_slot_key_def stamp_slot_key_lt_def codec_simps)

section \<open>Rows\<close>

record payload_value =
  pv_refcnt :: nat
  pv_typed_bytes :: bytes

record entry_value =
  ev_bin :: "8 word"
  ev_binid :: "64 word"
  ev_stamp_bytes :: bytes

record replay_value =
  rv_address :: b256
  rv_batch_id :: b256
  rv_stamp_hash :: b256
  rv_chunk_type :: "8 word"

text \<open>The timestamp of a canonical stamp encoding, read without decoding the stamp.\<close>

definition stamp_timestamp :: "bytes \<Rightarrow> nat" where
  "stamp_timestamp bs = (if 48 \<le> length bs then be_decode (take 8 (drop 40 bs)) else 0)"

section \<open>Properties\<close>

text \<open>C18. Every compound key survives its encoding, and a byte string decodes exactly when
  it is the encoding of a key: a string of any other length is refused.\<close>

theorem reserve_keys_round_trip:
  "(decode_entry_key bs = Some ek \<longleftrightarrow> bs = encode_entry_key ek) \<and>
   (decode_batch_group_key bs = Some bg \<longleftrightarrow> bs = encode_batch_group_key bg) \<and>
   (decode_replay_key bs = Some rk \<longleftrightarrow> bs = encode_replay_key rk) \<and>
   (decode_peer_bin_key bs = Some pb \<longleftrightarrow> bs = encode_peer_bin_key pb) \<and>
   (decode_stamp_slot_key bs = Some sk \<longleftrightarrow> bs = encode_stamp_slot_key sk)"
  by (simp only: entry_key.dec_defined batch_group_key.dec_defined replay_key.dec_defined
      peer_bin_key.dec_defined stamp_slot_key.dec_defined)

text \<open>C19. The byte order of the encodings, which is the order a table keeps its rows in, is
  the order of the fields: entries by proximity first, batch groups by batch and then
  proximity, replay rows by bin and then sequence, intervals by peer, slots by batch.\<close>

theorem key_bytes_sort_by_fields:
  "(bytes_less (encode_entry_key e) (encode_entry_key e') \<longleftrightarrow>
     (ek_po e, ek_batch e, ek_stamp_hash e, ek_addr e) < (ek_po e', ek_batch e', ek_stamp_hash e', ek_addr e')) \<and>
   (bytes_less (encode_batch_group_key g) (encode_batch_group_key g') \<longleftrightarrow>
     (bg_batch g, bg_po g, bg_addr g, bg_stamp_hash g) < (bg_batch g', bg_po g', bg_addr g', bg_stamp_hash g')) \<and>
   (bytes_less (encode_replay_key r) (encode_replay_key r') \<longleftrightarrow> (rk_bin r, rk_binid r) < (rk_bin r', rk_binid r')) \<and>
   (bytes_less (encode_peer_bin_key p) (encode_peer_bin_key p') \<longleftrightarrow> (pb_peer p, pb_bin p) < (pb_peer p', pb_bin p')) \<and>
   (bytes_less (encode_stamp_slot_key s) (encode_stamp_slot_key s') \<longleftrightarrow>
     (slot_batch_id s, slot_stamp_index s) < (slot_batch_id s', slot_stamp_index s'))"
  by (simp only: entry_key.enc_order batch_group_key.enc_order replay_key.enc_order peer_bin_key.enc_order
      less_entry_key_def less_batch_group_key_def less_replay_key_def less_peer_bin_key_def
      entry_key_fields_def batch_group_key_fields_def replay_key_fields_def peer_bin_key_fields_def
      encode_stamp_slot_key_less)

end
