(* ===== verification/Postage.thy ===== *)
theory Postage
  imports Ordered_Table Reserve_Schema
begin

text \<open>
  Postage: admission of a stamped chunk (\<^verbatim>\<open>postage/src/admission.rs\<close>), the newest-wins
  arbiter of a stamp slot (\<^verbatim>\<open>postage/src/stampindex.rs\<close>) and the batch store with its
  on-chain events (\<^verbatim>\<open>postage/src/store.rs\<close>).

  Stamps, batches, the postage context and the hash function belong to other
  repositories. They are type parameters, and the record \<open>postage_lib\<close> holds the
  functions of them the sources call.
\<close>

section \<open>The postage library\<close>

record ('st, 'se, 'b, 'c) postage_lib =
  st_batch :: "'st \<Rightarrow> b256"
  st_stamp_index :: "'st \<Rightarrow> 64 word"
  st_timestamp :: "'st \<Rightarrow> 64 word"
  st_to_bytes :: "'st \<Rightarrow> bytes"
  st_try_from_slice :: "bytes \<Rightarrow> 'se + 'st"
  st_verify :: "'st \<Rightarrow> b256 \<Rightarrow> nat \<Rightarrow> 'se + unit"
  se_is_owner_mismatch :: "'se \<Rightarrow> bool"
  bt_id :: "'b \<Rightarrow> b256"
  bt_owner :: "'b \<Rightarrow> nat"
  bt_value :: "'b \<Rightarrow> nat"
  bt_is_usable :: "'b \<Rightarrow> nat \<Rightarrow> nat \<Rightarrow> bool"
  bt_is_expired :: "'b \<Rightarrow> nat \<Rightarrow> bool"
  bt_validate_index :: "'b \<Rightarrow> 64 word \<Rightarrow> 'se + unit"
  bt_validate_bucket :: "'b \<Rightarrow> 64 word \<Rightarrow> b256 \<Rightarrow> 'se + unit"
  bt_set_value :: "nat \<Rightarrow> 'b \<Rightarrow> 'b"
  bt_set_depth :: "nat \<Rightarrow> 'b \<Rightarrow> 'b"
  cx_block :: "'c \<Rightarrow> nat"
  cx_total_amount :: "'c \<Rightarrow> nat"
  cx_default :: 'c
  keccak256 :: "bytes \<Rightarrow> b256"

section \<open>Admission\<close>

datatype 'se admission_error =
    UnknownBatch b256
  | BatchNotUsable
  | BatchExpired
  | OwnerMismatch
  | StampFailed 'se

record admission_validator =
  av_confirmation_threshold :: nat

definition validate ::
  "('st, 'se, 'b, 'c) postage_lib \<Rightarrow> admission_validator \<Rightarrow> 'st \<Rightarrow> b256 \<Rightarrow> 'b \<Rightarrow> 'c \<Rightarrow>
     'se admission_error + unit" where
  "validate L v stamp address batch context =
     (if \<not> bt_is_usable L batch (cx_block L context) (av_confirmation_threshold v) then Inl BatchNotUsable
      else if bt_is_expired L batch (cx_total_amount L context) then Inl BatchExpired
      else case bt_validate_index L batch (st_stamp_index L stamp) of
        Inl e \<Rightarrow> Inl (StampFailed e)
      | Inr _ \<Rightarrow>
          (case bt_validate_bucket L batch (st_stamp_index L stamp) address of
             Inl e \<Rightarrow> Inl (StampFailed e)
           | Inr _ \<Rightarrow>
               (case st_verify L stamp address (bt_owner L batch) of
                  Inr _ \<Rightarrow> Inr ()
                | Inl e \<Rightarrow> if se_is_owner_mismatch L e then Inl OwnerMismatch else Inl (StampFailed e))))"

section \<open>Stamp slots\<close>

text \<open>A timestamp is the raw 8-byte array of the wire.\<close>

record stamp_index_entry =
  si_timestamp :: bytes
  si_stamp_hash :: b256
  si_address :: b256

definition timestamp_u64 :: "stamp_index_entry \<Rightarrow> nat" where
  "timestamp_u64 e = be_decode (si_timestamp e)"

record incoming_stamp =
  in_batch_id :: b256
  in_stamp_index :: "64 word"
  in_timestamp :: bytes
  in_stamp_hash :: b256
  in_address :: b256

definition incoming_slot :: "incoming_stamp \<Rightarrow> stamp_slot_key" where
  "incoming_slot i = StampSlotKey (in_batch_id i) (in_stamp_index i)"

definition incoming_entry :: "incoming_stamp \<Rightarrow> stamp_index_entry" where
  "incoming_entry i =
     \<lparr>si_timestamp = in_timestamp i, si_stamp_hash = in_stamp_hash i, si_address = in_address i\<rparr>"

record displaced_entry =
  de_address :: b256
  de_stamp_hash :: b256
  de_timestamp :: bytes

datatype reject_reason = NotNewer bytes bytes

datatype arbitration = Admit "displaced_entry option" | Reject reject_reason

definition decide :: "stamp_index_entry option \<Rightarrow> incoming_stamp \<Rightarrow> arbitration" where
  "decide stored incoming =
     (case stored of
        None \<Rightarrow> Admit None
      | Some prev \<Rightarrow>
          if \<not> bytes_less (si_timestamp prev) (in_timestamp incoming)
          then Reject (NotNewer (si_timestamp prev) (in_timestamp incoming))
          else Admit (Some \<lparr>de_address = si_address prev, de_stamp_hash = si_stamp_hash prev,
                            de_timestamp = si_timestamp prev\<rparr>))"

type_synonym stamp_index_table = "(stamp_slot_key, stamp_index_entry) tbl"

definition arbitrate :: "incoming_stamp \<Rightarrow> stamp_index_table \<Rightarrow> arbitration \<times> stamp_index_table" where
  "arbitrate incoming t =
     (let slot = incoming_slot incoming;
          verdict = decide (tbl_get t slot) incoming
      in (verdict, case verdict of Admit _ \<Rightarrow> tbl_put slot (incoming_entry incoming) t | Reject _ \<Rightarrow> t))"

section \<open>The batch store\<close>

record ('b, 'c) batch_db =
  bd_batches :: "(b256, 'b) tbl"
  bd_context :: "(8 word, 'c) tbl"

definition context_key_singleton :: "8 word" where
  "context_key_singleton = 0"

definition mutate_sync :: "b256 \<Rightarrow> ('b \<Rightarrow> 'b) \<Rightarrow> ('b, 'c) batch_db \<Rightarrow> ('b, 'c) batch_db" where
  "mutate_sync i mutate d =
     (case tbl_get (bd_batches d) i of
        Some batch \<Rightarrow> d\<lparr>bd_batches := tbl_put i (mutate batch) (bd_batches d)\<rparr>
      | None \<Rightarrow> d)"

definition batch_get :: "('b, 'c) batch_db \<Rightarrow> b256 \<Rightarrow> 'b option" where
  "batch_get d i = tbl_get (bd_batches d) i"

definition batch_put ::
  "('st, 'se, 'b, 'c) postage_lib \<Rightarrow> 'b \<Rightarrow> ('b, 'c) batch_db \<Rightarrow> ('b, 'c) batch_db" where
  "batch_put L batch d = d\<lparr>bd_batches := tbl_put (bt_id L batch) batch (bd_batches d)\<rparr>"

definition batch_remove :: "b256 \<Rightarrow> ('b, 'c) batch_db \<Rightarrow> bool \<times> ('b, 'c) batch_db" where
  "batch_remove i d = (tbl_exists (bd_batches d) i, d\<lparr>bd_batches := tbl_delete i (bd_batches d)\<rparr>)"

definition acknowledge_expired :: "b256 \<Rightarrow> ('b, 'c) batch_db \<Rightarrow> bool \<times> ('b, 'c) batch_db" where
  "acknowledge_expired i d = batch_remove i d"

definition batch_contains :: "('b, 'c) batch_db \<Rightarrow> b256 \<Rightarrow> bool" where
  "batch_contains d i = tbl_exists (bd_batches d) i"

definition batch_context :: "('st, 'se, 'b, 'c) postage_lib \<Rightarrow> ('b, 'c) batch_db \<Rightarrow> 'c" where
  "batch_context L d =
     (case tbl_get (bd_context d) context_key_singleton of Some c \<Rightarrow> c | None \<Rightarrow> cx_default L)"

definition batch_set_context :: "'c \<Rightarrow> ('b, 'c) batch_db \<Rightarrow> ('b, 'c) batch_db" where
  "batch_set_context c d = d\<lparr>bd_context := tbl_put context_key_singleton c (bd_context d)\<rparr>"

text \<open>The cursor loop of \<^verbatim>\<open>batch_ids\<close>, over the rows the cursor has left.\<close>

fun collect_ids :: "(b256 \<times> 'b) list \<Rightarrow> b256 list \<Rightarrow> b256 list" where
  "collect_ids [] ids = ids"
| "collect_ids ((k, _) # rest) ids = collect_ids rest (ids @ [k])"

definition batch_ids :: "('b, 'c) batch_db \<Rightarrow> b256 list" where
  "batch_ids d = collect_ids (tbl_entries (bd_batches d)) []"

definition batch_count :: "('b, 'c) batch_db \<Rightarrow> nat" where
  "batch_count d = tbl_count (bd_batches d)"

datatype 'b batch_event = Created 'b | TopUp b256 nat | DepthIncrease b256 nat | Expired b256

fun batch_handle_event ::
  "('st, 'se, 'b, 'c) postage_lib \<Rightarrow> 'b batch_event \<Rightarrow> ('b, 'c) batch_db \<Rightarrow> ('b, 'c) batch_db" where
  "batch_handle_event L (Created batch) d = batch_put L batch d"
| "batch_handle_event L (TopUp i new_value) d = mutate_sync i (bt_set_value L new_value) d"
| "batch_handle_event L (DepthIncrease i new_depth) d = mutate_sync i (bt_set_depth L new_depth) d"
| "batch_handle_event L (Expired i) d = snd (acknowledge_expired i d)"

section \<open>Slots hold the newest stamp\<close>

definition admits_stamp :: "arbitration \<Rightarrow> bool" where
  "admits_stamp v \<longleftrightarrow> (case v of Admit _ \<Rightarrow> True | Reject _ \<Rightarrow> False)"

definition incoming_u64 :: "incoming_stamp \<Rightarrow> nat" where
  "incoming_u64 i = be_decode (in_timestamp i)"

definition arbitrate_all :: "incoming_stamp list \<Rightarrow> stamp_index_table \<Rightarrow> stamp_index_table" where
  "arbitrate_all ins t = fold (\<lambda>i t. snd (arbitrate i t)) ins t"

text \<open>What a slot should hold after a sequence of presentations: the stamp presented with
  the greatest timestamp, the earliest of those that tie.\<close>

definition newest_at :: "stamp_slot_key \<Rightarrow> incoming_stamp list \<Rightarrow> nat \<Rightarrow> bool" where
  "newest_at k ins n \<longleftrightarrow>
     n < length ins \<and> incoming_slot (ins ! n) = k \<and>
     (\<forall>m < length ins. incoming_slot (ins ! m) = k \<longrightarrow>
        (if m < n then incoming_u64 (ins ! m) < incoming_u64 (ins ! n)
         else incoming_u64 (ins ! m) \<le> incoming_u64 (ins ! n)))"

definition eight_byte_stamps :: "incoming_stamp list \<Rightarrow> bool" where
  "eight_byte_stamps ins \<longleftrightarrow> (\<forall>i \<in> set ins. length (in_timestamp i) = 8)"

lemma decide_admits:
  assumes "\<And>prev. stored = Some prev \<Longrightarrow> length (si_timestamp prev) = length (in_timestamp i)"
  shows "admits_stamp (decide stored i) \<longleftrightarrow>
    (case stored of None \<Rightarrow> True | Some prev \<Rightarrow> timestamp_u64 prev < incoming_u64 i)"
  using assms
  by (auto simp: admits_stamp_def decide_def timestamp_u64_def incoming_u64_def bytes_less_decode
      split: option.splits)

lemma arbitrate_get:
  "tbl_get (snd (arbitrate i t)) k =
     (if incoming_slot i = k \<and> admits_stamp (decide (tbl_get t k) i) then Some (incoming_entry i) else tbl_get t k)"
  by (auto simp: arbitrate_def Let_def admits_stamp_def split: arbitration.splits)

lemma arbitrate_wf: "tbl_wf t \<Longrightarrow> tbl_wf (snd (arbitrate i t))"
  by (auto simp: arbitrate_def Let_def split: arbitration.splits)

lemma arbitrate_all_snoc: "arbitrate_all (ins @ [i]) t = snd (arbitrate i (arbitrate_all ins t))"
  by (simp add: arbitrate_all_def)

lemma newest_at_snoc_same:
  "newest_at k ins n \<Longrightarrow> incoming_slot i = k \<longrightarrow> incoming_u64 i \<le> incoming_u64 (ins ! n) \<Longrightarrow>
     newest_at k (ins @ [i]) n"
  by (auto simp: newest_at_def nth_append less_Suc_eq)

lemma newest_at_snoc_new:
  "newest_at k ins n \<Longrightarrow> incoming_slot i = k \<Longrightarrow> incoming_u64 (ins ! n) < incoming_u64 i \<Longrightarrow>
     newest_at k (ins @ [i]) (length ins)"
  by (fastforce simp: newest_at_def nth_append less_Suc_eq split: if_splits)

lemma newest_at_snoc_first:
  "\<forall>j \<in> set ins. incoming_slot j \<noteq> k \<Longrightarrow> incoming_slot i = k \<Longrightarrow> newest_at k (ins @ [i]) (length ins)"
  by (auto simp: newest_at_def nth_append less_Suc_eq)

lemma arbitrate_all_newest:
  assumes "eight_byte_stamps ins"
  shows "case tbl_get (arbitrate_all ins []) k of
      None \<Rightarrow> \<forall>j \<in> set ins. incoming_slot j \<noteq> k
    | Some e \<Rightarrow> \<exists>n. newest_at k ins n \<and> e = incoming_entry (ins ! n)"
  using assms
proof (induction ins rule: rev_induct)
  case Nil
  then show ?case by (simp add: arbitrate_all_def)
next
  case (snoc i ins)
  let ?t = "arbitrate_all ins []"
  have IH: "case tbl_get ?t k of
      None \<Rightarrow> \<forall>j \<in> set ins. incoming_slot j \<noteq> k
    | Some e \<Rightarrow> \<exists>n. newest_at k ins n \<and> e = incoming_entry (ins ! n)"
    using snoc by (simp add: eight_byte_stamps_def)
  show ?case
  proof (cases "tbl_get ?t k")
    case None
    then show ?thesis using IH newest_at_snoc_first [of ins k i]
      by (auto simp: arbitrate_all_snoc arbitrate_get admits_stamp_def decide_def)
  next
    case (Some e)
    then obtain n where n: "newest_at k ins n" "e = incoming_entry (ins ! n)" using IH by auto
    have "length (si_timestamp e) = length (in_timestamp i)"
      using n snoc.prems by (simp add: incoming_entry_def newest_at_def eight_byte_stamps_def)
    then have adm: "admits_stamp (decide (tbl_get ?t k) i) \<longleftrightarrow> incoming_u64 (ins ! n) < incoming_u64 i"
      using decide_admits [of "tbl_get ?t k" i] Some n(2)
      by (simp add: timestamp_u64_def incoming_u64_def incoming_entry_def)
    have len: "n < length ins" using n(1) by (simp add: newest_at_def)
    show ?thesis
    proof (cases "incoming_slot i = k \<and> incoming_u64 (ins ! n) < incoming_u64 i")
      case True
      then have "tbl_get (arbitrate_all (ins @ [i]) []) k = Some (incoming_entry ((ins @ [i]) ! length ins))"
        using adm by (simp add: arbitrate_all_snoc arbitrate_get)
      moreover have "newest_at k (ins @ [i]) (length ins)" using newest_at_snoc_new [OF n(1)] True by blast
      ultimately show ?thesis by (simp only: option.case) blast
    next
      case False
      then have "tbl_get (arbitrate_all (ins @ [i]) []) k = Some (incoming_entry ((ins @ [i]) ! n))"
        using adm Some n(2) len by (auto simp: arbitrate_all_snoc arbitrate_get nth_append)
      moreover have "newest_at k (ins @ [i]) n" using newest_at_snoc_same [OF n(1)] False by auto
      ultimately show ?thesis by (simp only: option.case) blast
    qed
  qed
qed

section \<open>The batch store follows the events\<close>

text \<open>The batch set as the chain describes it: a map from id to batch.\<close>

fun apply_batch_event ::
  "('st, 'se, 'b, 'c) postage_lib \<Rightarrow> 'b batch_event \<Rightarrow> (b256 \<rightharpoonup> 'b) \<Rightarrow> (b256 \<rightharpoonup> 'b)" where
  "apply_batch_event L (Created b) m = m(bt_id L b \<mapsto> b)"
| "apply_batch_event L (TopUp i v) m = m(i := map_option (bt_set_value L v) (m i))"
| "apply_batch_event L (DepthIncrease i dp) m = m(i := map_option (bt_set_depth L dp) (m i))"
| "apply_batch_event L (Expired i) m = m(i := None)"

definition batches_wf :: "('st, 'se, 'b, 'c) postage_lib \<Rightarrow> ('b, 'c) batch_db \<Rightarrow> bool" where
  "batches_wf L d \<longleftrightarrow>
     tbl_wf (bd_batches d) \<and> (\<forall>i b. batch_get d i = Some b \<longrightarrow> bt_id L b = i)"

text \<open>The setters of a batch keep its id.\<close>

definition setters_keep_id :: "('st, 'se, 'b, 'c) postage_lib \<Rightarrow> bool" where
  "setters_keep_id L \<longleftrightarrow>
     (\<forall>v b. bt_id L (bt_set_value L v b) = bt_id L b) \<and> (\<forall>v b. bt_id L (bt_set_depth L v b) = bt_id L b)"

lemma batch_event_get: "batch_get (batch_handle_event L e d) = apply_batch_event L e (batch_get d)"
  by (cases e)
    (auto simp: batch_get_def batch_put_def mutate_sync_def acknowledge_expired_def batch_remove_def fun_eq_iff
      split: option.splits)

lemma batch_event_table_wf: "tbl_wf (bd_batches d) \<Longrightarrow> tbl_wf (bd_batches (batch_handle_event L e d))"
  by (cases e) (auto simp: batch_put_def mutate_sync_def acknowledge_expired_def batch_remove_def split: option.splits)

lemma batch_event_wf:
  assumes "setters_keep_id L" and "batches_wf L d"
  shows "batches_wf L (batch_handle_event L e d)"
  using assms unfolding batches_wf_def batch_event_get
  by (cases e) (auto simp: setters_keep_id_def batch_event_table_wf simp del: batch_handle_event.simps)

lemma collect_ids_append: "collect_ids rows ids = ids @ map fst rows"
  by (induction rows ids rule: collect_ids.induct) auto

lemma batch_ids_sorted:
  assumes "tbl_wf (bd_batches d)"
  shows "sorted_wrt (<) (batch_ids d) \<and> set (batch_ids d) = dom (batch_get d) \<and>
    length (batch_ids d) = batch_count d"
proof -
  have "batch_get d = map_of (bd_batches d)" by (simp add: fun_eq_iff batch_get_def tbl_get_def)
  then show ?thesis using assms
    by (simp add: batch_ids_def collect_ids_append tbl_entries_def tbl_wf_def batch_count_def tbl_count_def
        dom_map_of_conv_image_fst)
qed

section \<open>A concrete library\<close>

text \<open>A small instance of the library, on which every assumption made of it holds: a stamp
  is one word that holds its batch, index and timestamp.\<close>

definition sample_lib :: "(b256, unit, b256 \<times> nat \<times> nat, nat) postage_lib" where
  "sample_lib = \<lparr>
     st_batch = \<lambda>s. drop_bit 128 s,
     st_stamp_index = \<lambda>s. ucast (drop_bit 64 s),
     st_timestamp = \<lambda>s. ucast s,
     st_to_bytes = \<lambda>s. word_bytes s @ replicate 8 0 @ word_bytes (ucast s :: 64 word),
     st_try_from_slice = \<lambda>bs. Inr (word_of_bytes (take 32 bs)),
     st_verify = \<lambda>s a w. Inr (),
     se_is_owner_mismatch = \<lambda>e. False,
     bt_id = fst,
     bt_owner = \<lambda>b. 0,
     bt_value = \<lambda>b. fst (snd b),
     bt_is_usable = \<lambda>b n t. True,
     bt_is_expired = \<lambda>b n. fst (snd b) \<le> n,
     bt_validate_index = \<lambda>b i. Inr (),
     bt_validate_bucket = \<lambda>b i a. Inr (),
     bt_set_value = \<lambda>v b. (fst b, v, snd (snd b)),
     bt_set_depth = \<lambda>dp b. (fst b, fst (snd b), dp),
     cx_block = id,
     cx_total_amount = id,
     cx_default = 0,
     keccak256 = \<lambda>bs. word_of_bytes (take 32 bs)\<rparr>"

lemma sample_setters: "setters_keep_id sample_lib"
  by (simp add: setters_keep_id_def sample_lib_def)

section \<open>Properties\<close>

text \<open>Admission is decided by exactly five checks: a stamped chunk is admitted if and
  only if its batch is usable and not expired, the stamp's index and bucket fit, and the
  signature verifies for the batch owner; the first check that fails names the refusal,
  and a wrong signer is told apart from every other signature failure.\<close>

lemma admission_decided_by_checks:
  "(validate L v stamp address batch context = Inr () \<longleftrightarrow>
      bt_is_usable L batch (cx_block L context) (av_confirmation_threshold v) \<and>
      \<not> bt_is_expired L batch (cx_total_amount L context) \<and>
      bt_validate_index L batch (st_stamp_index L stamp) = Inr () \<and>
      bt_validate_bucket L batch (st_stamp_index L stamp) address = Inr () \<and>
      st_verify L stamp address (bt_owner L batch) = Inr ()) \<and>
   (validate L v stamp address batch context = Inl OwnerMismatch \<longleftrightarrow>
      bt_is_usable L batch (cx_block L context) (av_confirmation_threshold v) \<and>
      \<not> bt_is_expired L batch (cx_total_amount L context) \<and>
      bt_validate_index L batch (st_stamp_index L stamp) = Inr () \<and>
      bt_validate_bucket L batch (st_stamp_index L stamp) address = Inr () \<and>
      (\<exists>e. st_verify L stamp address (bt_owner L batch) = Inl e \<and> se_is_owner_mismatch L e)) \<and>
   validate L v stamp address batch context \<noteq> Inl (UnknownBatch i)"
  by (auto simp: validate_def split: sum.splits)

text \<open>The byte-wise comparison of the arbiter is the numeric one: for 8-byte timestamps
  an occupied slot admits a stamp exactly when its timestamp is greater as a number, and
  equal timestamps are rejected.\<close>

lemma decide_compares_numerically:
  assumes "length (si_timestamp prev) = 8" and "length (in_timestamp i) = 8"
  shows "decide (Some prev) i =
    (if incoming_u64 i \<le> timestamp_u64 prev
     then Reject (NotNewer (si_timestamp prev) (in_timestamp i))
     else Admit (Some \<lparr>de_address = si_address prev, de_stamp_hash = si_stamp_hash prev,
                       de_timestamp = si_timestamp prev\<rparr>))"
  using assms
  by (simp add: decide_def bytes_less_decode timestamp_u64_def incoming_u64_def not_less linorder_not_le)

text \<open>C9. Whatever sequence of stamps is presented, each slot ends up with exactly the
  newest stamp of that slot: the one with the greatest timestamp, the first presented of
  those that tie; slots no stamp named stay empty.\<close>

theorem slot_holds_newest:
  assumes "eight_byte_stamps ins"
  shows "(tbl_get (arbitrate_all ins []) k = None \<longleftrightarrow> (\<forall>j \<in> set ins. incoming_slot j \<noteq> k)) \<and>
    (\<forall>e. tbl_get (arbitrate_all ins []) k = Some e \<longrightarrow>
       (\<exists>n. newest_at k ins n \<and> e = incoming_entry (ins ! n)))"
proof -
  note spec = arbitrate_all_newest [OF assms, of k]
  have "\<exists>j \<in> set ins. incoming_slot j = k" if "newest_at k ins n" for n
    using that nth_mem unfolding newest_at_def by blast
  then show ?thesis using spec by (auto split: option.splits)
qed

theorem slot_holds_newest_witness:
  "\<exists>n. newest_at (StampSlotKey 7 0)
     [\<lparr>in_batch_id = 7, in_stamp_index = 0, in_timestamp = [0, 0, 0, 0, 0, 0, 0, 9], in_stamp_hash = 1, in_address = 1\<rparr>,
      \<lparr>in_batch_id = 7, in_stamp_index = 0, in_timestamp = [0, 0, 0, 0, 0, 0, 0, 5], in_stamp_hash = 2, in_address = 2\<rparr>] n"
proof -
  define ins where "ins =
    [\<lparr>in_batch_id = 7, in_stamp_index = 0, in_timestamp = [0, 0, 0, 0, 0, 0, 0, 9], in_stamp_hash = 1, in_address = 1\<rparr>,
     \<lparr>in_batch_id = 7, in_stamp_index = 0, in_timestamp = [0, 0, 0, 0, 0, 0, 0, 5], in_stamp_hash = 2, in_address = 2 :: b256\<rparr>]"
  have "eight_byte_stamps ins" by (simp add: ins_def eight_byte_stamps_def)
  from slot_holds_newest [OF this, of "StampSlotKey 7 0"]
  have "\<exists>n. newest_at (StampSlotKey 7 0) ins n"
    by (cases "tbl_get (arbitrate_all ins []) (StampSlotKey 7 0)") (auto simp: ins_def incoming_slot_def)
  then show ?thesis by (simp add: ins_def)
qed

text \<open>C14. The batch store implements the event stream: from any well-formed store, after
  any sequence of events, a lookup is what the events say of the batch set (unknown
  batches are left alone), every row still sits under its batch's id, and the listed ids
  are exactly the known batches in order, as many as the count reports.\<close>

theorem batch_store_follows_events:
  assumes "setters_keep_id L" and "batches_wf L d"
  shows "batch_get (fold (batch_handle_event L) es d) = fold (apply_batch_event L) es (batch_get d) \<and>
    batches_wf L (fold (batch_handle_event L) es d) \<and>
    set (batch_ids (fold (batch_handle_event L) es d)) = dom (fold (apply_batch_event L) es (batch_get d)) \<and>
    sorted_wrt (<) (batch_ids (fold (batch_handle_event L) es d)) \<and>
    batch_count (fold (batch_handle_event L) es d) = card (dom (fold (apply_batch_event L) es (batch_get d)))"
proof -
  have get: "batch_get (fold (batch_handle_event L) es d) = fold (apply_batch_event L) es (batch_get d)" for d
    by (induction es arbitrary: d) (auto simp: batch_event_get)
  have wf: "batches_wf L (fold (batch_handle_event L) es d)"
    using assms(2) by (induction es arbitrary: d) (auto simp: batch_event_wf [OF assms(1)])
  let ?d = "fold (batch_handle_event L) es d"
  note ids = batch_ids_sorted [of ?d]
  have set: "set (batch_ids ?d) = dom (fold (apply_batch_event L) es (batch_get d))"
    using ids wf unfolding get [of d, symmetric] by (simp add: batches_wf_def)
  have "distinct (batch_ids ?d)" using ids wf by (simp add: batches_wf_def strict_sorted_iff)
  then have "batch_count ?d = card (dom (fold (apply_batch_event L) es (batch_get d)))"
    using ids wf distinct_card set by (metis batches_wf_def)
  then show ?thesis using get wf ids set by (auto simp: batches_wf_def)
qed

theorem batch_store_follows_events_witness:
  "batch_ids (fold (batch_handle_event sample_lib)
     [Created (9, 100, 20), TopUp 9 250, TopUp 4 1, Created (3, 50, 17), Expired 3]
     \<lparr>bd_batches = [], bd_context = []\<rparr>) = [9] \<and>
   batch_get (fold (batch_handle_event sample_lib)
     [Created (9, 100, 20), TopUp 9 250, TopUp 4 1, Created (3, 50, 17), Expired 3]
     \<lparr>bd_batches = [], bd_context = []\<rparr>) 9 = Some (9, 250, 20)"
proof -
  have "batches_wf sample_lib \<lparr>bd_batches = [], bd_context = []\<rparr>"
    by (simp add: batches_wf_def batch_get_def)
  from batch_store_follows_events [OF sample_setters this,
      of "[Created (9, 100, 20), TopUp 9 250, TopUp 4 1, Created (3, 50, 17), Expired 3]"]
  have "batch_get (fold (batch_handle_event sample_lib)
     [Created (9, 100, 20), TopUp 9 250, TopUp 4 1, Created (3, 50, 17), Expired 3]
     \<lparr>bd_batches = [], bd_context = []\<rparr>) 9 = Some (9, 250, 20)"
    by (simp add: sample_lib_def batch_get_def del: batch_handle_event.simps)
  moreover have "batch_ids (fold (batch_handle_event sample_lib)
     [Created (9, 100, 20), TopUp 9 250, TopUp 4 1, Created (3, 50, 17), Expired 3]
     \<lparr>bd_batches = [], bd_context = []\<rparr>) = [9]"
    by (simp add: sample_lib_def batch_put_def mutate_sync_def acknowledge_expired_def batch_remove_def
        batch_ids_def tbl_get_def tbl_delete_def tbl_entries_def)
  ultimately show ?thesis by simp
qed

end
