(* ===== verification/Capacity_Reserve.thy ===== *)
theory Capacity_Reserve
  imports Ordered_Table Byte_Codec
begin

text \<open>
  The chunk store over one table (\<^verbatim>\<open>storer/src/db_store.rs\<close>) and the capacity tracker that
  evicts from it (\<^verbatim>\<open>storer/src/reserve.rs\<close>). A callback of \<^verbatim>\<open>for_each\<close> captures state; it
  is a function from the address and that state to the new state and whether to go on.
  Proximity is a function of the address library and a parameter.
\<close>

section \<open>The chunk store\<close>

type_synonym chunk_table = "(b256, bytes) tbl"

definition chunk_put :: "b256 \<Rightarrow> bytes \<Rightarrow> chunk_table \<Rightarrow> chunk_table" where
  "chunk_put address data t = (if \<not> tbl_exists t address then tbl_put address data t else t)"

definition chunk_get :: "b256 \<Rightarrow> chunk_table \<Rightarrow> bytes option" where
  "chunk_get address t = tbl_get t address"

definition chunk_contains :: "b256 \<Rightarrow> chunk_table \<Rightarrow> bool" where
  "chunk_contains address t = tbl_exists t address"

definition chunk_delete :: "b256 \<Rightarrow> chunk_table \<Rightarrow> chunk_table" where
  "chunk_delete address t = tbl_delete address t"

definition chunk_count :: "chunk_table \<Rightarrow> nat" where
  "chunk_count t = tbl_count t"

text \<open>The cursor loop of \<^verbatim>\<open>for_each\<close>, over the rows left from the cursor on.\<close>

fun for_each_rows :: "(b256 \<Rightarrow> 's \<Rightarrow> bool \<times> 's) \<Rightarrow> (b256 \<times> bytes) list \<Rightarrow> 's \<Rightarrow> 's" where
  "for_each_rows callback [] s = s"
| "for_each_rows callback ((address, _) # entry) s =
     (case callback address s of (go, s') \<Rightarrow> if \<not> go then s' else for_each_rows callback entry s')"

definition for_each :: "(b256 \<Rightarrow> 's \<Rightarrow> bool \<times> 's) \<Rightarrow> chunk_table \<Rightarrow> 's \<Rightarrow> 's" where
  "for_each callback t s = for_each_rows callback (tbl_entries t) s"

section \<open>The capacity tracker\<close>

datatype eviction_strategy = NoEviction | EvictOldest | EvictFurthest

datatype storer_error = StorageFull nat nat

record reserve =
  rs_capacity :: nat
  rs_count :: nat
  rs_strategy :: eviction_strategy
  rs_overlay :: "b256 option"

definition reserve_with_strategy :: "nat \<Rightarrow> eviction_strategy \<Rightarrow> reserve" where
  "reserve_with_strategy capacity strategy =
     \<lparr>rs_capacity = capacity, rs_count = 0, rs_strategy = strategy, rs_overlay = None\<rparr>"

definition reserve_new :: "nat \<Rightarrow> reserve" where
  "reserve_new capacity = reserve_with_strategy capacity NoEviction"

definition with_identity :: "b256 \<Rightarrow> reserve \<Rightarrow> reserve" where
  "with_identity overlay r = r\<lparr>rs_overlay := Some overlay\<rparr>"

definition initialize_from :: "chunk_table \<Rightarrow> reserve \<Rightarrow> reserve" where
  "initialize_from t r = r\<lparr>rs_count := chunk_count t\<rparr>"

definition set_count :: "nat \<Rightarrow> reserve \<Rightarrow> reserve" where
  "set_count n r = r\<lparr>rs_count := n\<rparr>"

definition available :: "reserve \<Rightarrow> nat" where
  "available r = rs_capacity r - rs_count r"

definition has_room :: "reserve \<Rightarrow> bool" where
  "has_room r \<longleftrightarrow> rs_count r < rs_capacity r"

text \<open>The percentage: the product wraps at 64 bits and the cast keeps the low byte.\<close>

definition utilization :: "reserve \<Rightarrow> nat" where
  "utilization r =
     (if rs_capacity r = 0 then 100
      else ((rs_count r * 100) mod u64_modulus div rs_capacity r) mod 256)"

definition on_added :: "reserve \<Rightarrow> reserve" where
  "on_added r = r\<lparr>rs_count := u64_wrapping_add (rs_count r) 1\<rparr>"

definition on_removed_n :: "nat \<Rightarrow> reserve \<Rightarrow> reserve" where
  "on_removed_n n r = r\<lparr>rs_count := rs_count r - n\<rparr>"

definition on_removed :: "reserve \<Rightarrow> reserve" where
  "on_removed r = r\<lparr>rs_count := rs_count r - 1\<rparr>"

definition evict_oldest :: "reserve \<Rightarrow> chunk_table \<Rightarrow> (storer_error + unit) \<times> reserve \<times> chunk_table" where
  "evict_oldest r t =
     (let to_evict = for_each (\<lambda>addr _. (False, Some addr)) t None
      in case to_evict of
           Some addr \<Rightarrow> (Inr (), on_removed r, chunk_delete addr t)
         | None \<Rightarrow> (Inl (StorageFull (rs_capacity r) 0), r, t))"

definition furthest_callback ::
  "(b256 \<Rightarrow> b256 \<Rightarrow> nat) \<Rightarrow> b256 \<Rightarrow> b256 \<Rightarrow> (nat \<times> b256) option \<Rightarrow> bool \<times> (nat \<times> b256) option" where
  "furthest_callback proximity overlay addr furthest =
     (let po = proximity addr overlay
      in (True, case furthest of
                  None \<Rightarrow> Some (po, addr)
                | Some (best, _) \<Rightarrow> if po < best then Some (po, addr) else furthest))"

definition evict_furthest ::
  "(b256 \<Rightarrow> b256 \<Rightarrow> nat) \<Rightarrow> b256 \<Rightarrow> reserve \<Rightarrow> chunk_table \<Rightarrow> (storer_error + unit) \<times> reserve \<times> chunk_table" where
  "evict_furthest proximity overlay r t =
     (let furthest = for_each (furthest_callback proximity overlay) t None
      in case furthest of
           Some (_, addr) \<Rightarrow> (Inr (), on_removed r, chunk_delete addr t)
         | None \<Rightarrow> (Inl (StorageFull (rs_capacity r) 0), r, t))"

definition try_reserve ::
  "(b256 \<Rightarrow> b256 \<Rightarrow> nat) \<Rightarrow> reserve \<Rightarrow> chunk_table \<Rightarrow> (storer_error + unit) \<times> reserve \<times> chunk_table" where
  "try_reserve proximity r t =
     (if has_room r then (Inr (), r, t)
      else case rs_strategy r of
             NoEviction \<Rightarrow> (Inl (StorageFull (rs_capacity r) (rs_count r)), r, t)
           | EvictOldest \<Rightarrow> evict_oldest r t
           | EvictFurthest \<Rightarrow>
               (case rs_overlay r of
                  Some overlay \<Rightarrow> evict_furthest proximity overlay r t
                | None \<Rightarrow> evict_oldest r t))"

record reserve_stats =
  stat_capacity :: nat
  stat_count :: nat
  stat_available :: nat
  stat_utilization :: nat

definition stats :: "reserve \<Rightarrow> reserve_stats" where
  "stats r = \<lparr>stat_capacity = rs_capacity r, stat_count = rs_count r, stat_available = available r,
              stat_utilization = utilization r\<rparr>"

section \<open>What is evicted\<close>

definition in_step :: "reserve \<Rightarrow> chunk_table \<Rightarrow> bool" where
  "in_step r t \<longleftrightarrow> tbl_wf t \<and> rs_count r = chunk_count t"

lemma for_each_first: "for_each (\<lambda>addr _. (False, Some addr)) t None = tbl_first_key t"
  by (cases t) (auto simp: for_each_def tbl_first_key_def tbl_first_def tbl_entries_def)

lemma furthest_callback_step:
  "furthest_callback P ov k None = (True, Some (P k ov, k))"
  "furthest_callback P ov k (Some (best, addr)) =
     (True, Some (if P k ov < best then (P k ov, k) else (best, addr)))"
  by (simp_all add: furthest_callback_def Let_def)

text \<open>The scan keeps the first address of least proximity.\<close>

lemma for_each_furthest:
  "for_each_rows (furthest_callback P ov) rows (Some (best, addr)) = Some (p, a) \<Longrightarrow>
     p \<le> best \<and> (\<forall>r \<in> set rows. p \<le> P (fst r) ov) \<and>
     ((p, a) = (best, addr) \<or> p < best \<and> p = P a ov \<and> a \<in> fst ` set rows)"
proof (induction rows arbitrary: best addr)
  case (Cons r rows)
  obtain k v where r: "r = (k, v)" by fastforce
  show ?case
  proof (cases "P k ov < best")
    case True
    then have "for_each_rows (furthest_callback P ov) rows (Some (P k ov, k)) = Some (p, a)"
      using Cons.prems by (simp add: r furthest_callback_step)
    from Cons.IH [OF this] show ?thesis using True by (auto simp: r)
  next
    case False
    then have "for_each_rows (furthest_callback P ov) rows (Some (best, addr)) = Some (p, a)"
      using Cons.prems by (simp add: r furthest_callback_step)
    from Cons.IH [OF this] show ?thesis using False by (auto simp: r)
  qed
qed simp

lemma for_each_some: "\<exists>q. for_each_rows (furthest_callback P ov) rows (Some x) = Some q"
  by (induction rows arbitrary: x) (auto simp: furthest_callback_step)

lemma furthest_found:
  assumes "t \<noteq> []"
  obtains p a where "for_each (furthest_callback P ov) t None = Some (p, a)"
    and "a \<in> fst ` set t" and "p = P a ov" and "\<forall>b \<in> fst ` set t. P a ov \<le> P b ov"
proof -
  obtain k v rows where t: "t = (k, v) # rows" using assms by (cases t) auto
  have step: "for_each (furthest_callback P ov) t None =
      for_each_rows (furthest_callback P ov) rows (Some (P k ov, k))"
    by (simp add: t for_each_def tbl_entries_def furthest_callback_step)
  obtain p a where pa: "for_each_rows (furthest_callback P ov) rows (Some (P k ov, k)) = Some (p, a)"
    using for_each_some by (metis surj_pair)
  from for_each_furthest [OF this]
  have "a \<in> fst ` set t" "p = P a ov" "\<forall>b \<in> fst ` set t. P a ov \<le> P b ov" by (auto simp: t)
  with that [of p a] step pa show ?thesis by simp
qed

lemma chunk_delete_count:
  "tbl_wf t \<Longrightarrow> a \<in> fst ` set t \<Longrightarrow> chunk_count t = Suc (chunk_count (chunk_delete a t))"
  using tbl_delete_count [of t a] tbl_get_None [of t a]
  by (auto simp: chunk_count_def chunk_delete_def)

section \<open>Properties\<close>

text \<open>A full reserve that evicts always makes room: with the counter in step with the
  store and within a non-zero capacity, a reservation under an evicting strategy
  succeeds, leaves a free slot and the counter in step, and removes nothing if there was
  room and otherwise exactly one chunk, which under the furthest strategy has the least
  proximity to the overlay of all stored chunks.\<close>

lemma try_reserve_makes_room:
  assumes "in_step r t" and "rs_strategy r \<noteq> NoEviction" and "0 < rs_capacity r" and "rs_count r \<le> rs_capacity r"
    and "try_reserve P r t = (res, r', t')"
  shows "res = Inr () \<and> has_room r' \<and> in_step r' t' \<and>
    (if has_room r then t' = t
     else \<exists>a. a \<in> fst ` set t \<and> t' = chunk_delete a t \<and>
       (\<forall>ov. rs_strategy r = EvictFurthest \<and> rs_overlay r = Some ov \<longrightarrow> (\<forall>b \<in> fst ` set t. P a ov \<le> P b ov)))"
proof (cases "has_room r")
  case True
  then show ?thesis using assms by (auto simp: try_reserve_def)
next
  case False
  have "0 < chunk_count t" using assms False by (simp add: in_step_def has_room_def)
  then have "t \<noteq> []" by (auto simp: chunk_count_def tbl_count_def)
  have evict: ?thesis
    if "a \<in> fst ` set t" "(res, r', t') = (Inr (), on_removed r, chunk_delete a t)"
      "\<forall>ov. rs_strategy r = EvictFurthest \<and> rs_overlay r = Some ov \<longrightarrow> (\<forall>b \<in> fst ` set t. P a ov \<le> P b ov)" for a
    using that assms False chunk_delete_count [of t a] \<open>t \<noteq> []\<close>
    by (auto simp: in_step_def has_room_def on_removed_def chunk_delete_def)
  obtain k v rows where t: "t = (k, v) # rows" using \<open>t \<noteq> []\<close> by (cases t) auto
  have oldest: "evict_oldest r t = (Inr (), on_removed r, chunk_delete k t)"
    by (simp add: evict_oldest_def for_each_first) (simp add: t tbl_first_key_def tbl_first_def)
  show ?thesis
  proof (cases "rs_strategy r = EvictFurthest \<and> rs_overlay r \<noteq> None")
    case True
    then obtain ov where ov: "rs_overlay r = Some ov" by auto
    obtain p a where "for_each (furthest_callback P ov) t None = Some (p, a)"
      "a \<in> fst ` set t" "\<forall>b \<in> fst ` set t. P a ov \<le> P b ov"
      using furthest_found [OF \<open>t \<noteq> []\<close>, where P = P and ov = ov] by metis
    then show ?thesis
      using evict [of a] assms(5) True False ov by (simp add: try_reserve_def evict_furthest_def)
  next
    case no_ranking: False
    then have "try_reserve P r t = evict_oldest r t"
      using assms(2) False by (cases "rs_strategy r") (auto simp: try_reserve_def split: option.splits)
    then show ?thesis using evict [of k] assms(5) no_ranking oldest by (auto simp: t)
  qed
qed

text \<open>A reserve that does not evict refuses when full and changes nothing, and the
  error names the capacity and the use; and an evicting reserve with nothing to evict
  reports the same error rather than pretending to have room.\<close>

lemma try_reserve_refuses:
  assumes "\<not> has_room r"
  shows "(rs_strategy r = NoEviction \<longrightarrow>
      try_reserve P r t = (Inl (StorageFull (rs_capacity r) (rs_count r)), r, t)) \<and>
    (rs_strategy r \<noteq> NoEviction \<longrightarrow> try_reserve P r [] = (Inl (StorageFull (rs_capacity r) 0), r, []))"
  using assms
  by (cases "rs_strategy r")
    (auto simp: try_reserve_def evict_oldest_def evict_furthest_def for_each_def tbl_entries_def split: option.splits)

text \<open>The utilization is a percentage only up to 255 per cent of the capacity: within
  that range and without overflow it is the quotient, but past it the cast to a byte
  wraps, and a reserve at 256 per cent reports itself empty.\<close>

lemma utilization_wraps:
  "(0 < rs_capacity r \<and> rs_count r * 100 < u64_modulus \<and> rs_count r * 100 < 256 * rs_capacity r \<longrightarrow>
      utilization r = rs_count r * 100 div rs_capacity r) \<and>
   (rs_count r \<le> rs_capacity r \<and> rs_capacity r * 100 < u64_modulus \<longrightarrow> utilization r \<le> 100) \<and>
   utilization \<lparr>rs_capacity = 100, rs_count = 256, rs_strategy = NoEviction, rs_overlay = None\<rparr> = 0"
proof -
  have "rs_count r * 100 div rs_capacity r < 256"
    if "0 < rs_capacity r" "rs_count r * 100 < 256 * rs_capacity r"
    using that by (simp add: less_mult_imp_div_less)
  moreover have "rs_count r * 100 div rs_capacity r \<le> 100" if "0 < rs_capacity r" "rs_count r \<le> rs_capacity r"
    using that div_le_mono [of "rs_count r * 100" "rs_capacity r * 100" "rs_capacity r"] by simp
  ultimately show ?thesis by (auto simp: utilization_def)
qed

end
