(* ===== verification/Db_Reserve.thy ===== *)
theory Db_Reserve
  imports Postage Capacity_Reserve
begin

text \<open>
  The persisting reserve, \<^verbatim>\<open>storer/src/db_reserve/tx.rs\<close> and \<^verbatim>\<open>store.rs\<close>: its seven tables,
  the per-entry transaction primitives, the put, get and remove of stamped chunks, the
  eviction verbs and the insertion-order scan. One operation of the source is one
  transaction; here it is a function of the state, and a failing transaction leaves the
  tables as they were (\<open>db_update\<close>). The chunk type, its serialization, proximity and bin
  are functions of the address and chunk libraries and fields of \<open>reserve_env\<close>.
\<close>

section \<open>State\<close>

record ('st, 'se, 'b, 'c, 'ch) reserve_env =
  env_postage :: "('st, 'se, 'b, 'c) postage_lib"
  env_proximity :: "b256 \<Rightarrow> b256 \<Rightarrow> 8 word"
  env_bin :: "b256 \<Rightarrow> b256 \<Rightarrow> 8 word"
  env_max_po :: "8 word"
  env_chunk_address :: "'ch \<Rightarrow> b256"
  env_chunk_type :: "'ch \<Rightarrow> 8 word"
  env_to_typed_bytes :: "'ch \<Rightarrow> bytes"
  env_from_typed_bytes :: "b256 \<Rightarrow> bytes \<Rightarrow> 'ch option"

record reserve_tables =
  rt_payload :: "(b256, payload_value) tbl"
  rt_entry :: "(entry_key, entry_value) tbl"
  rt_batch_group :: "(batch_group_key, unit) tbl"
  rt_replay :: "(replay_key, replay_value) tbl"
  rt_bin_counter :: "(8 word, 64 word) tbl"
  rt_stamp_index :: stamp_index_table
  rt_metadata :: "(8 word, 64 word) tbl"

record ('b, 'c) db_reserve =
  dr_tables :: reserve_tables
  dr_admission :: admission_validator
  dr_batches :: "('b, 'c) batch_db"
  dr_reserve :: reserve
  dr_overlay :: b256
  dr_radius :: "8 word"
  dr_epoch :: "64 word"

record evict_target =
  et_batch :: b256
  et_stamp_hash :: b256
  et_addr :: b256

record ('ch, 'st) cached_chunk =
  cc_chunk :: 'ch
  cc_stamp :: "'st option"

datatype 'se swarm_error =
    StamplessChunk b256
  | UnknownBatchOf b256 b256
  | AdmissionFailed b256 "'se admission_error"
  | CounterExhausted "8 word"
  | StampUndecodable b256 'se
  | BodyUndecodable b256

datatype put_outcome = Admitted | Restamped | Rejected

definition epoch_key :: "8 word" where
  "epoch_key = 0"

definition stamp_hash :: "('st, 'se, 'b, 'c) postage_lib \<Rightarrow> 'st \<Rightarrow> b256" where
  "stamp_hash L stamp = keccak256 L (st_to_bytes L stamp)"

section \<open>Entries in a transaction\<close>

definition bump_or_insert_payload :: "b256 \<Rightarrow> bytes \<Rightarrow> reserve_tables \<Rightarrow> reserve_tables" where
  "bump_or_insert_payload address typed_bytes T =
     (case tbl_get (rt_payload T) address of
        Some p \<Rightarrow>
          T\<lparr>rt_payload := tbl_put address (p\<lparr>pv_refcnt := u64_wrapping_add (pv_refcnt p) 1\<rparr>) (rt_payload T)\<rparr>
      | None \<Rightarrow>
          T\<lparr>rt_payload := tbl_put address \<lparr>pv_refcnt = 1, pv_typed_bytes = typed_bytes\<rparr> (rt_payload T)\<rparr>)"

definition dec_payload :: "b256 \<Rightarrow> reserve_tables \<Rightarrow> reserve_tables" where
  "dec_payload address T =
     (case tbl_get (rt_payload T) address of
        Some p \<Rightarrow>
          if pv_refcnt p \<le> 1 then T\<lparr>rt_payload := tbl_delete address (rt_payload T)\<rparr>
          else T\<lparr>rt_payload := tbl_put address (p\<lparr>pv_refcnt := pv_refcnt p - 1\<rparr>) (rt_payload T)\<rparr>
      | None \<Rightarrow> T)"

definition delete_entry_rows_in_tx :: "8 word \<Rightarrow> evict_target \<Rightarrow> reserve_tables \<Rightarrow> bool \<times> reserve_tables" where
  "delete_entry_rows_in_tx po target T =
     (let entry_key = EntryKey po (et_batch target) (et_stamp_hash target) (et_addr target)
      in case tbl_get (rt_entry T) entry_key of
           None \<Rightarrow> (False, T)
         | Some v \<Rightarrow>
             (True, dec_payload (et_addr target)
                (T\<lparr>rt_replay := tbl_delete (ReplayKey (ev_bin v) (ev_binid v)) (rt_replay T),
                   rt_batch_group := tbl_delete
                     (BatchGroupKey (et_batch target) po (et_addr target) (et_stamp_hash target)) (rt_batch_group T),
                   rt_entry := tbl_delete entry_key (rt_entry T)\<rparr>)))"

definition decode_stamp :: "('st, 'se, 'b, 'c) postage_lib \<Rightarrow> bytes \<Rightarrow> 'se + 'st" where
  "decode_stamp L bs = st_try_from_slice L bs"

definition delete_entry_in_tx ::
  "('st, 'se, 'b, 'c, 'ch) reserve_env \<Rightarrow> b256 \<Rightarrow> evict_target \<Rightarrow> reserve_tables \<Rightarrow> bool \<times> reserve_tables" where
  "delete_entry_in_tx E overlay target T =
     (let po = env_proximity E (et_addr target) overlay;
          entry_key = EntryKey po (et_batch target) (et_stamp_hash target) (et_addr target);
          slot = (case tbl_get (rt_entry T) entry_key of
                    None \<Rightarrow> None
                  | Some v \<Rightarrow>
                      (case decode_stamp (env_postage E) (ev_stamp_bytes v) of
                         Inl _ \<Rightarrow> None
                       | Inr s \<Rightarrow> Some (StampSlotKey (st_batch (env_postage E) s) (st_stamp_index (env_postage E) s))));
          (removed, T') = delete_entry_rows_in_tx po target T
      in (removed,
          if removed
          then case slot of
                 None \<Rightarrow> T'
               | Some slot \<Rightarrow>
                   (case tbl_get (rt_stamp_index T') slot of
                      Some occupant \<Rightarrow>
                        if si_stamp_hash occupant = et_stamp_hash target
                        then T'\<lparr>rt_stamp_index := tbl_delete slot (rt_stamp_index T')\<rparr> else T'
                    | None \<Rightarrow> T')
          else T'))"

text \<open>The transaction of \<^verbatim>\<open>put\<close>: arbitrate the slot, delete the displaced rows, take the next
  sequence of the bin and write the rows of the new entry.\<close>

definition put_tx ::
  "(b256 \<Rightarrow> 8 word) \<Rightarrow> 8 word \<Rightarrow> 8 word \<Rightarrow> bytes \<Rightarrow> bytes \<Rightarrow> incoming_stamp \<Rightarrow> reserve_tables \<Rightarrow>
     ('se swarm_error + put_outcome) \<times> reserve_tables" where
  "put_tx po_of bin chunk_type stamp_bytes typed_bytes incoming T =
     (let slot = incoming_slot incoming; address = in_address incoming; hash = in_stamp_hash incoming;
          batch = in_batch_id incoming; po = po_of address
      in case decide (tbl_get (rt_stamp_index T) slot) incoming of
           Reject _ \<Rightarrow> (Inr Rejected, T)
         | Admit displaced \<Rightarrow>
             (let T1 = (case displaced of
                          None \<Rightarrow> T
                        | Some d \<Rightarrow>
                            snd (delete_entry_rows_in_tx (po_of (de_address d))
                              \<lparr>et_batch = batch, et_stamp_hash = de_stamp_hash d, et_addr = de_address d\<rparr> T));
                  cur = (case tbl_get (rt_bin_counter T1) bin of None \<Rightarrow> 0 | Some n \<Rightarrow> n)
              in if cur = - 1 then (Inl (CounterExhausted bin), T1)
                 else
                   (let T2 = T1\<lparr>
                          rt_bin_counter := tbl_put bin (cur + 1) (rt_bin_counter T1),
                          rt_replay := tbl_put (ReplayKey bin (cur + 1))
                            \<lparr>rv_address = address, rv_batch_id = batch, rv_stamp_hash = hash,
                             rv_chunk_type = chunk_type\<rparr> (rt_replay T1),
                          rt_entry := tbl_put (EntryKey po batch hash address)
                            \<lparr>ev_bin = bin, ev_binid = cur + 1, ev_stamp_bytes = stamp_bytes\<rparr> (rt_entry T1),
                          rt_batch_group := tbl_put (BatchGroupKey batch po address hash) () (rt_batch_group T1)\<rparr>;
                        T3 = bump_or_insert_payload address typed_bytes T2
                    in (Inr (if displaced \<noteq> None then Restamped else Admitted),
                        T3\<lparr>rt_stamp_index := tbl_put slot (incoming_entry incoming) (rt_stamp_index T3)\<rparr>))))"

section \<open>Construction and accessors\<close>

definition reserve_open ::
  "nat \<Rightarrow> reserve_tables \<Rightarrow> b256 \<Rightarrow> ('b, 'c) batch_db \<Rightarrow> admission_validator \<Rightarrow> nat \<Rightarrow> eviction_strategy \<Rightarrow>
     8 word \<Rightarrow> ('b, 'c) db_reserve" where
  "reserve_open now_nanos T overlay batches admission capacity strategy radius =
     (let (epoch, T') = (case tbl_get (rt_metadata T) epoch_key of
                           Some e \<Rightarrow> (e, T)
                         | None \<Rightarrow>
                             (of_nat now_nanos,
                              T\<lparr>rt_metadata := tbl_put epoch_key (of_nat now_nanos) (rt_metadata T)\<rparr>));
          reserve = with_identity overlay (reserve_with_strategy capacity strategy);
          size = tbl_count (rt_entry T')
      in \<lparr>dr_tables = T', dr_admission = admission, dr_batches = batches, dr_reserve = set_count size reserve,
          dr_overlay = overlay, dr_radius = radius, dr_epoch = epoch\<rparr>)"

definition load_radius :: "('st, 'se, 'b, 'c, 'ch) reserve_env \<Rightarrow> ('b, 'c) db_reserve \<Rightarrow> 8 word" where
  "load_radius E R = (let raw = dr_radius R in if raw \<le> env_max_po E then raw else 0)"

definition set_storage_radius :: "8 word \<Rightarrow> ('b, 'c) db_reserve \<Rightarrow> ('b, 'c) db_reserve" where
  "set_storage_radius radius R = R\<lparr>dr_radius := radius\<rparr>"

definition reserve_po_of :: "('st, 'se, 'b, 'c, 'ch) reserve_env \<Rightarrow> ('b, 'c) db_reserve \<Rightarrow> b256 \<Rightarrow> 8 word" where
  "reserve_po_of E R address = env_proximity E address (dr_overlay R)"

definition is_responsible_for :: "('st, 'se, 'b, 'c, 'ch) reserve_env \<Rightarrow> ('b, 'c) db_reserve \<Rightarrow> b256 \<Rightarrow> bool" where
  "is_responsible_for E R address \<longleftrightarrow> dr_radius R \<le> env_proximity E address (dr_overlay R)"

definition reserve_count :: "('b, 'c) db_reserve \<Rightarrow> nat" where
  "reserve_count R = tbl_count (rt_entry (dr_tables R))"

definition target_of_entry :: "entry_key \<Rightarrow> evict_target" where
  "target_of_entry key = \<lparr>et_batch = ek_batch key, et_stamp_hash = ek_stamp_hash key, et_addr = ek_addr key\<rparr>"

definition target_of_group :: "batch_group_key \<Rightarrow> evict_target" where
  "target_of_group key = \<lparr>et_batch = bg_batch key, et_stamp_hash = bg_stamp_hash key, et_addr = bg_addr key\<rparr>"

text \<open>The cursor of \<^verbatim>\<open>Entry\<close> positioned at the first row of a proximity order.\<close>

definition entry_rows_from :: "8 word \<Rightarrow> reserve_tables \<Rightarrow> (entry_key \<times> entry_value) list" where
  "entry_rows_from po T = tbl_from (EntryKey po 0 0 0) (rt_entry T)"

section \<open>Eviction\<close>

fun evict_loop ::
  "('st, 'se, 'b, 'c, 'ch) reserve_env \<Rightarrow> b256 \<Rightarrow> evict_target list \<Rightarrow> nat \<Rightarrow> reserve_tables \<Rightarrow> nat \<times> reserve_tables" where
  "evict_loop E overlay [] n T = (n, T)"
| "evict_loop E overlay (t # ts) n T =
     (case delete_entry_in_tx E overlay t T of
        (removed, T') \<Rightarrow> evict_loop E overlay ts (if removed then n + 1 else n) T')"

definition evict_entries ::
  "('st, 'se, 'b, 'c, 'ch) reserve_env \<Rightarrow> evict_target list \<Rightarrow> ('b, 'c) db_reserve \<Rightarrow> nat \<times> ('b, 'c) db_reserve" where
  "evict_entries E targets R =
     (if targets = [] then (0, R)
      else case evict_loop E (dr_overlay R) targets 0 (dr_tables R) of
             (removed, T') \<Rightarrow> (removed, R\<lparr>dr_tables := T', dr_reserve := on_removed_n removed (dr_reserve R)\<rparr>))"

fun collect_front :: "nat \<Rightarrow> (entry_key \<times> entry_value) list \<Rightarrow> evict_target list \<Rightarrow> evict_target list" where
  "collect_front overflow [] targets = targets"
| "collect_front overflow ((key, _) # row) targets =
     (let targets' = targets @ [target_of_entry key]
      in if overflow \<le> length targets' then targets' else collect_front overflow row targets')"

definition evict_to_capacity ::
  "('st, 'se, 'b, 'c, 'ch) reserve_env \<Rightarrow> ('b, 'c) db_reserve \<Rightarrow> nat \<times> ('b, 'c) db_reserve" where
  "evict_to_capacity E R =
     (let capacity = rs_capacity (dr_reserve R); count = rs_count (dr_reserve R)
      in if count \<le> capacity then (0, R)
         else let targets = collect_front (count - capacity) (tbl_entries (rt_entry (dr_tables R))) []
              in if targets = [] then (0, R) else evict_entries E targets R)"

fun count_rows :: "8 word \<Rightarrow> (entry_key \<times> entry_value) list \<Rightarrow> nat \<Rightarrow> nat" where
  "count_rows target [] count = count"
| "count_rows target ((key, _) # row) count =
     (if ek_po key \<noteq> target then count else count_rows target row (count + 1))"

definition count_in :: "8 word \<Rightarrow> ('b, 'c) db_reserve \<Rightarrow> nat" where
  "count_in po R = count_rows po (entry_rows_from po (dr_tables R)) 0"

definition evict_furthest_entry ::
  "('st, 'se, 'b, 'c, 'ch) reserve_env \<Rightarrow> ('b, 'c) db_reserve \<Rightarrow> b256 option \<times> ('b, 'c) db_reserve" where
  "evict_furthest_entry E R =
     (case tbl_first (rt_entry (dr_tables R)) of
        Some (key, _) \<Rightarrow> (Some (ek_addr key), snd (evict_entries E [target_of_entry key] R))
      | None \<Rightarrow> (None, R))"

fun collect_bin ::
  "8 word \<Rightarrow> nat \<Rightarrow> (entry_key \<times> entry_value) list \<Rightarrow> evict_target list \<Rightarrow> evict_target list" where
  "collect_bin target mx [] targets = targets"
| "collect_bin target mx ((key, _) # row) targets =
     (if ek_po key \<noteq> target then targets
      else let targets' = targets @ [target_of_entry key]
           in if mx \<le> length targets' then targets' else collect_bin target mx row targets')"

definition evict_from_bin ::
  "('st, 'se, 'b, 'c, 'ch) reserve_env \<Rightarrow> 8 word \<Rightarrow> nat \<Rightarrow> ('b, 'c) db_reserve \<Rightarrow> nat \<times> ('b, 'c) db_reserve" where
  "evict_from_bin E bin mx R =
     (if mx = 0 then (0, R)
      else evict_entries E (collect_bin bin mx (entry_rows_from bin (dr_tables R)) []) R)"

fun collect_batch ::
  "b256 \<Rightarrow> 8 word option \<Rightarrow> nat \<Rightarrow> (batch_group_key \<times> unit) list \<Rightarrow> evict_target list \<Rightarrow> evict_target list" where
  "collect_batch batch bound mx [] targets = targets"
| "collect_batch batch bound mx ((key, _) # row) targets =
     (if bg_batch key \<noteq> batch then targets
      else if (case bound of Some b \<Rightarrow> b \<le> bg_po key | None \<Rightarrow> False) then targets
      else let targets' = targets @ [target_of_group key]
           in if mx \<le> length targets' then targets' else collect_batch batch bound mx row targets')"

definition evict_batch ::
  "('st, 'se, 'b, 'c, 'ch) reserve_env \<Rightarrow> b256 \<Rightarrow> 8 word option \<Rightarrow> nat \<Rightarrow> ('b, 'c) db_reserve \<Rightarrow>
     nat \<times> ('b, 'c) db_reserve" where
  "evict_batch E batch up_to_bin mx R =
     (if mx = 0 then (0, R)
      else evict_entries E
        (collect_batch batch up_to_bin mx
          (tbl_from (BatchGroupKey batch 0 0 0) (rt_batch_group (dr_tables R))) []) R)"

section \<open>Chunks\<close>

definition reserve_put ::
  "('st, 'se, 'b, 'c, 'ch) reserve_env \<Rightarrow> ('ch, 'st) cached_chunk \<Rightarrow> ('b, 'c) db_reserve \<Rightarrow>
     ('se swarm_error + unit) \<times> ('b, 'c) db_reserve" where
  "reserve_put E chunk R =
     (let L = env_postage E; any = cc_chunk chunk; address = env_chunk_address E any
      in case cc_stamp chunk of
           None \<Rightarrow> (Inl (StamplessChunk address), R)
         | Some stamp \<Rightarrow>
             (case batch_get (dr_batches R) (st_batch L stamp) of
                None \<Rightarrow> (Inl (UnknownBatchOf address (st_batch L stamp)), R)
              | Some batch \<Rightarrow>
                  (case validate L (dr_admission R) stamp address batch (batch_context L (dr_batches R)) of
                     Inl e \<Rightarrow> (Inl (AdmissionFailed address e), R)
                   | Inr _ \<Rightarrow>
                       (let incoming = \<lparr>in_batch_id = st_batch L stamp, in_stamp_index = st_stamp_index L stamp,
                              in_timestamp = word_bytes (st_timestamp L stamp), in_stamp_hash = stamp_hash L stamp,
                              in_address = address\<rparr>
                        in case db_update
                             (put_tx (reserve_po_of E R) (env_bin E address (dr_overlay R)) (env_chunk_type E any)
                                (st_to_bytes L stamp) (env_to_typed_bytes E any) incoming) (dr_tables R) of
                             (Inl e, T') \<Rightarrow> (Inl e, R\<lparr>dr_tables := T'\<rparr>)
                           | (Inr outcome, T') \<Rightarrow>
                               (Inr (), R\<lparr>dr_tables := T',
                                  dr_reserve := (case outcome of Admitted \<Rightarrow> on_added (dr_reserve R) | _ \<Rightarrow> dr_reserve R)\<rparr>)))))"

fun best_stamp ::
  "8 word \<Rightarrow> b256 \<Rightarrow> (entry_key \<times> entry_value) list \<Rightarrow> (nat \<times> bytes) option \<Rightarrow> (nat \<times> bytes) option" where
  "best_stamp po address [] best = best"
| "best_stamp po address ((key, v) # row) best =
     (if ek_po key \<noteq> po then best
      else best_stamp po address row
        (if ek_addr key = address
         then let ts = stamp_timestamp (ev_stamp_bytes v)
              in if (case best of None \<Rightarrow> True | Some (b, _) \<Rightarrow> b < ts) then Some (ts, ev_stamp_bytes v) else best
         else best))"

definition reserve_get ::
  "('st, 'se, 'b, 'c, 'ch) reserve_env \<Rightarrow> b256 \<Rightarrow> ('b, 'c) db_reserve \<Rightarrow>
     'se swarm_error + ('ch, 'st) cached_chunk option" where
  "reserve_get E address R =
     (case tbl_get (rt_payload (dr_tables R)) address of
        None \<Rightarrow> Inr None
      | Some payload \<Rightarrow>
          (let po = env_proximity E address (dr_overlay R)
           in case best_stamp po address (entry_rows_from po (dr_tables R)) None of
                None \<Rightarrow> Inr None
              | Some (_, stamp_bytes) \<Rightarrow>
                  (case decode_stamp (env_postage E) stamp_bytes of
                     Inl e \<Rightarrow> Inl (StampUndecodable address e)
                   | Inr stamp \<Rightarrow>
                       (case env_from_typed_bytes E address (pv_typed_bytes payload) of
                          None \<Rightarrow> Inl (BodyUndecodable address)
                        | Some body \<Rightarrow> Inr (Some \<lparr>cc_chunk = body, cc_stamp = Some stamp\<rparr>)))))"

definition reserve_contains :: "b256 \<Rightarrow> ('b, 'c) db_reserve \<Rightarrow> bool" where
  "reserve_contains address R \<longleftrightarrow> tbl_get (rt_payload (dr_tables R)) address \<noteq> None"

fun collect_address :: "8 word \<Rightarrow> b256 \<Rightarrow> (entry_key \<times> entry_value) list \<Rightarrow> evict_target list \<Rightarrow> evict_target list" where
  "collect_address po address [] targets = targets"
| "collect_address po address ((key, _) # row) targets =
     (if ek_po key \<noteq> po then targets
      else collect_address po address row
        (if ek_addr key = address then targets @ [target_of_entry key] else targets))"

definition entries_for_address ::
  "('st, 'se, 'b, 'c, 'ch) reserve_env \<Rightarrow> b256 \<Rightarrow> ('b, 'c) db_reserve \<Rightarrow> evict_target list" where
  "entries_for_address E address R =
     (let po = reserve_po_of E R address in collect_address po address (entry_rows_from po (dr_tables R)) [])"

definition reserve_remove ::
  "('st, 'se, 'b, 'c, 'ch) reserve_env \<Rightarrow> b256 \<Rightarrow> ('b, 'c) db_reserve \<Rightarrow> ('b, 'c) db_reserve" where
  "reserve_remove E address R = snd (evict_entries E (entries_for_address E address R) R)"

section \<open>Insertion order\<close>

record bin_scan_item =
  bs_seq :: "64 word"
  bs_address :: b256
  bs_batch_id :: b256
  bs_stamp_hash :: b256

definition bin_cursor :: "8 word \<Rightarrow> ('b, 'c) db_reserve \<Rightarrow> 64 word" where
  "bin_cursor bin R = (case tbl_get (rt_bin_counter (dr_tables R)) bin of Some n \<Rightarrow> n | None \<Rightarrow> 0)"

text \<open>The items the lazy scan yields, over the rows left from the cursor on.\<close>

fun scan_rows :: "8 word \<Rightarrow> (replay_key \<times> replay_value) list \<Rightarrow> bin_scan_item list" where
  "scan_rows target [] = []"
| "scan_rows target ((key, v) # row) =
     (if rk_bin key \<noteq> target then []
      else \<lparr>bs_seq = rk_binid key, bs_address = rv_address v, bs_batch_id = rv_batch_id v,
            bs_stamp_hash = rv_stamp_hash v\<rparr> # scan_rows target row)"

definition scan_bin_from :: "8 word \<Rightarrow> 64 word \<Rightarrow> ('b, 'c) db_reserve \<Rightarrow> bin_scan_item list" where
  "scan_bin_from bin start_seq R =
     scan_rows bin (tbl_from (ReplayKey bin start_seq) (rt_replay (dr_tables R)))"

end
