(* ===== verification/Db_Reserve_Inv.thy ===== *)
theory Db_Reserve_Inv
  imports Db_Reserve
begin

text \<open>
  The consistency of the reserve's tables. Every stamped entry has exactly one row in each
  of the entry, batch-group and replay tables and owns its stamp slot, every row of those
  tables belongs to an entry, the sequence of an entry is within its bin's counter, and
  the reference count of a payload is the number of entries of its address. The
  invariant is kept by every transaction; in the middle of a restamp one slot is free
  of its entry, so the predicate carries the slots that are open.
\<close>

section \<open>The invariant\<close>

text \<open>What is assumed of the postage library: a stamp is decoded from its own encoding, its
  hash identifies it, and the encoding carries the timestamp at bytes 40 to 47. That the
  hash identifies the stamp is an idealisation of collision resistance; the type of stamps
  is a parameter, and stands for the stamps that ever reach the node.\<close>

definition stamps_sound :: "('st, 'se, 'b, 'c) postage_lib \<Rightarrow> bool" where
  "stamps_sound L \<longleftrightarrow>
     (\<forall>s. st_try_from_slice L (st_to_bytes L s) = Inr s) \<and>
     (\<forall>s s'. stamp_hash L s = stamp_hash L s' \<longrightarrow> s = s') \<and>
     (\<forall>s. stamp_timestamp (st_to_bytes L s) = unat (st_timestamp L s))"

definition stamp_slot :: "('st, 'se, 'b, 'c) postage_lib \<Rightarrow> 'st \<Rightarrow> stamp_slot_key" where
  "stamp_slot L s = StampSlotKey (st_batch L s) (st_stamp_index L s)"

definition counter_of :: "8 word \<Rightarrow> reserve_tables \<Rightarrow> 64 word" where
  "counter_of bin T = (case tbl_get (rt_bin_counter T) bin of None \<Rightarrow> 0 | Some n \<Rightarrow> n)"

definition entries_at :: "b256 \<Rightarrow> reserve_tables \<Rightarrow> nat" where
  "entries_at a T = length (filter (\<lambda>k. ek_addr k = a) (tbl_keys (rt_entry T)))"

text \<open>The slot occupant of an entry, and the rows an entry has in the other tables.\<close>

definition occupant_of :: "('st, 'se, 'b, 'c) postage_lib \<Rightarrow> 'st \<Rightarrow> b256 \<Rightarrow> stamp_index_entry" where
  "occupant_of L s a =
     \<lparr>si_timestamp = word_bytes (st_timestamp L s), si_stamp_hash = stamp_hash L s, si_address = a\<rparr>"

definition group_key_of :: "entry_key \<Rightarrow> batch_group_key" where
  "group_key_of k = BatchGroupKey (ek_batch k) (ek_po k) (ek_addr k) (ek_stamp_hash k)"

definition entry_key_of_group :: "batch_group_key \<Rightarrow> entry_key" where
  "entry_key_of_group g = EntryKey (bg_po g) (bg_batch g) (bg_stamp_hash g) (bg_addr g)"

definition tables_wf :: "reserve_tables \<Rightarrow> bool" where
  "tables_wf T \<longleftrightarrow>
     tbl_wf (rt_payload T) \<and> tbl_wf (rt_entry T) \<and> tbl_wf (rt_batch_group T) \<and> tbl_wf (rt_replay T) \<and>
     tbl_wf (rt_bin_counter T) \<and> tbl_wf (rt_stamp_index T)"

text \<open>The rows of an entry \<open>k\<close> with value \<open>v\<close> admitted by the stamp \<open>s\<close>.\<close>

definition entry_row ::
  "('st, 'se, 'b, 'c, 'ch) reserve_env \<Rightarrow> b256 \<Rightarrow> reserve_tables \<Rightarrow> entry_key \<Rightarrow> entry_value \<Rightarrow> 'st \<Rightarrow> bool" where
  "entry_row E ov T k v s \<longleftrightarrow>
     ek_po k = env_proximity E (ek_addr k) ov \<and> ev_bin v = env_bin E (ek_addr k) ov \<and>
     0 < ev_binid v \<and> ev_binid v \<le> counter_of (ev_bin v) T \<and>
     tbl_get (rt_batch_group T) (group_key_of k) = Some () \<and>
     (\<exists>rv. tbl_get (rt_replay T) (ReplayKey (ev_bin v) (ev_binid v)) = Some rv \<and>
        rv_address rv = ek_addr k \<and> rv_batch_id rv = ek_batch k \<and> rv_stamp_hash rv = ek_stamp_hash k) \<and>
     ev_stamp_bytes v = st_to_bytes (env_postage E) s \<and> ek_batch k = st_batch (env_postage E) s \<and>
     ek_stamp_hash k = stamp_hash (env_postage E) s \<and>
     tbl_get (rt_stamp_index T) (stamp_slot (env_postage E) s) = Some (occupant_of (env_postage E) s (ek_addr k))"

definition entry_ok ::
  "('st, 'se, 'b, 'c, 'ch) reserve_env \<Rightarrow> b256 \<Rightarrow> stamp_slot_key set \<Rightarrow> reserve_tables \<Rightarrow> bool" where
  "entry_ok E ov open T \<longleftrightarrow>
     (\<forall>k v. tbl_get (rt_entry T) k = Some v \<longrightarrow>
        (\<exists>s. entry_row E ov T k v s \<and> stamp_slot (env_postage E) s \<notin> open))"

definition group_ok :: "reserve_tables \<Rightarrow> bool" where
  "group_ok T \<longleftrightarrow>
     (\<forall>g. tbl_get (rt_batch_group T) g = Some () \<longrightarrow> (\<exists>v. tbl_get (rt_entry T) (entry_key_of_group g) = Some v))"

definition replay_ok ::
  "('st, 'se, 'b, 'c, 'ch) reserve_env \<Rightarrow> b256 \<Rightarrow> reserve_tables \<Rightarrow> bool" where
  "replay_ok E ov T \<longleftrightarrow>
     (\<forall>r rv. tbl_get (rt_replay T) r = Some rv \<longrightarrow>
        (\<exists>v. tbl_get (rt_entry T) (EntryKey (env_proximity E (rv_address rv) ov) (rv_batch_id rv)
               (rv_stamp_hash rv) (rv_address rv)) = Some v \<and> ev_bin v = rk_bin r \<and> ev_binid v = rk_binid r))"

definition slot_ok ::
  "('st, 'se, 'b, 'c, 'ch) reserve_env \<Rightarrow> b256 \<Rightarrow> stamp_slot_key set \<Rightarrow> reserve_tables \<Rightarrow> bool" where
  "slot_ok E ov open T \<longleftrightarrow>
     (\<forall>k e. k \<notin> open \<longrightarrow> tbl_get (rt_stamp_index T) k = Some e \<longrightarrow>
        (\<exists>v s. tbl_get (rt_entry T) (EntryKey (env_proximity E (si_address e) ov) (slot_batch_id k)
               (si_stamp_hash e) (si_address e)) = Some v \<and>
             si_stamp_hash e = stamp_hash (env_postage E) s \<and> stamp_slot (env_postage E) s = k))"

definition payload_ok :: "reserve_tables \<Rightarrow> bool" where
  "payload_ok T \<longleftrightarrow>
     (\<forall>a. case tbl_get (rt_payload T) a of
            None \<Rightarrow> entries_at a T = 0
          | Some p \<Rightarrow> pv_refcnt p = entries_at a T \<and> 0 < pv_refcnt p)"

definition tables_inv ::
  "('st, 'se, 'b, 'c, 'ch) reserve_env \<Rightarrow> b256 \<Rightarrow> stamp_slot_key set \<Rightarrow> reserve_tables \<Rightarrow> bool" where
  "tables_inv E ov open T \<longleftrightarrow>
     tables_wf T \<and> entry_ok E ov open T \<and> group_ok T \<and> replay_ok E ov T \<and> slot_ok E ov open T \<and> payload_ok T"

section \<open>Consequences\<close>

lemma stamp_unique: "stamps_sound L \<Longrightarrow> stamp_hash L s = stamp_hash L s' \<longleftrightarrow> s = s'"
  by (auto simp: stamps_sound_def)

lemma entry_okD:
  "tables_inv E ov open T \<Longrightarrow> tbl_get (rt_entry T) k = Some v \<Longrightarrow>
     \<exists>s. entry_row E ov T k v s \<and> stamp_slot (env_postage E) s \<notin> open"
  unfolding tables_inv_def entry_ok_def by blast

lemma slot_okD:
  "tables_inv E ov open T \<Longrightarrow> k \<notin> open \<Longrightarrow> tbl_get (rt_stamp_index T) k = Some e \<Longrightarrow>
     \<exists>v s. tbl_get (rt_entry T) (EntryKey (env_proximity E (si_address e) ov) (slot_batch_id k)
         (si_stamp_hash e) (si_address e)) = Some v \<and>
       si_stamp_hash e = stamp_hash (env_postage E) s \<and> stamp_slot (env_postage E) s = k"
  unfolding tables_inv_def slot_ok_def by blast

text \<open>An entry is determined by its place in the replay order, and by its stamp slot.\<close>

lemma same_replay_same_entry:
  assumes "entry_row E ov T k v s" and "entry_row E ov T k' v' s'"
    and "ev_bin v = ev_bin v'" and "ev_binid v = ev_binid v'"
  shows "k = k'"
  using assms unfolding entry_row_def by (intro entry_key.expand) auto

lemma same_slot_same_entry:
  assumes "entry_row E ov T k v s" and "entry_row E ov T k' v' s'"
    and "stamp_slot (env_postage E) s = stamp_slot (env_postage E) s'"
  shows "k = k'"
proof -
  have "occupant_of (env_postage E) s (ek_addr k) = occupant_of (env_postage E) s' (ek_addr k')"
    using assms unfolding entry_row_def by simp
  then show ?thesis using assms unfolding entry_row_def
    by (intro entry_key.expand) (simp add: occupant_of_def stamp_slot_def)
qed

lemma group_key_of_inject: "group_key_of k = group_key_of k' \<longleftrightarrow> k = k'"
  by (cases k, cases k') (auto simp: group_key_of_def)

lemma entry_key_of_group_key: "entry_key_of_group (group_key_of k) = k"
  by (cases k) (simp add: group_key_of_def entry_key_of_group_def)

lemma entry_key_of_group_inject: "entry_key_of_group g = entry_key_of_group g' \<longleftrightarrow> g = g'"
  by (cases g, cases g') (auto simp: entry_key_of_group_def)

lemma group_key_of_entry_key: "group_key_of (entry_key_of_group g) = g"
  by (cases g) (simp add: group_key_of_def entry_key_of_group_def)

section \<open>Deleting the rows of an entry\<close>

lemma dec_payload_other [simp]:
  "rt_entry (dec_payload a T) = rt_entry T" "rt_batch_group (dec_payload a T) = rt_batch_group T"
  "rt_replay (dec_payload a T) = rt_replay T" "rt_bin_counter (dec_payload a T) = rt_bin_counter T"
  "rt_stamp_index (dec_payload a T) = rt_stamp_index T" "rt_metadata (dec_payload a T) = rt_metadata T"
  by (simp_all add: dec_payload_def split: option.splits)

lemma bump_payload_other [simp]:
  "rt_entry (bump_or_insert_payload a b T) = rt_entry T"
  "rt_batch_group (bump_or_insert_payload a b T) = rt_batch_group T"
  "rt_replay (bump_or_insert_payload a b T) = rt_replay T"
  "rt_bin_counter (bump_or_insert_payload a b T) = rt_bin_counter T"
  "rt_stamp_index (bump_or_insert_payload a b T) = rt_stamp_index T"
  "rt_metadata (bump_or_insert_payload a b T) = rt_metadata T"
  by (simp_all add: bump_or_insert_payload_def split: option.splits)

lemma dec_payload_wf: "tbl_wf (rt_payload T) \<Longrightarrow> tbl_wf (rt_payload (dec_payload a T))"
  by (simp add: dec_payload_def split: option.splits)

lemma bump_payload_wf: "tbl_wf (rt_payload T) \<Longrightarrow> tbl_wf (rt_payload (bump_or_insert_payload a b T))"
  by (simp add: bump_or_insert_payload_def split: option.splits)

lemma dec_payload_ok:
  assumes "payload_ok T" and "rt_payload T' = rt_payload T" and "entries_at a T = Suc (entries_at a T')"
    and "\<And>b. b \<noteq> a \<Longrightarrow> entries_at b T' = entries_at b T"
  shows "payload_ok (dec_payload a T')"
proof -
  obtain p where p: "tbl_get (rt_payload T) a = Some p" "pv_refcnt p = Suc (entries_at a T')"
    using assms(1,3) unfolding payload_ok_def by (cases "tbl_get (rt_payload T) a") (auto dest: spec [of _ a])
  have same: "entries_at b (dec_payload a T') = entries_at b T'" for b by (simp add: entries_at_def)
  show ?thesis unfolding payload_ok_def same
  proof
    fix b
    show "case tbl_get (rt_payload (dec_payload a T')) b of None \<Rightarrow> entries_at b T' = 0
      | Some q \<Rightarrow> pv_refcnt q = entries_at b T' \<and> 0 < pv_refcnt q"
    proof (cases "b = a")
      case True
      then show ?thesis using p by (auto simp: dec_payload_def assms(2))
    next
      case False
      then have "tbl_get (rt_payload (dec_payload a T')) b = tbl_get (rt_payload T) b"
        using p by (simp add: dec_payload_def assms(2))
      moreover have "case tbl_get (rt_payload T) b of None \<Rightarrow> entries_at b T = 0
        | Some q \<Rightarrow> pv_refcnt q = entries_at b T \<and> 0 < pv_refcnt q"
        using assms(1) unfolding payload_ok_def by blast
      ultimately show ?thesis using assms(4) [OF False] by (simp cong: option.case_cong)
    qed
  qed
qed

definition rows_removed :: "entry_key \<Rightarrow> entry_value \<Rightarrow> reserve_tables \<Rightarrow> reserve_tables" where
  "rows_removed k v T = dec_payload (ek_addr k)
     (T\<lparr>rt_replay := tbl_delete (ReplayKey (ev_bin v) (ev_binid v)) (rt_replay T),
        rt_batch_group := tbl_delete (group_key_of k) (rt_batch_group T),
        rt_entry := tbl_delete k (rt_entry T)\<rparr>)"

lemma target_of_entry_simps [simp]:
  "et_batch (target_of_entry k) = ek_batch k" "et_stamp_hash (target_of_entry k) = ek_stamp_hash k"
  "et_addr (target_of_entry k) = ek_addr k"
  by (simp_all add: target_of_entry_def)

lemma delete_rows_present:
  "tbl_get (rt_entry T) k = Some v \<Longrightarrow>
     delete_entry_rows_in_tx (ek_po k) (target_of_entry k) T = (True, rows_removed k v T)"
  by (cases k) (simp add: delete_entry_rows_in_tx_def target_of_entry_def rows_removed_def group_key_of_def)

lemma rows_removed_tables [simp]:
  "rt_entry (rows_removed k v T) = tbl_delete k (rt_entry T)"
  "rt_replay (rows_removed k v T) = tbl_delete (ReplayKey (ev_bin v) (ev_binid v)) (rt_replay T)"
  "rt_batch_group (rows_removed k v T) = tbl_delete (group_key_of k) (rt_batch_group T)"
  "rt_bin_counter (rows_removed k v T) = rt_bin_counter T"
  "rt_stamp_index (rows_removed k v T) = rt_stamp_index T"
  "rt_metadata (rows_removed k v T) = rt_metadata T"
  by (simp_all add: rows_removed_def)

lemma counter_of_removed [simp]: "counter_of b (rows_removed k v T) = counter_of b T"
  by (simp add: counter_of_def)

lemma entries_at_delete:
  assumes "tbl_wf (rt_entry T)" and "tbl_get (rt_entry T) k = Some v" and "rt_entry T' = tbl_delete k (rt_entry T)"
  shows "entries_at a T = (if ek_addr k = a then 1 else 0) + entries_at a T'"
  using tbl_delete_filter [OF assms(1,2)] by (simp add: entries_at_def assms(3))

lemma rows_removed_payload:
  assumes "tables_inv E ov open T" and "tbl_get (rt_entry T) k = Some v"
  shows "payload_ok (rows_removed k v T)"
proof -
  have wf: "tbl_wf (rt_entry T)" and ok: "payload_ok T"
    using assms(1) by (simp_all add: tables_inv_def tables_wf_def)
  define T1 where "T1 = T\<lparr>rt_replay := tbl_delete (ReplayKey (ev_bin v) (ev_binid v)) (rt_replay T),
    rt_batch_group := tbl_delete (group_key_of k) (rt_batch_group T), rt_entry := tbl_delete k (rt_entry T)\<rparr>"
  have "entries_at a T = (if ek_addr k = a then 1 else 0) + entries_at a T1" for a
    by (rule entries_at_delete [OF wf assms(2)]) (simp add: T1_def)
  then show ?thesis unfolding rows_removed_def T1_def [symmetric]
    by (intro dec_payload_ok [OF ok]) (simp_all add: T1_def)
qed

lemma rows_removed_entries:
  assumes "tables_inv E ov open T" and "tbl_get (rt_entry T) k = Some v" and "entry_row E ov T k v s"
  shows "entry_ok E ov (insert (stamp_slot (env_postage E) s) open) (rows_removed k v T)"
  unfolding entry_ok_def
proof (intro allI impI)
  fix k' v' assume "tbl_get (rt_entry (rows_removed k v T)) k' = Some v'"
  then have "k' \<noteq> k" and get: "tbl_get (rt_entry T) k' = Some v'" by (auto split: if_splits)
  then obtain s' where s': "entry_row E ov T k' v' s'" "stamp_slot (env_postage E) s' \<notin> open"
    using entry_okD [OF assms(1)] by blast
  have "stamp_slot (env_postage E) s' \<noteq> stamp_slot (env_postage E) s"
    using same_slot_same_entry [OF s'(1) assms(3)] \<open>k' \<noteq> k\<close> by blast
  moreover have "(ev_bin v', ev_binid v') \<noteq> (ev_bin v, ev_binid v)"
    using same_replay_same_entry [OF s'(1) assms(3)] \<open>k' \<noteq> k\<close> by auto
  then have "entry_row E ov (rows_removed k v T) k' v' s'"
    using s'(1) \<open>k' \<noteq> k\<close> unfolding entry_row_def by (auto simp: group_key_of_inject)
  ultimately show "\<exists>s'. entry_row E ov (rows_removed k v T) k' v' s' \<and>
      stamp_slot (env_postage E) s' \<notin> insert (stamp_slot (env_postage E) s) open"
    using s'(2) by blast
qed

lemma rows_removed_replay:
  assumes "tables_inv E ov open T" and "tbl_get (rt_entry T) k = Some v" and "entry_row E ov T k v s"
  shows "replay_ok E ov (rows_removed k v T)"
  unfolding replay_ok_def
proof (intro allI impI)
  fix r rv assume "tbl_get (rt_replay (rows_removed k v T)) r = Some rv"
  then have ne: "r \<noteq> ReplayKey (ev_bin v) (ev_binid v)" and get: "tbl_get (rt_replay T) r = Some rv"
    by (auto split: if_splits)
  let ?k = "EntryKey (env_proximity E (rv_address rv) ov) (rv_batch_id rv) (rv_stamp_hash rv) (rv_address rv)"
  obtain v' where v': "tbl_get (rt_entry T) ?k = Some v'" "ev_bin v' = rk_bin r" "ev_binid v' = rk_binid r"
    using assms(1) get unfolding tables_inv_def replay_ok_def by blast
  then have "?k \<noteq> k" using ne assms(2) by auto
  then show "\<exists>v'. tbl_get (rt_entry (rows_removed k v T)) ?k = Some v' \<and> ev_bin v' = rk_bin r \<and> ev_binid v' = rk_binid r"
    using v' by simp
qed

lemma rows_removed_slots:
  assumes "tables_inv E ov open T" and "entry_row E ov T k v s" and "stamps_sound (env_postage E)"
  shows "slot_ok E ov (insert (stamp_slot (env_postage E) s) open) (rows_removed k v T)"
  unfolding slot_ok_def
proof (intro allI impI)
  let ?L = "env_postage E"
  fix slot e
  assume free: "slot \<notin> insert (stamp_slot ?L s) open" and get: "tbl_get (rt_stamp_index (rows_removed k v T)) slot = Some e"
  let ?k = "EntryKey (env_proximity E (si_address e) ov) (slot_batch_id slot) (si_stamp_hash e) (si_address e)"
  obtain v' s' where v': "tbl_get (rt_entry T) ?k = Some v'" "si_stamp_hash e = stamp_hash ?L s'" "stamp_slot ?L s' = slot"
    using slot_okD [OF assms(1)] free get rows_removed_tables(5) by (metis insertI2)
  have "?k \<noteq> k"
  proof
    assume "?k = k"
    then have "stamp_hash ?L s' = stamp_hash ?L s" using v'(2) assms(2) unfolding entry_row_def by auto
    then show False using v'(3) free assms(3) by (simp add: stamp_unique)
  qed
  then show "\<exists>v' s'. tbl_get (rt_entry (rows_removed k v T)) ?k = Some v' \<and> si_stamp_hash e = stamp_hash ?L s' \<and>
      stamp_slot ?L s' = slot"
    using v' by auto
qed

lemma rows_removed_groups: "group_ok T \<Longrightarrow> group_ok (rows_removed k v T)"
  by (auto simp: group_ok_def group_key_of_entry_key)

lemma rows_removed_inv:
  assumes "tables_inv E ov open T" and "tbl_get (rt_entry T) k = Some v" and "entry_row E ov T k v s"
    and "stamps_sound (env_postage E)"
  shows "tables_inv E ov (insert (stamp_slot (env_postage E) s) open) (rows_removed k v T)"
proof -
  have "tables_wf (rows_removed k v T)"
    using assms(1) by (simp add: tables_inv_def tables_wf_def) (simp add: rows_removed_def dec_payload_wf)
  moreover have "group_ok (rows_removed k v T)"
    using assms(1) rows_removed_groups by (auto simp: tables_inv_def)
  ultimately show ?thesis
    using rows_removed_payload [OF assms(1,2)] rows_removed_entries [OF assms(1-3)]
      rows_removed_replay [OF assms(1-3)] rows_removed_slots [OF assms(1,3,4)]
    by (simp add: tables_inv_def)
qed

section \<open>Deleting an entry\<close>

lemma slot_update_irrelevant [simp]:
  "entries_at a (T\<lparr>rt_stamp_index := x\<rparr>) = entries_at a T" "counter_of b (T\<lparr>rt_stamp_index := x\<rparr>) = counter_of b T"
  "payload_ok (T\<lparr>rt_stamp_index := x\<rparr>) = payload_ok T" "group_ok (T\<lparr>rt_stamp_index := x\<rparr>) = group_ok T"
  "replay_ok E ov (T\<lparr>rt_stamp_index := x\<rparr>) = replay_ok E ov T"
  by (simp_all add: payload_ok_def group_ok_def replay_ok_def entries_at_def counter_of_def cong: option.case_cong)

lemma close_slot:
  assumes "tables_inv E ov (insert slot open) T"
  shows "tables_inv E ov open (T\<lparr>rt_stamp_index := tbl_delete slot (rt_stamp_index T)\<rparr>)"
proof -
  let ?T = "T\<lparr>rt_stamp_index := tbl_delete slot (rt_stamp_index T)\<rparr>"
  have "entry_row E ov ?T k v s" if "entry_row E ov T k v s" "stamp_slot (env_postage E) s \<noteq> slot" for k v s
    using that unfolding entry_row_def counter_of_def by auto
  then have "entry_ok E ov open ?T"
    using assms unfolding tables_inv_def entry_ok_def by (auto, metis)
  moreover have "slot_ok E ov open ?T"
    using assms unfolding tables_inv_def slot_ok_def by auto
  ultimately show ?thesis
    using assms by (simp add: tables_inv_def tables_wf_def)
qed

lemma delete_entry_present:
  assumes "tables_inv E ov open T" and "tbl_get (rt_entry T) k = Some v" and "entry_row E ov T k v s"
    and "stamps_sound (env_postage E)"
  shows "delete_entry_in_tx E ov (target_of_entry k) T =
    (True, (rows_removed k v T)\<lparr>rt_stamp_index := tbl_delete (stamp_slot (env_postage E) s) (rt_stamp_index T)\<rparr>)"
proof -
  let ?t = "target_of_entry k"
  have "EntryKey (env_proximity E (ek_addr k) ov) (ek_batch k) (stamp_hash (env_postage E) s) (ek_addr k) = k"
    and po: "env_proximity E (ek_addr k) ov = ek_po k"
    using assms(3) by (auto simp: entry_row_def entry_key.expand)
  then have "tbl_get (rt_entry T)
      (EntryKey (env_proximity E (ek_addr k) ov) (ek_batch k) (stamp_hash (env_postage E) s) (ek_addr k)) = Some v"
    using assms(2) by simp
  moreover have "decode_stamp (env_postage E) (ev_stamp_bytes v) = Inr s"
    using assms(3,4) by (simp add: decode_stamp_def entry_row_def stamps_sound_def)
  moreover have "delete_entry_rows_in_tx (env_proximity E (ek_addr k) ov) ?t T = (True, rows_removed k v T)"
    unfolding po by (rule delete_rows_present [OF assms(2)])
  moreover have "tbl_get (rt_stamp_index T) (stamp_slot (env_postage E) s) = Some (occupant_of (env_postage E) s (ek_addr k))"
    "ek_stamp_hash k = stamp_hash (env_postage E) s"
    using assms(3) by (simp_all add: entry_row_def)
  ultimately show ?thesis
    by (simp add: delete_entry_in_tx_def stamp_slot_def occupant_of_def Let_def)
qed

lemma delete_entry_absent:
  assumes "tbl_get (rt_entry T) (EntryKey (env_proximity E (et_addr t) ov) (et_batch t) (et_stamp_hash t) (et_addr t)) = None"
  shows "delete_entry_in_tx E ov t T = (False, T)"
  using assms by (simp add: delete_entry_in_tx_def delete_entry_rows_in_tx_def)

section \<open>Adding an entry\<close>

lemma word_less_succ:
  assumes "(w :: 64 word) \<noteq> - 1"
  shows "unat (w + 1) = Suc (unat w)"
proof -
  have "unat w < 2 ^ 64" using unsigned_less [of w] by simp
  moreover have "unat w \<noteq> 2 ^ 64 - 1" using assms
    by (simp add: word_unat_eq_iff unsigned_minus_1_eq_mask mask_eq_exp_minus_1)
  ultimately have "unat w + 1 < 2 ^ 64" by simp
  then show ?thesis by (simp add: unat_word_ariths(1))
qed

text \<open>The entries of one address share a bin, and their sequences are distinct and within
  its counter, so there are no more of them than the counter says.\<close>

lemma entries_at_bound:
  assumes "tables_inv E ov open T"
  shows "entries_at a T \<le> unat (counter_of (env_bin E a ov) T)"
proof -
  define ks where "ks = filter (\<lambda>k. ek_addr k = a) (tbl_keys (rt_entry T))"
  define seq where "seq k = unat (ev_binid (the (tbl_get (rt_entry T) k)))" for k
  have wf: "tbl_wf (rt_entry T)" using assms by (simp add: tables_inv_def tables_wf_def)
  have "distinct ks" using tbl_wf_distinct [OF wf] by (simp add: ks_def tbl_keys_def tbl_entries_def)
  then have len: "entries_at a T = card (set ks)" unfolding entries_at_def ks_def [symmetric] by (simp add: distinct_card)
  have row: "\<exists>v s. tbl_get (rt_entry T) k = Some v \<and> entry_row E ov T k v s \<and> ek_addr k = a" if "k \<in> set ks" for k
  proof -
    have "tbl_get (rt_entry T) k \<noteq> None" using that by (auto simp: ks_def tbl_keys_def tbl_entries_def tbl_get_None)
    then show ?thesis using that entry_okD [OF assms, of k] by (auto simp: ks_def)
  qed
  have "inj_on seq (set ks)"
  proof (rule inj_onI)
    fix k k' assume k: "k \<in> set ks" "k' \<in> set ks" "seq k = seq k'"
    obtain v s where v: "tbl_get (rt_entry T) k = Some v" "entry_row E ov T k v s" "ek_addr k = a" using row k(1) by blast
    obtain v' s' where v': "tbl_get (rt_entry T) k' = Some v'" "entry_row E ov T k' v' s'" "ek_addr k' = a" using row k(2) by blast
    have "ev_binid v = ev_binid v'" using k(3) v(1) v'(1) by (simp add: seq_def word_unat_eq_iff)
    moreover have "ev_bin v = ev_bin v'" using v v' by (simp add: entry_row_def)
    ultimately show "k = k'" using same_replay_same_entry [OF v(2) v'(2)] by blast
  qed
  moreover have "seq ` set ks \<subseteq> {1..unat (counter_of (env_bin E a ov) T)}"
  proof
    fix n assume "n \<in> seq ` set ks"
    then obtain k where k: "k \<in> set ks" "n = seq k" by blast
    obtain v s where "tbl_get (rt_entry T) k = Some v" "entry_row E ov T k v s" "ek_addr k = a" using row k(1) by blast
    then show "n \<in> {1..unat (counter_of (env_bin E a ov) T)}"
      using k(2) by (auto simp: seq_def entry_row_def word_le_nat_alt word_less_nat_alt)
  qed
  ultimately have "card (set ks) \<le> card {1..unat (counter_of (env_bin E a ov) T)}"
    by (intro card_inj_on_le) auto
  then show ?thesis by (simp add: len)
qed

definition rows_added ::
  "entry_key \<Rightarrow> entry_value \<Rightarrow> 8 word \<Rightarrow> bytes \<Rightarrow> stamp_slot_key \<Rightarrow> stamp_index_entry \<Rightarrow> reserve_tables \<Rightarrow> reserve_tables" where
  "rows_added k v chunk_type typed_bytes slot e T =
     (let T2 = T\<lparr>
            rt_bin_counter := tbl_put (ev_bin v) (ev_binid v) (rt_bin_counter T),
            rt_replay := tbl_put (ReplayKey (ev_bin v) (ev_binid v))
              \<lparr>rv_address = ek_addr k, rv_batch_id = ek_batch k, rv_stamp_hash = ek_stamp_hash k,
               rv_chunk_type = chunk_type\<rparr> (rt_replay T),
            rt_entry := tbl_put k v (rt_entry T),
            rt_batch_group := tbl_put (group_key_of k) () (rt_batch_group T)\<rparr>;
          T3 = bump_or_insert_payload (ek_addr k) typed_bytes T2
      in T3\<lparr>rt_stamp_index := tbl_put slot e (rt_stamp_index T3)\<rparr>)"

lemma rows_added_tables [simp]:
  "rt_entry (rows_added k v ct tb slot e T) = tbl_put k v (rt_entry T)"
  "rt_bin_counter (rows_added k v ct tb slot e T) = tbl_put (ev_bin v) (ev_binid v) (rt_bin_counter T)"
  "rt_batch_group (rows_added k v ct tb slot e T) = tbl_put (group_key_of k) () (rt_batch_group T)"
  "rt_stamp_index (rows_added k v ct tb slot e T) = tbl_put slot e (rt_stamp_index T)"
  "rt_replay (rows_added k v ct tb slot e T) = tbl_put (ReplayKey (ev_bin v) (ev_binid v))
     \<lparr>rv_address = ek_addr k, rv_batch_id = ek_batch k, rv_stamp_hash = ek_stamp_hash k, rv_chunk_type = ct\<rparr> (rt_replay T)"
  by (simp_all add: rows_added_def Let_def)

lemma bump_payload_ok:
  assumes "payload_ok T" and "rt_payload T' = rt_payload T" and "entries_at a T' = Suc (entries_at a T)"
    and "\<And>b. b \<noteq> a \<Longrightarrow> entries_at b T' = entries_at b T" and "entries_at a T < u64_max"
  shows "payload_ok (bump_or_insert_payload a bs T')"
proof -
  have same: "entries_at b (bump_or_insert_payload a bs T') = entries_at b T'" for b by (simp add: entries_at_def)
  have ok: "case tbl_get (rt_payload T) b of None \<Rightarrow> entries_at b T = 0
    | Some q \<Rightarrow> pv_refcnt q = entries_at b T \<and> 0 < pv_refcnt q" for b
    using assms(1) unfolding payload_ok_def by blast
  show ?thesis unfolding payload_ok_def same
  proof
    fix b
    show "case tbl_get (rt_payload (bump_or_insert_payload a bs T')) b of None \<Rightarrow> entries_at b T' = 0
      | Some q \<Rightarrow> pv_refcnt q = entries_at b T' \<and> 0 < pv_refcnt q"
      using ok [of b] assms(3-5)
      by (cases "tbl_get (rt_payload T) b"; cases "tbl_get (rt_payload T) a"; cases "b = a")
        (auto simp: bump_or_insert_payload_def assms(2) u64_wrapping_add_def)
  qed
qed

text \<open>A new entry: its key and value, as the stamp, the address and the counter give them.\<close>

definition fresh_entry ::
  "('st, 'se, 'b, 'c, 'ch) reserve_env \<Rightarrow> b256 \<Rightarrow> reserve_tables \<Rightarrow> entry_key \<Rightarrow> entry_value \<Rightarrow> 'st \<Rightarrow> bool" where
  "fresh_entry E ov T k v s \<longleftrightarrow>
     k = EntryKey (env_proximity E (ek_addr k) ov) (st_batch (env_postage E) s) (stamp_hash (env_postage E) s) (ek_addr k) \<and>
     counter_of (env_bin E (ek_addr k) ov) T \<noteq> - 1 \<and>
     v = \<lparr>ev_bin = env_bin E (ek_addr k) ov, ev_binid = counter_of (env_bin E (ek_addr k) ov) T + 1,
          ev_stamp_bytes = st_to_bytes (env_postage E) s\<rparr>"

lemma fresh_entry_key:
  assumes "stamps_sound (env_postage E)" and "tables_inv E ov {stamp_slot (env_postage E) s} T"
    and "fresh_entry E ov T k v s"
  shows "tbl_get (rt_entry T) k = None"
proof (rule ccontr)
  assume "tbl_get (rt_entry T) k \<noteq> None"
  then obtain v' where "tbl_get (rt_entry T) k = Some v'" by blast
  then obtain s' where "entry_row E ov T k v' s'" "stamp_slot (env_postage E) s' \<noteq> stamp_slot (env_postage E) s"
    using entry_okD [OF assms(2)] by blast
  moreover have "ek_stamp_hash k = stamp_hash (env_postage E) s" using assms(3) unfolding fresh_entry_def by (metis entry_key.sel(3))
  ultimately show False using assms(1) by (simp add: entry_row_def stamp_unique)
qed

lemma fresh_entry_sequence:
  assumes "tables_inv E ov open T" and "fresh_entry E ov T k v s"
  shows "tbl_get (rt_replay T) (ReplayKey (ev_bin v) (ev_binid v)) = None"
    and "counter_of (ev_bin v) T < ev_binid v"
proof -
  show less: "counter_of (ev_bin v) T < ev_binid v"
    using assms(2) word_less_succ [of "counter_of (ev_bin v) T"]
    by (auto simp: fresh_entry_def word_less_nat_alt)
  show "tbl_get (rt_replay T) (ReplayKey (ev_bin v) (ev_binid v)) = None"
  proof (rule ccontr)
    assume "tbl_get (rt_replay T) (ReplayKey (ev_bin v) (ev_binid v)) \<noteq> None"
    then obtain k' v' where "tbl_get (rt_entry T) k' = Some v'" "ev_bin v' = ev_bin v" "ev_binid v' = ev_binid v"
      using assms(1) unfolding tables_inv_def replay_ok_def by fastforce
    then show False using entry_okD [OF assms(1), of k' v'] less by (auto simp: entry_row_def)
  qed
qed

lemma entries_at_put:
  assumes "tbl_get (rt_entry T) k = None" and "rt_entry T' = tbl_put k v (rt_entry T)"
  shows "entries_at a T' = (if ek_addr k = a then 1 else 0) + entries_at a T"
  using tbl_put_fresh_filter [OF assms(1)] by (simp add: entries_at_def assms(2))

lemma rows_added_payload:
  assumes "stamps_sound (env_postage E)" and "tables_inv E ov {stamp_slot (env_postage E) s} T"
    and "fresh_entry E ov T k v s"
  shows "payload_ok (rows_added k v ct tb slot e T)"
proof -
  have ok: "payload_ok T" using assms(2) by (simp add: tables_inv_def)
  define T2 where "T2 = T\<lparr>
    rt_bin_counter := tbl_put (ev_bin v) (ev_binid v) (rt_bin_counter T),
    rt_replay := tbl_put (ReplayKey (ev_bin v) (ev_binid v))
      \<lparr>rv_address = ek_addr k, rv_batch_id = ek_batch k, rv_stamp_hash = ek_stamp_hash k,
       rv_chunk_type = ct\<rparr> (rt_replay T),
    rt_entry := tbl_put k v (rt_entry T),
    rt_batch_group := tbl_put (group_key_of k) () (rt_batch_group T)\<rparr>"
  have "entries_at a T2 = (if ek_addr k = a then 1 else 0) + entries_at a T" for a
    by (rule entries_at_put [OF fresh_entry_key [OF assms]]) (simp add: T2_def)
  moreover have "unat (counter_of (env_bin E (ek_addr k) ov) T + 1) < 2 ^ 64"
    using unsigned_less [of "counter_of (env_bin E (ek_addr k) ov) T + 1"] by simp
  then have "entries_at (ek_addr k) T < u64_max"
    using entries_at_bound [OF assms(2), of "ek_addr k"] word_less_succ [of "counter_of (env_bin E (ek_addr k) ov) T"]
      assms(3) by (simp add: fresh_entry_def)
  ultimately have "payload_ok (bump_or_insert_payload (ek_addr k) tb T2)"
    by (intro bump_payload_ok [OF ok]) (simp_all add: T2_def)
  then show ?thesis by (simp add: rows_added_def T2_def Let_def)
qed

lemma counter_of_added:
  "counter_of b (rows_added k v ct tb slot e T) = (if b = ev_bin v then ev_binid v else counter_of b T)"
  by (simp add: counter_of_def)

lemma rows_added_entries:
  assumes "stamps_sound (env_postage E)" and "tables_inv E ov {stamp_slot (env_postage E) s} T"
    and "fresh_entry E ov T k v s"
  shows "entry_ok E ov {} (rows_added k v ct tb (stamp_slot (env_postage E) s) (occupant_of (env_postage E) s (ek_addr k)) T)"
    (is "entry_ok E ov {} ?T")
  unfolding entry_ok_def
proof (intro allI impI)
  fix k' v' assume get: "tbl_get (rt_entry ?T) k' = Some v'"
  note seq = fresh_entry_sequence [OF assms(2,3)]
  show "\<exists>s'. entry_row E ov ?T k' v' s' \<and> stamp_slot (env_postage E) s' \<notin> {}"
  proof (cases "k' = k")
    case True
    have "0 < ev_binid v" using seq(2) by (auto simp: word_less_nat_alt)
    moreover have "ek_po k = env_proximity E (ek_addr k) ov" "ek_batch k = st_batch (env_postage E) s"
      "ek_stamp_hash k = stamp_hash (env_postage E) s" "ev_bin v = env_bin E (ek_addr k) ov"
      "ev_stamp_bytes v = st_to_bytes (env_postage E) s"
      using assms(3) unfolding fresh_entry_def by (metis entry_key.sel entry_value.select_convs)+
    ultimately show ?thesis using True get unfolding entry_row_def counter_of_added by auto
  next
    case False
    then obtain s' where s': "entry_row E ov T k' v' s'" "stamp_slot (env_postage E) s' \<noteq> stamp_slot (env_postage E) s"
      using get entry_okD [OF assms(2), of k' v'] by auto
    moreover have "(ev_bin v', ev_binid v') \<noteq> (ev_bin v, ev_binid v)" using s'(1) seq(1) by (auto simp: entry_row_def)
    moreover have "ev_binid v' \<le> counter_of (ev_bin v') ?T"
      using s'(1) seq(2) unfolding counter_of_added by (auto simp: entry_row_def)
    ultimately show ?thesis unfolding entry_row_def by auto
  qed
qed

lemma rows_added_slots:
  assumes "tables_inv E ov {stamp_slot (env_postage E) s} T" and "fresh_entry E ov T k v s"
  shows "slot_ok E ov {} (rows_added k v ct tb (stamp_slot (env_postage E) s) (occupant_of (env_postage E) s (ek_addr k)) T)"
    (is "slot_ok E ov {} ?T")
  unfolding slot_ok_def
proof (intro allI impI)
  fix slot e assume get: "tbl_get (rt_stamp_index ?T) slot = Some e"
  let ?k = "EntryKey (env_proximity E (si_address e) ov) (slot_batch_id slot) (si_stamp_hash e) (si_address e)"
  show "\<exists>v' s'. tbl_get (rt_entry ?T) ?k = Some v' \<and> si_stamp_hash e = stamp_hash (env_postage E) s' \<and>
      stamp_slot (env_postage E) s' = slot"
  proof (cases "slot = stamp_slot (env_postage E) s")
    case True
    then have e: "e = occupant_of (env_postage E) s (ek_addr k)" using get by simp
    then have "?k = k" using True assms(2) by (simp add: occupant_of_def stamp_slot_def fresh_entry_def)
    then show ?thesis using True e by (auto simp: occupant_of_def)
  next
    case False
    then have "tbl_get (rt_stamp_index T) slot = Some e" using get by simp
    from slot_okD [OF assms(1) _ this] False show ?thesis by auto
  qed
qed

lemma rows_added_replay:
  assumes "stamps_sound (env_postage E)" and "tables_inv E ov {stamp_slot (env_postage E) s} T"
    and "fresh_entry E ov T k v s"
  shows "replay_ok E ov (rows_added k v ct tb slot e T)"
  unfolding replay_ok_def
proof (intro allI impI)
  fix r rv assume get: "tbl_get (rt_replay (rows_added k v ct tb slot e T)) r = Some rv"
  let ?k = "EntryKey (env_proximity E (rv_address rv) ov) (rv_batch_id rv) (rv_stamp_hash rv) (rv_address rv)"
  have key: "k = EntryKey (env_proximity E (ek_addr k) ov) (ek_batch k) (ek_stamp_hash k) (ek_addr k)"
    using assms(3) unfolding fresh_entry_def by (metis entry_key.sel)
  show "\<exists>v'. tbl_get (rt_entry (rows_added k v ct tb slot e T)) ?k = Some v' \<and>
      ev_bin v' = rk_bin r \<and> ev_binid v' = rk_binid r"
  proof (cases "r = ReplayKey (ev_bin v) (ev_binid v)")
    case True
    then show ?thesis using get key by auto
  next
    case False
    then obtain v' where "tbl_get (rt_entry T) ?k = Some v'" "ev_bin v' = rk_bin r" "ev_binid v' = rk_binid r"
      using get assms(2) unfolding tables_inv_def replay_ok_def by fastforce
    moreover then have "?k \<noteq> k" using fresh_entry_key [OF assms] by auto
    ultimately show ?thesis by simp
  qed
qed

lemma rows_added_inv:
  assumes "stamps_sound (env_postage E)" and "tables_inv E ov {stamp_slot (env_postage E) s} T"
    and "fresh_entry E ov T k v s"
  shows "tables_inv E ov {}
    (rows_added k v ct tb (stamp_slot (env_postage E) s) (occupant_of (env_postage E) s (ek_addr k)) T)"
    (is "tables_inv E ov {} ?T")
proof -
  have "tables_wf ?T"
    using assms(2) by (simp add: tables_inv_def tables_wf_def) (simp add: rows_added_def Let_def bump_payload_wf)
  moreover have "group_ok ?T"
    using assms(2) by (auto simp: tables_inv_def group_ok_def entry_key_of_group_key)
  ultimately show ?thesis
    using rows_added_payload [OF assms] rows_added_replay [OF assms] rows_added_entries [OF assms] rows_added_slots [OF assms(2,3)]
    by (simp add: tables_inv_def)
qed

section \<open>Transactions keep the invariant\<close>

lemma delete_entry_inv:
  assumes "stamps_sound (env_postage E)" and "tables_inv E ov {} T"
  shows "tables_inv E ov {} (snd (delete_entry_in_tx E ov t T))"
proof -
  define k where "k = EntryKey (env_proximity E (et_addr t) ov) (et_batch t) (et_stamp_hash t) (et_addr t)"
  have t: "target_of_entry k = t" by (simp add: k_def target_of_entry_def)
  show ?thesis
  proof (cases "tbl_get (rt_entry T) k")
    case None
    then show ?thesis using assms(2) delete_entry_absent [of T E t ov] by (simp add: k_def)
  next
    case (Some v)
    then obtain s where s: "entry_row E ov T k v s" using entry_okD [OF assms(2)] by blast
    show ?thesis
      using delete_entry_present [OF assms(2) Some s assms(1)] close_slot [of E ov _ "{}"]
        rows_removed_inv [OF assms(2) Some s assms(1)]
      by (metis rows_removed_tables(5) snd_conv t)
  qed
qed

lemma evict_loop_inv:
  assumes "stamps_sound (env_postage E)" and "tables_inv E ov {} T"
  shows "tables_inv E ov {} (snd (evict_loop E ov ts n T))"
  using assms(2)
proof (induction ts arbitrary: n T)
  case (Cons t ts)
  then show ?case using delete_entry_inv [OF assms(1) Cons.prems, of t]
    by (cases "delete_entry_in_tx E ov t T") simp
qed simp

text \<open>The incoming record of a stamp, as \<^verbatim>\<open>put\<close> builds it.\<close>

definition incoming_of :: "('st, 'se, 'b, 'c) postage_lib \<Rightarrow> 'st \<Rightarrow> b256 \<Rightarrow> incoming_stamp" where
  "incoming_of L s a =
     \<lparr>in_batch_id = st_batch L s, in_stamp_index = st_stamp_index L s, in_timestamp = word_bytes (st_timestamp L s),
      in_stamp_hash = stamp_hash L s, in_address = a\<rparr>"

lemma incoming_of_slot: "incoming_slot (incoming_of L s a) = stamp_slot L s"
  by (simp add: incoming_slot_def incoming_of_def stamp_slot_def)

lemma incoming_of_entry: "incoming_entry (incoming_of L s a) = occupant_of L s a"
  by (simp add: incoming_entry_def incoming_of_def occupant_of_def)

text \<open>Opening the slot of the incoming stamp: it is empty, or its occupant's rows go.\<close>

definition displaced_removed ::
  "(b256 \<Rightarrow> 8 word) \<Rightarrow> b256 \<Rightarrow> displaced_entry option \<Rightarrow> reserve_tables \<Rightarrow> reserve_tables" where
  "displaced_removed po_of batch displaced T =
     (case displaced of
        None \<Rightarrow> T
      | Some d \<Rightarrow>
          snd (delete_entry_rows_in_tx (po_of (de_address d))
            \<lparr>et_batch = batch, et_stamp_hash = de_stamp_hash d, et_addr = de_address d\<rparr> T))"

lemma open_empty_slot:
  assumes "tables_inv E ov {} T" and "tbl_get (rt_stamp_index T) slot = None"
  shows "tables_inv E ov {slot} T"
proof -
  have "stamp_slot (env_postage E) s \<noteq> slot" if "entry_row E ov T k v s" for k v s
    using that assms(2) by (auto simp: entry_row_def)
  then have "entry_ok E ov {slot} T" using assms(1) unfolding tables_inv_def entry_ok_def by blast
  then show ?thesis using assms(1) by (simp add: tables_inv_def slot_ok_def)
qed

lemma displaced_removed_inv:
  assumes "stamps_sound (env_postage E)" and "tables_inv E ov {} T"
    and "decide (tbl_get (rt_stamp_index T) (stamp_slot (env_postage E) s)) (incoming_of (env_postage E) s a) = Admit displaced"
  shows "tables_inv E ov {stamp_slot (env_postage E) s}
    (displaced_removed (\<lambda>a. env_proximity E a ov) (st_batch (env_postage E) s) displaced T)"
proof (cases "tbl_get (rt_stamp_index T) (stamp_slot (env_postage E) s)")
  case None
  then have "displaced = None" using assms(3) by (simp add: decide_def)
  then show ?thesis using open_empty_slot [OF assms(2) None] by (simp add: displaced_removed_def)
next
  case (Some e)
  let ?slot = "stamp_slot (env_postage E) s"
  define k where "k = EntryKey (env_proximity E (si_address e) ov) (slot_batch_id ?slot) (si_stamp_hash e) (si_address e)"
  obtain v s' where v: "tbl_get (rt_entry T) k = Some v" "si_stamp_hash e = stamp_hash (env_postage E) s'"
      "stamp_slot (env_postage E) s' = ?slot"
    using slot_okD [OF assms(2) _ Some] unfolding k_def by blast
  obtain s'' where row: "entry_row E ov T k v s''" using entry_okD [OF assms(2) v(1)] by blast
  then have "s'' = s'" using v(2) assms(1) by (simp add: k_def entry_row_def stamp_unique)
  with row v(3) rows_removed_inv [OF assms(2) v(1) row assms(1)]
  have inv: "tables_inv E ov {?slot} (rows_removed k v T)" by simp
  have "displaced = Some \<lparr>de_address = si_address e, de_stamp_hash = si_stamp_hash e, de_timestamp = si_timestamp e\<rparr>"
    using assms(3) Some by (simp add: decide_def split: if_splits)
  then have "displaced_removed (\<lambda>a. env_proximity E a ov) (st_batch (env_postage E) s) displaced T =
      snd (delete_entry_rows_in_tx (ek_po k) (target_of_entry k) T)"
    by (simp add: displaced_removed_def k_def target_of_entry_def stamp_slot_def)
  then show ?thesis using inv delete_rows_present [OF v(1)] by simp
qed

lemma displaced_removed_count:
  assumes "stamps_sound (env_postage E)" and "tables_inv E ov {} T"
    and "decide (tbl_get (rt_stamp_index T) (stamp_slot (env_postage E) s)) (incoming_of (env_postage E) s a) = Admit displaced"
  shows "tbl_count (rt_entry T) =
    tbl_count (rt_entry (displaced_removed (\<lambda>a. env_proximity E a ov) (st_batch (env_postage E) s) displaced T)) +
    (if displaced = None then 0 else 1)"
proof (cases displaced)
  case None
  then show ?thesis by (simp add: displaced_removed_def)
next
  case (Some d)
  then obtain e where e: "tbl_get (rt_stamp_index T) (stamp_slot (env_postage E) s) = Some e"
    "d = \<lparr>de_address = si_address e, de_stamp_hash = si_stamp_hash e, de_timestamp = si_timestamp e\<rparr>"
    using assms(3) by (auto simp: decide_def split: option.splits if_splits)
  define k where "k = EntryKey (env_proximity E (si_address e) ov) (st_batch (env_postage E) s) (si_stamp_hash e) (si_address e)"
  obtain v where v: "tbl_get (rt_entry T) k = Some v"
    using slot_okD [OF assms(2) _ e(1)] by (auto simp: k_def stamp_slot_def)
  have wf: "tbl_wf (rt_entry T)" using assms(2) by (simp add: tables_inv_def tables_wf_def)
  have "displaced_removed (\<lambda>a. env_proximity E a ov) (st_batch (env_postage E) s) displaced T =
      snd (delete_entry_rows_in_tx (ek_po k) (target_of_entry k) T)"
    using Some e(2) by (simp add: displaced_removed_def k_def target_of_entry_def)
  then show ?thesis using delete_rows_present [OF v] tbl_delete_count [OF wf v] Some by simp
qed

lemma put_tx_reject:
  "decide (tbl_get (rt_stamp_index T) (incoming_slot i)) i = Reject r \<Longrightarrow>
     put_tx po_of bin ct sb tb i T = (Inr Rejected, T)"
  by (simp add: put_tx_def Let_def)

lemma put_tx_admit:
  fixes L :: "('st, 'se, 'b, 'c) postage_lib"
  assumes "decide (tbl_get (rt_stamp_index T) (stamp_slot L s)) (incoming_of L s a) = Admit displaced"
    and "T1 = displaced_removed po_of (st_batch L s) displaced T"
  shows "put_tx po_of bin ct sb tb (incoming_of L s a) T =
    (if counter_of bin T1 = - 1 then (Inl (CounterExhausted bin), T1)
     else (Inr (if displaced \<noteq> None then Restamped else Admitted),
           rows_added (EntryKey (po_of a) (st_batch L s) (stamp_hash L s) a)
             \<lparr>ev_bin = bin, ev_binid = counter_of bin T1 + 1, ev_stamp_bytes = sb\<rparr> ct tb
             (stamp_slot L s) (occupant_of L s a) T1))"
proof -
  have i: "in_batch_id (incoming_of L s a) = st_batch L s" "in_stamp_hash (incoming_of L s a) = stamp_hash L s"
    "in_address (incoming_of L s a) = a"
    by (simp_all add: incoming_of_def)
  show ?thesis
    unfolding put_tx_def Let_def incoming_of_slot incoming_of_entry assms(1) i arbitration.case
      displaced_removed_def [symmetric] assms(2) [symmetric] counter_of_def [symmetric] rows_added_def
    by (simp add: group_key_of_def)
qed

lemma put_tx_inv:
  assumes "stamps_sound (env_postage E)" and "tables_inv E ov {} T"
    and "put_tx (\<lambda>a. env_proximity E a ov) (env_bin E a ov) ct (st_to_bytes (env_postage E) s) tb
           (incoming_of (env_postage E) s a) T = (Inr outcome, T')"
  shows "tables_inv E ov {} T'"
proof (cases "decide (tbl_get (rt_stamp_index T) (stamp_slot (env_postage E) s)) (incoming_of (env_postage E) s a)")
  case (Reject r)
  then show ?thesis using assms(2,3) by (simp add: put_tx_reject incoming_of_slot)
next
  case (Admit displaced)
  define T1 where "T1 = displaced_removed (\<lambda>a. env_proximity E a ov) (st_batch (env_postage E) s) displaced T"
  define k where "k = EntryKey (env_proximity E a ov) (st_batch (env_postage E) s) (stamp_hash (env_postage E) s) a"
  define v where "v = \<lparr>ev_bin = env_bin E a ov, ev_binid = counter_of (env_bin E a ov) T1 + 1,
    ev_stamp_bytes = st_to_bytes (env_postage E) s\<rparr>"
  have opened: "tables_inv E ov {stamp_slot (env_postage E) s} T1"
    unfolding T1_def by (rule displaced_removed_inv [OF assms(1,2) Admit])
  have put: "counter_of (env_bin E a ov) T1 \<noteq> - 1"
    "T' = rows_added k v ct tb (stamp_slot (env_postage E) s) (occupant_of (env_postage E) s a) T1"
    using assms(3) unfolding put_tx_admit [OF Admit T1_def] k_def v_def by (auto split: if_splits)
  then have "fresh_entry E ov T1 k v s" by (simp add: fresh_entry_def k_def v_def)
  from rows_added_inv [OF assms(1) opened this] put(2) show ?thesis by (simp add: k_def)
qed

section \<open>Effect on the entry table\<close>

definition key_of_target :: "('st, 'se, 'b, 'c, 'ch) reserve_env \<Rightarrow> b256 \<Rightarrow> evict_target \<Rightarrow> entry_key" where
  "key_of_target E ov t = EntryKey (env_proximity E (et_addr t) ov) (et_batch t) (et_stamp_hash t) (et_addr t)"

lemma delete_entry_tables:
  "rt_entry (snd (delete_entry_in_tx E ov t T)) = tbl_delete (key_of_target E ov t) (rt_entry T)"
  "rt_bin_counter (snd (delete_entry_in_tx E ov t T)) = rt_bin_counter T"
  "rt_metadata (snd (delete_entry_in_tx E ov t T)) = rt_metadata T"
  "fst (delete_entry_in_tx E ov t T) \<longleftrightarrow> tbl_get (rt_entry T) (key_of_target E ov t) \<noteq> None"
  by (auto simp: delete_entry_in_tx_def delete_entry_rows_in_tx_def key_of_target_def Let_def tbl_delete_absent
      split: option.splits sum.splits)

lemma evict_loop_tables:
  "rt_entry (snd (evict_loop E ov ts n T)) = fold tbl_delete (map (key_of_target E ov) ts) (rt_entry T)"
  "rt_bin_counter (snd (evict_loop E ov ts n T)) = rt_bin_counter T"
  "rt_metadata (snd (evict_loop E ov ts n T)) = rt_metadata T"
  by (induction ts arbitrary: n T) (simp_all add: case_prod_beta delete_entry_tables)

lemma evict_loop_count:
  assumes "tbl_wf (rt_entry T)"
  shows "fst (evict_loop E ov ts n T) + tbl_count (rt_entry (snd (evict_loop E ov ts n T))) = n + tbl_count (rt_entry T)"
  using assms
proof (induction ts arbitrary: n T)
  case (Cons t ts)
  have wf: "tbl_wf (rt_entry (snd (delete_entry_in_tx E ov t T)))" using Cons.prems by (simp add: delete_entry_tables)
  have "(if fst (delete_entry_in_tx E ov t T) then 1 else 0) +
      tbl_count (rt_entry (snd (delete_entry_in_tx E ov t T))) = tbl_count (rt_entry T)"
    using tbl_delete_count [OF Cons.prems, of "key_of_target E ov t"] tbl_delete_absent [of "rt_entry T" "key_of_target E ov t"]
    by (auto simp: delete_entry_tables)
  with Cons.IH [OF wf, of "if fst (delete_entry_in_tx E ov t T) then n + 1 else n"]
  show ?case by (auto simp: case_prod_beta split: if_splits)
qed simp

lemma displaced_removed_tables:
  "rt_bin_counter (displaced_removed po_of batch displaced T) = rt_bin_counter T"
  "rt_metadata (displaced_removed po_of batch displaced T) = rt_metadata T"
  by (auto simp: displaced_removed_def delete_entry_rows_in_tx_def Let_def split: option.splits)

section \<open>The reserve\<close>

definition reserve_inv :: "('st, 'se, 'b, 'c, 'ch) reserve_env \<Rightarrow> ('b, 'c) db_reserve \<Rightarrow> bool" where
  "reserve_inv E R \<longleftrightarrow>
     tables_inv E (dr_overlay R) {} (dr_tables R) \<and> rs_count (dr_reserve R) = reserve_count R"

lemma evict_entries_inv:
  assumes "stamps_sound (env_postage E)" and "reserve_inv E R"
  shows "reserve_inv E (snd (evict_entries E ts R))"
proof -
  have wf: "tbl_wf (rt_entry (dr_tables R))" using assms(2) by (simp add: reserve_inv_def tables_inv_def tables_wf_def)
  have "tables_inv E (dr_overlay R) {} (snd (evict_loop E (dr_overlay R) ts 0 (dr_tables R)))"
    using evict_loop_inv assms by (auto simp: reserve_inv_def)
  with evict_loop_count [OF wf, of E "dr_overlay R" ts 0] assms(2) show ?thesis
    by (auto simp: evict_entries_def reserve_inv_def reserve_count_def on_removed_n_def case_prod_beta)
qed

lemma evict_entries_get:
  "tbl_get (rt_entry (dr_tables (snd (evict_entries E ts R)))) k =
     (if k \<in> key_of_target E (dr_overlay R) ` set ts then None else tbl_get (rt_entry (dr_tables R)) k)"
  by (auto simp: evict_entries_def case_prod_beta evict_loop_tables table.get_delete_all)

lemma evict_entries_fields [simp]:
  "dr_overlay (snd (evict_entries E ts R)) = dr_overlay R" "dr_epoch (snd (evict_entries E ts R)) = dr_epoch R"
  "dr_radius (snd (evict_entries E ts R)) = dr_radius R" "dr_batches (snd (evict_entries E ts R)) = dr_batches R"
  "rs_capacity (dr_reserve (snd (evict_entries E ts R))) = rs_capacity (dr_reserve R)"
  "rt_bin_counter (dr_tables (snd (evict_entries E ts R))) = rt_bin_counter (dr_tables R)"
  by (simp_all add: evict_entries_def case_prod_beta evict_loop_tables on_removed_n_def)

lemma evict_entries_count:
  assumes "tbl_wf (rt_entry (dr_tables R))"
  shows "fst (evict_entries E ts R) + reserve_count (snd (evict_entries E ts R)) = reserve_count R"
  using evict_loop_count [OF assms, of E "dr_overlay R" ts 0]
  by (simp add: evict_entries_def case_prod_beta reserve_count_def)

lemma put_tx_count:
  assumes "stamps_sound (env_postage E)" and "tables_inv E ov {} T"
    and "put_tx (\<lambda>a. env_proximity E a ov) (env_bin E a ov) ct (st_to_bytes (env_postage E) s) tb
           (incoming_of (env_postage E) s a) T = (Inr outcome, T')"
  shows "tbl_count (rt_entry T') = tbl_count (rt_entry T) + (if outcome = Admitted then 1 else 0)"
proof (cases "decide (tbl_get (rt_stamp_index T) (stamp_slot (env_postage E) s)) (incoming_of (env_postage E) s a)")
  case (Reject r)
  then show ?thesis using assms(3) by (auto simp: put_tx_reject incoming_of_slot)
next
  case (Admit displaced)
  define T1 where "T1 = displaced_removed (\<lambda>a. env_proximity E a ov) (st_batch (env_postage E) s) displaced T"
  define k where "k = EntryKey (env_proximity E a ov) (st_batch (env_postage E) s) (stamp_hash (env_postage E) s) a"
  define v where "v = \<lparr>ev_bin = env_bin E a ov, ev_binid = counter_of (env_bin E a ov) T1 + 1,
    ev_stamp_bytes = st_to_bytes (env_postage E) s\<rparr>"
  have opened: "tables_inv E ov {stamp_slot (env_postage E) s} T1"
    unfolding T1_def by (rule displaced_removed_inv [OF assms(1,2) Admit])
  have put: "counter_of (env_bin E a ov) T1 \<noteq> - 1" "rt_entry T' = tbl_put k v (rt_entry T1)"
    "outcome = (if displaced \<noteq> None then Restamped else Admitted)"
    using assms(3) unfolding put_tx_admit [OF Admit T1_def] k_def v_def by (auto split: if_splits)
  then have "fresh_entry E ov T1 k v s" by (simp add: fresh_entry_def k_def v_def)
  from tbl_put_fresh_count [OF fresh_entry_key [OF assms(1) opened this]] put(2)
  have added: "tbl_count (rt_entry T') = Suc (tbl_count (rt_entry T1))" by simp
  show ?thesis
  proof (cases displaced)
    case None
    then show ?thesis using added put(3) by (simp add: T1_def displaced_removed_def)
  next
    case (Some d)
    have "tbl_count (rt_entry T) = Suc (tbl_count (rt_entry T1))"
      using displaced_removed_count [OF assms(1,2) Admit] Some by (simp add: T1_def)
    then show ?thesis using added put(3) Some by simp
  qed
qed

text \<open>A put either fails and changes nothing, or runs its transaction on a validated stamp.\<close>

lemma reserve_put_cases:
  fixes E :: "('st, 'se, 'b, 'c, 'ch) reserve_env"
  assumes "reserve_put E chunk R = (res, R')"
  obtains (failed) e where "res = Inl e" and "R' = R"
  | (stored) s batch outcome T' where "res = Inr ()" and "cc_stamp chunk = Some s"
      and "batch_get (dr_batches R) (st_batch (env_postage E) s) = Some batch"
      and "validate (env_postage E) (dr_admission R) s (env_chunk_address E (cc_chunk chunk)) batch
             (batch_context (env_postage E) (dr_batches R)) = Inr ()"
      and "put_tx (\<lambda>a. env_proximity E a (dr_overlay R)) (env_bin E (env_chunk_address E (cc_chunk chunk)) (dr_overlay R))
             (env_chunk_type E (cc_chunk chunk)) (st_to_bytes (env_postage E) s) (env_to_typed_bytes E (cc_chunk chunk))
             (incoming_of (env_postage E) s (env_chunk_address E (cc_chunk chunk))) (dr_tables R) =
             (Inr outcome :: 'se swarm_error + put_outcome, T')"
      and "R' = R\<lparr>dr_tables := T',
             dr_reserve := (case outcome of Admitted \<Rightarrow> on_added (dr_reserve R) | _ \<Rightarrow> dr_reserve R)\<rparr>"
proof -
  let ?L = "env_postage E" and ?a = "env_chunk_address E (cc_chunk chunk)"
  let ?tx = "\<lambda>s. put_tx (\<lambda>a. env_proximity E a (dr_overlay R)) (env_bin E ?a (dr_overlay R))
    (env_chunk_type E (cc_chunk chunk)) (st_to_bytes ?L s) (env_to_typed_bytes E (cc_chunk chunk)) (incoming_of ?L s ?a)"
  show thesis
  proof (cases "cc_stamp chunk")
    case None
    then show thesis using assms failed by (auto simp: reserve_put_def)
  next
    case s: (Some s)
    show thesis
    proof (cases "batch_get (dr_batches R) (st_batch ?L s)")
      case None
      then show thesis using assms s failed by (auto simp: reserve_put_def)
    next
      case batch: (Some batch)
      show thesis
      proof (cases "validate ?L (dr_admission R) s ?a batch (batch_context ?L (dr_batches R))")
        case (Inl e)
        then show thesis using assms s batch failed by (auto simp: reserve_put_def)
      next
        case (Inr u)
        have po: "reserve_po_of E R = (\<lambda>a. env_proximity E a (dr_overlay R))" by (simp add: reserve_po_of_def fun_eq_iff)
        note put = assms [unfolded reserve_put_def Let_def s batch Inr option.case sum.case po
            incoming_of_def [symmetric] db_update_def]
        show thesis
        proof (cases "?tx s (dr_tables R) :: ('se swarm_error + put_outcome) \<times> reserve_tables")
          case (Pair r T')
          show thesis
          proof (cases r)
            case (Inl e)
            then show thesis using put Pair failed by auto
          next
            case outcome: (Inr outcome)
            then show thesis using put Pair s batch Inr by (intro stored [of s batch outcome T']) auto
          qed
        qed
      qed
    qed
  qed
qed

end
