(* ===== verification/Db_Reserve_Evict.thy ===== *)
theory Db_Reserve_Evict
  imports Db_Reserve_Inv
begin

text \<open>
  What the eviction verbs of the reserve remove. The cursor loops collect a prefix of a
  contiguous key range; since the entry table is keyed by proximity first and the group
  table by batch and proximity, that prefix is the furthest part of the range.
\<close>

section \<open>The cursor loops\<close>

lemma collect_front_take:
  "length ts < n \<Longrightarrow> collect_front n rows ts = ts @ map (\<lambda>r. target_of_entry (fst r)) (take (n - length ts) rows)"
proof (induction n rows ts rule: collect_front.induct)
  case (2 n k v rows ts)
  show ?case
  proof (cases "n \<le> Suc (length ts)")
    case True
    then have "n = Suc (length ts)" using "2.prems" by simp
    then show ?thesis by simp
  next
    case False
    then have "n - length ts = Suc (n - Suc (length ts))" by simp
    with False "2.IH" show ?thesis by simp
  qed
qed simp

lemma collect_bin_take:
  "length ts < n \<Longrightarrow>
     collect_bin po n rows ts =
       ts @ map (\<lambda>r. target_of_entry (fst r)) (take (n - length ts) (takeWhile (\<lambda>r. ek_po (fst r) = po) rows))"
proof (induction po n rows ts rule: collect_bin.induct)
  case (2 po n k v rows ts)
  show ?case
  proof (cases "n \<le> Suc (length ts)")
    case True
    then have "n = Suc (length ts)" using "2.prems" by simp
    then show ?thesis by simp
  next
    case False
    then have "n - length ts = Suc (n - Suc (length ts))" by simp
    with False "2.IH" show ?thesis by simp
  qed
qed simp

definition below_bound :: "8 word option \<Rightarrow> 8 word \<Rightarrow> bool" where
  "below_bound bound po \<longleftrightarrow> (case bound of None \<Rightarrow> True | Some b \<Rightarrow> po < b)"

lemma collect_batch_take:
  "length ts < n \<Longrightarrow>
     collect_batch batch bound n rows ts =
       ts @ map (\<lambda>r. target_of_group (fst r))
         (take (n - length ts) (takeWhile (\<lambda>r. bg_batch (fst r) = batch \<and> below_bound bound (bg_po (fst r))) rows))"
proof (induction batch bound n rows ts rule: collect_batch.induct)
  case (2 batch bound n k v rows ts)
  have stop: "(case bound of Some b \<Rightarrow> b \<le> bg_po k | None \<Rightarrow> False) \<longleftrightarrow> \<not> below_bound bound (bg_po k)"
    by (auto simp: below_bound_def not_less split: option.splits)
  show ?case
  proof (cases "n \<le> Suc (length ts)")
    case True
    then have "n = Suc (length ts)" using "2.prems" by simp
    then show ?thesis by (simp add: stop)
  next
    case False
    then have "n - length ts = Suc (n - Suc (length ts))" by simp
    with False "2.IH" show ?thesis by (simp add: stop)
  qed
qed simp

lemma collect_address_filter:
  "collect_address po a rows ts =
     ts @ map (\<lambda>r. target_of_entry (fst r))
       (filter (\<lambda>r. ek_addr (fst r) = a) (takeWhile (\<lambda>r. ek_po (fst r) = po) rows))"
  by (induction po a rows ts rule: collect_address.induct) auto

lemma count_rows_length: "count_rows po rows n = n + length (takeWhile (\<lambda>r. ek_po (fst r) = po) rows)"
  by (induction po rows n rule: count_rows.induct) auto

section \<open>Ranges of the tables\<close>

lemma entry_less_po: "k < k' \<Longrightarrow> ek_po k \<le> ek_po k'"
  by (auto simp: less_entry_key_def entry_key_fields_def)

lemma entry_less_seek: "k < EntryKey po 0 0 0 \<longleftrightarrow> ek_po k < po"
  by (auto simp: less_entry_key_def entry_key_fields_def)

lemma group_less_seek: "g < BatchGroupKey b 0 0 0 \<longleftrightarrow> bg_batch g < b"
  by (auto simp: less_batch_group_key_def batch_group_key_fields_def)

lemma group_less_batch: "g < g' \<Longrightarrow> bg_batch g < bg_batch g' \<or> bg_batch g = bg_batch g' \<and> bg_po g \<le> bg_po g'"
  by (auto simp: less_batch_group_key_def batch_group_key_fields_def)

lemma entry_range:
  assumes "tbl_wf (rt_entry T)"
  shows "takeWhile (\<lambda>r. ek_po (fst r) = po) (entry_rows_from po T) = filter (\<lambda>r. ek_po (fst r) = po) (rt_entry T)"
  unfolding entry_rows_from_def
proof (rule tbl_range_scan [OF assms, where P = "\<lambda>k. ek_po k = po"])
  show "ek_po x = po \<or> x < EntryKey po 0 0 0" if "x < y" "ek_po y = po" for x y
    using entry_less_po [OF that(1)] that(2) by (auto simp: entry_less_seek)
  show "EntryKey po 0 0 0 \<le> x" if "ek_po x = po" for x
    using that by (simp add: entry_less_seek flip: not_less)
qed

lemma group_range:
  assumes "tbl_wf t"
  shows "takeWhile (\<lambda>r. bg_batch (fst r) = b \<and> below_bound bound (bg_po (fst r))) (tbl_from (BatchGroupKey b 0 0 0) t) =
    filter (\<lambda>r. bg_batch (fst r) = b \<and> below_bound bound (bg_po (fst r))) t"
proof (rule tbl_range_scan [OF assms, where P = "\<lambda>g. bg_batch g = b \<and> below_bound bound (bg_po g)"])
  show "bg_batch x = b \<and> below_bound bound (bg_po x) \<or> x < BatchGroupKey b 0 0 0"
    if "x < y" "bg_batch y = b \<and> below_bound bound (bg_po y)" for x y
    using group_less_batch [OF that(1)] that(2) by (auto simp: group_less_seek below_bound_def split: option.splits)
  show "BatchGroupKey b 0 0 0 \<le> x" if "bg_batch x = b \<and> below_bound bound (bg_po x)" for x
    using that by (simp add: group_less_seek flip: not_less)
qed

section \<open>Evicting present entries\<close>

lemma delete_all_filter: "fold tbl_delete ks t = filter (\<lambda>r. fst r \<notin> set ks) t"
  by (induction ks arbitrary: t) (auto simp: tbl_delete_def filter_filter conj_commute intro: filter_cong)

lemma delete_all_count:
  assumes "tbl_wf t" and "distinct ks" and "set ks \<subseteq> fst ` set t"
  shows "length (filter P (tbl_keys t)) = length (filter P ks) + length (filter P (tbl_keys (fold tbl_delete ks t)))"
  using assms
proof (induction ks arbitrary: t)
  case (Cons k ks)
  then obtain v where v: "tbl_get t k = Some v" by (auto simp: tbl_in_get)
  have "set ks \<subseteq> fst ` set (tbl_delete k t)" using Cons.prems by (force simp: tbl_delete_def)
  with Cons.IH [of "tbl_delete k t"] Cons.prems tbl_delete_filter [OF Cons.prems(1) v, of P]
  show ?case by auto
qed simp

lemma reserve_inv_wf:
  "reserve_inv E R \<Longrightarrow> tbl_wf (rt_entry (dr_tables R))" "reserve_inv E R \<Longrightarrow> tbl_wf (rt_batch_group (dr_tables R))"
  "reserve_inv E R \<Longrightarrow> tbl_wf (rt_replay (dr_tables R))"
  by (simp_all add: reserve_inv_def tables_inv_def tables_wf_def)

lemma reserve_inv_key:
  assumes "reserve_inv E R" and "k \<in> fst ` set (rt_entry (dr_tables R))"
  shows "key_of_target E (dr_overlay R) (target_of_entry k) = k"
proof -
  obtain v where "tbl_get (rt_entry (dr_tables R)) k = Some v"
    using assms(2) reserve_inv_wf(1) [OF assms(1)] by (auto simp: tbl_in_get)
  then have "ek_po k = env_proximity E (ek_addr k) (dr_overlay R)"
    using entry_okD [of E "dr_overlay R" "{}" "dr_tables R" k v] assms(1) by (auto simp: reserve_inv_def entry_row_def)
  then show ?thesis by (simp add: key_of_target_def entry_key.expand)
qed

definition entry_keys :: "('b, 'c) db_reserve \<Rightarrow> entry_key list" where
  "entry_keys R = tbl_keys (rt_entry (dr_tables R))"

lemma entry_keys_set: "set (entry_keys R) = fst ` set (rt_entry (dr_tables R))"
  by (simp add: entry_keys_def tbl_keys_def tbl_entries_def)

lemma entry_keys_distinct: "reserve_inv E R \<Longrightarrow> distinct (entry_keys R)"
  by (simp add: entry_keys_def tbl_keys_def tbl_entries_def tbl_wf_distinct reserve_inv_wf)

lemma entry_keys_sorted: "reserve_inv E R \<Longrightarrow> sorted_wrt (<) (entry_keys R)"
  by (simp add: entry_keys_def tbl_keys_def tbl_entries_def reserve_inv_wf flip: tbl_wf_def)

lemma reserve_count_keys: "reserve_count R = length (entry_keys R)"
  by (simp add: reserve_count_def entry_keys_def tbl_count_def tbl_keys_def tbl_entries_def)

text \<open>Evicting a list of present entries removes exactly those.\<close>

lemma evict_present:
  assumes "stamps_sound (env_postage E)" and "reserve_inv E R" and "distinct ks" and "set ks \<subseteq> set (entry_keys R)"
    and "evict_entries E (map target_of_entry ks) R = (n, R')"
  shows "n = length ks" and "entry_keys R' = filter (\<lambda>k. k \<notin> set ks) (entry_keys R)" and "reserve_inv E R'"
    and "length (filter P (entry_keys R)) = length (filter P ks) + length (filter P (entry_keys R'))"
    and "bin_cursor b R' = bin_cursor b R" and "dr_overlay R' = dr_overlay R"
proof -
  have R': "R' = snd (evict_entries E (map target_of_entry ks) R)" "n = fst (evict_entries E (map target_of_entry ks) R)"
    using assms(5) by simp_all
  have "key_of_target E (dr_overlay R) (target_of_entry k) = k" if "k \<in> set ks" for k
    using that assms(4) reserve_inv_key [OF assms(2), of k] unfolding entry_keys_set by blast
  then have "map (key_of_target E (dr_overlay R)) (map target_of_entry ks) = ks" by (simp add: map_idI)
  then have entry: "rt_entry (dr_tables R') = fold tbl_delete ks (rt_entry (dr_tables R))"
    unfolding R'(1) evict_entries_def
    by (cases "ks = []") (auto simp: case_prod_beta evict_loop_tables simp del: map_map)
  show keys: "entry_keys R' = filter (\<lambda>k. k \<notin> set ks) (entry_keys R)"
    by (simp add: entry_keys_def tbl_keys_def tbl_entries_def entry delete_all_filter filter_map comp_def)
  show count: "length (filter P (entry_keys R)) = length (filter P ks) + length (filter P (entry_keys R'))" for P
    using delete_all_count [OF reserve_inv_wf(1) [OF assms(2)] assms(3), of P] assms(4)
    unfolding entry_keys_set by (simp add: entry_keys_def entry)
  show "n = length ks"
    using evict_entries_count [OF reserve_inv_wf(1) [OF assms(2)], of E "map target_of_entry ks"] count [of "\<lambda>_. True"]
    by (simp add: R' reserve_count_keys)
  show "reserve_inv E R'" unfolding R'(1) by (rule evict_entries_inv [OF assms(1,2)])
  show "bin_cursor b R' = bin_cursor b R" "dr_overlay R' = dr_overlay R" unfolding R'(1) by (simp_all add: bin_cursor_def)
qed

section \<open>The verbs\<close>

lemma count_in_keys:
  assumes "reserve_inv E R"
  shows "count_in po R = length (filter (\<lambda>k. ek_po k = po) (entry_keys R))"
  by (simp add: count_in_def count_rows_length entry_range [OF reserve_inv_wf(1) [OF assms]] entry_keys_def
      tbl_keys_def tbl_entries_def filter_map comp_def)

lemma evict_from_bin_keys:
  assumes "reserve_inv E R" and "0 < mx"
  shows "evict_from_bin E bin mx R =
    evict_entries E (map target_of_entry (take mx (filter (\<lambda>k. ek_po k = bin) (entry_keys R)))) R"
  using assms(2) collect_bin_take [of "[]" mx bin "entry_rows_from bin (dr_tables R)"]
  by (simp add: evict_from_bin_def entry_range [OF reserve_inv_wf(1) [OF assms(1)]] entry_keys_def tbl_keys_def
      tbl_entries_def filter_map take_map comp_def)

lemma evict_to_capacity_keys:
  assumes "reserve_inv E R" and "rs_capacity (dr_reserve R) < reserve_count R"
  shows "evict_to_capacity E R =
    evict_entries E (map target_of_entry (take (reserve_count R - rs_capacity (dr_reserve R)) (entry_keys R))) R"
proof -
  have "rs_count (dr_reserve R) = reserve_count R" using assms(1) by (simp add: reserve_inv_def)
  moreover have "rt_entry (dr_tables R) \<noteq> []" using assms(2) by (auto simp: reserve_count_def tbl_count_def)
  ultimately show ?thesis
    using assms(2) collect_front_take [of "[]" "reserve_count R - rs_capacity (dr_reserve R)" "rt_entry (dr_tables R)"]
    by (simp add: evict_to_capacity_def Let_def entry_keys_def tbl_keys_def tbl_entries_def take_map comp_def)
qed

definition batch_keys :: "b256 \<Rightarrow> 8 word option \<Rightarrow> ('b, 'c) db_reserve \<Rightarrow> entry_key list" where
  "batch_keys b bound R =
     map entry_key_of_group (filter (\<lambda>g. bg_batch g = b \<and> below_bound bound (bg_po g))
       (tbl_keys (rt_batch_group (dr_tables R))))"

lemma evict_batch_keys:
  assumes "reserve_inv E R" and "0 < mx"
  shows "evict_batch E b bound mx R = evict_entries E (map target_of_entry (take mx (batch_keys b bound R))) R"
proof -
  have "target_of_group g = target_of_entry (entry_key_of_group g)" for g
    by (simp add: target_of_group_def target_of_entry_def entry_key_of_group_def)
  then show ?thesis
    using assms(2) collect_batch_take [of "[]" mx b bound "tbl_from (BatchGroupKey b 0 0 0) (rt_batch_group (dr_tables R))"]
    by (simp add: evict_batch_def group_range [OF reserve_inv_wf(2) [OF assms(1)]] batch_keys_def tbl_keys_def
        tbl_entries_def filter_map take_map comp_def)
qed

text \<open>The group table lists exactly the entries of a batch, in ascending bins.\<close>

lemma batch_keys_exact:
  assumes "reserve_inv E R"
  shows "set (batch_keys b bound R) = {k \<in> set (entry_keys R). ek_batch k = b \<and> below_bound bound (ek_po k)}"
    and "distinct (batch_keys b bound R)" and "sorted (map ek_po (batch_keys b bound R))"
proof -
  let ?T = "dr_tables R"
  have inv: "tables_inv E (dr_overlay R) {} ?T" using assms by (simp add: reserve_inv_def)
  define gs where "gs = tbl_keys (rt_batch_group ?T)"
  have gs: "g \<in> set gs \<longleftrightarrow> tbl_get (rt_batch_group ?T) g = Some ()" for g
    using tbl_get_None [of "rt_batch_group ?T" g] by (cases "tbl_get (rt_batch_group ?T) g") (auto simp: gs_def tbl_keys_def tbl_entries_def)
  have ks: "k \<in> set (entry_keys R) \<longleftrightarrow> (\<exists>v. tbl_get (rt_entry ?T) k = Some v)" for k
    using tbl_get_None [of "rt_entry ?T" k] by (auto simp: entry_keys_set)
  have to_entry: "entry_key_of_group g \<in> set (entry_keys R)" if "g \<in> set gs" for g
    using that inv unfolding gs ks tables_inv_def group_ok_def by blast
  have to_group: "group_key_of k \<in> set gs" if "k \<in> set (entry_keys R)" for k
    using that entry_okD [OF inv, of k] unfolding gs ks by (auto simp: entry_row_def)
  show "set (batch_keys b bound R) = {k \<in> set (entry_keys R). ek_batch k = b \<and> below_bound bound (ek_po k)}"
  proof (intro equalityI subsetI)
    fix k assume "k \<in> set (batch_keys b bound R)"
    then show "k \<in> {k \<in> set (entry_keys R). ek_batch k = b \<and> below_bound bound (ek_po k)}"
      using to_entry by (auto simp: batch_keys_def gs_def entry_key_of_group_def)
  next
    fix k assume k: "k \<in> {k \<in> set (entry_keys R). ek_batch k = b \<and> below_bound bound (ek_po k)}"
    then have "group_key_of k \<in> set (filter (\<lambda>g. bg_batch g = b \<and> below_bound bound (bg_po g)) gs)"
      using to_group by (auto simp: group_key_of_def)
    from imageI [OF this, of entry_key_of_group] show "k \<in> set (batch_keys b bound R)"
      by (simp add: batch_keys_def gs_def entry_key_of_group_key)
  qed
  have sorted: "sorted_wrt (<) gs"
    using reserve_inv_wf(2) [OF assms] by (simp add: gs_def tbl_keys_def tbl_entries_def tbl_wf_def)
  then show "distinct (batch_keys b bound R)"
    by (simp add: batch_keys_def distinct_map strict_sorted_iff inj_on_def entry_key_of_group_inject flip: gs_def)
  have "sorted_wrt (\<lambda>x y. bg_po x \<le> bg_po y) (filter (\<lambda>g. bg_batch g = b \<and> below_bound bound (bg_po g)) gs)"
    by (rule sorted_wrt_mono_rel [OF _ sorted_wrt_filter [OF sorted]]) (use group_less_batch in fastforce)
  then show "sorted (map ek_po (batch_keys b bound R))"
    by (simp add: batch_keys_def sorted_wrt_map entry_key_of_group_def flip: gs_def)
qed

end
