(* ===== verification/Radius.thy ===== *)
theory Radius
  imports Vertex_Prelude
begin

text \<open>
  Size-driven storage radius, \<^verbatim>\<open>crates/swarm/storer/src/radius.rs\<close>. The deepest bin
  \<^verbatim>\<open>MAX_PO\<close> comes from outside the repository and is an argument. A reserve is a state
  with the operations the controller calls, passed as a record; \<^verbatim>\<open>SwarmError\<close> is a
  type parameter.
\<close>

section \<open>Decisions\<close>

type_synonym storage_radius = nat

datatype radius_decision = Hold | Shrink storage_radius | Grow storage_radius

datatype radius_outcome = WithinCapacity storage_radius | AtCeiling storage_radius

record reserve_occupancy =
  occ_within_radius :: nat
  occ_total :: nat
  occ_capacity :: nat
  occ_radius :: storage_radius

definition shrink_threshold :: "nat \<Rightarrow> nat" where
  "shrink_threshold capacity = u64_saturating_mul capacity 5 div 10"

definition step_up :: "nat \<Rightarrow> storage_radius \<Rightarrow> storage_radius option" where
  "step_up max_po radius = (if radius \<ge> max_po then None else Some (radius + 1))"

definition step_down :: "storage_radius \<Rightarrow> storage_radius option" where
  "step_down radius = (if radius = 0 then None else Some (radius - 1))"

definition derive_radius ::
  "nat \<Rightarrow> reserve_occupancy \<Rightarrow> storage_radius \<Rightarrow> bool \<Rightarrow> radius_decision" where
  "derive_radius max_po occ minimum_radius syncing_idle =
     (if occ_total occ > occ_capacity occ then
        (case step_up max_po (occ_radius occ) of Some r \<Rightarrow> Grow r | None \<Rightarrow> Hold)
      else if syncing_idle \<and> occ_within_radius occ < shrink_threshold (occ_capacity occ) \<and>
              occ_radius occ > minimum_radius
      then (case step_down (occ_radius occ) of Some r \<Rightarrow> Shrink r | None \<Rightarrow> Hold)
      else Hold)"

section \<open>The grow loop\<close>

text \<open>The shed closure has its own state \<open>st\<close>: it returns the new total and the new state.\<close>

function grow_to_capacity ::
  "nat \<Rightarrow> ('s \<Rightarrow> storage_radius \<Rightarrow> nat \<times> 's) \<Rightarrow> nat \<Rightarrow> storage_radius \<Rightarrow> nat \<Rightarrow> 's
     \<Rightarrow> radius_outcome \<times> 's" where
  "grow_to_capacity max_po shed capacity radius total_count st =
     (if total_count > capacity then
        (case step_up max_po radius of
           Some next_radius \<Rightarrow>
             (let (total', st') = shed st radius
              in if total' \<le> capacity then (WithinCapacity next_radius, st')
                 else grow_to_capacity max_po shed capacity next_radius total' st')
         | None \<Rightarrow> (AtCeiling radius, st))
      else (WithinCapacity radius, st))"
  by pat_completeness auto
termination
  by (relation "measure (\<lambda>(max_po, shed, capacity, radius, total_count, st). max_po - radius)")
    (auto simp: step_up_def split: if_splits)

declare grow_to_capacity.simps [simp del]

section \<open>The controller\<close>

record ('r, 'e) reserve_ops =
  ro_count :: "'r \<Rightarrow> 'e + nat"
  ro_count_in :: "'r \<Rightarrow> nat \<Rightarrow> 'e + nat"
  ro_capacity :: "'r \<Rightarrow> nat"
  ro_storage_radius :: "'r \<Rightarrow> storage_radius"
  ro_evict_from_bin :: "'r \<Rightarrow> nat \<Rightarrow> nat \<Rightarrow> ('e + nat) \<times> 'r"
  ro_set_storage_radius :: "'r \<Rightarrow> storage_radius \<Rightarrow> 'r"

fun count_bins :: "('r, 'e) reserve_ops \<Rightarrow> 'r \<Rightarrow> nat list \<Rightarrow> nat \<Rightarrow> 'e + nat" where
  "count_bins ops r [] acc = Inr acc"
| "count_bins ops r (po # pos) acc =
     (case ro_count_in ops r po of
        Inl e \<Rightarrow> Inl e
      | Inr n \<Rightarrow> count_bins ops r pos (u64_saturating_add acc n))"

definition occupancy_of :: "('r, 'e) reserve_ops \<Rightarrow> nat \<Rightarrow> 'r \<Rightarrow> 'e + reserve_occupancy" where
  "occupancy_of ops max_po r =
     (let radius = ro_storage_radius ops r
      in case ro_count ops r of
           Inl e \<Rightarrow> Inl e
         | Inr n \<Rightarrow>
             (case count_bins ops r [radius..<max_po + 1] 0 of
                Inl e \<Rightarrow> Inl e
              | Inr within \<Rightarrow>
                  Inr \<lparr>occ_within_radius = within, occ_total = n, occ_capacity = ro_capacity ops r,
                       occ_radius = radius\<rparr>))"

definition bin_evict_max :: nat where
  "bin_evict_max = 10000"

text \<open>The closure of \<^verbatim>\<open>apply\<close>: its state is the reserve and the first error.\<close>

fun shed_bin ::
  "('r, 'e) reserve_ops \<Rightarrow> nat \<Rightarrow> 'r \<times> 'e option \<Rightarrow> storage_radius \<Rightarrow> nat \<times> ('r \<times> 'e option)" where
  "shed_bin ops start_total (r, Some e) radius = (start_total, (r, Some e))"
| "shed_bin ops start_total (r, None) radius =
     (case ro_evict_from_bin ops r radius bin_evict_max of
        (Inl e, r') \<Rightarrow> (start_total, (r', Some e))
      | (Inr _, r') \<Rightarrow>
          (case ro_count ops r' of
             Inl e \<Rightarrow> (start_total, (r', Some e))
           | Inr n \<Rightarrow> (n, (r', None))))"

fun outcome_radius :: "radius_outcome \<Rightarrow> storage_radius" where
  "outcome_radius (WithinCapacity r) = r"
| "outcome_radius (AtCeiling r) = r"

definition radius_apply ::
  "('r, 'e) reserve_ops \<Rightarrow> nat \<Rightarrow> storage_radius \<Rightarrow> 'r \<Rightarrow> bool \<Rightarrow> ('e + storage_radius) \<times> 'r" where
  "radius_apply ops max_po minimum_radius r syncing_idle =
     (case occupancy_of ops max_po r of
        Inl e \<Rightarrow> (Inl e, r)
      | Inr occ \<Rightarrow>
          (case derive_radius max_po occ minimum_radius syncing_idle of
             Hold \<Rightarrow> (Inr (occ_radius occ), r)
           | Shrink n \<Rightarrow> (Inr n, ro_set_storage_radius ops r n)
           | Grow _ \<Rightarrow>
               (let (outcome, (r', err)) =
                  grow_to_capacity max_po (shed_bin ops (occ_total occ)) (occ_capacity occ)
                    (occ_radius occ) (occ_total occ) (r, None)
                in case err of
                     Some e \<Rightarrow> (Inl e, r')
                   | None \<Rightarrow> (Inr (outcome_radius outcome),
                              ro_set_storage_radius ops r' (outcome_radius outcome)))))"

section \<open>Lemmas\<close>

lemma step_up_Some: "step_up m r = Some n \<longleftrightarrow> r < m \<and> n = r + 1"
  by (auto simp: step_up_def)

lemma step_down_Some: "step_down r = Some n \<longleftrightarrow> 0 < r \<and> n = r - 1"
  by (auto simp: step_down_def)

text \<open>The states and totals the loop passes through when it sheds a list of bins.\<close>

fun shed_bins :: "('s \<Rightarrow> nat \<Rightarrow> nat \<times> 's) \<Rightarrow> nat list \<Rightarrow> nat \<times> 's \<Rightarrow> nat \<times> 's" where
  "shed_bins shed [] x = x"
| "shed_bins shed (b # bs) x = shed_bins shed bs (shed (snd x) b)"

lemma grow_to_capacity_result:
  assumes "grow_to_capacity m shed cap r t st = (out, st')" and "r \<le> m"
  shows "\<exists>t'. r \<le> outcome_radius out \<and> outcome_radius out \<le> m \<and>
    shed_bins shed [r..<outcome_radius out] (t, st) = (t', st') \<and>
    (case out of WithinCapacity _ \<Rightarrow> t' \<le> cap | AtCeiling k \<Rightarrow> k = m \<and> cap < t') \<and>
    (\<forall>j. r \<le> j \<longrightarrow> j < outcome_radius out \<longrightarrow> cap < fst (shed_bins shed [r..<j] (t, st)))"
  using assms
proof (induction m shed cap r t st rule: grow_to_capacity.induct)
  case (1 m shed cap r t st)
  obtain t1 st1 where sh: "shed st r = (t1, st1)" by fastforce
  consider (fits) "t \<le> cap" | (top) "cap < t" "m \<le> r" | (stop) "cap < t" "r < m" "t1 \<le> cap"
    | (more) "cap < t" "r < m" "cap < t1" by linarith
  then show ?case
  proof cases
    case more
    then have rec: "grow_to_capacity m shed cap (r + 1) t1 st1 = (out, st')"
      using 1(2) sh by (subst (asm) grow_to_capacity.simps) (simp add: step_up_def)
    from "1.IH" [OF more(1) _ _ sh [symmetric] _ rec] more
    obtain t' where ih: "r + 1 \<le> outcome_radius out" "outcome_radius out \<le> m"
      "shed_bins shed [r + 1..<outcome_radius out] (t1, st1) = (t', st')"
      "case out of WithinCapacity _ \<Rightarrow> t' \<le> cap | AtCeiling k \<Rightarrow> k = m \<and> cap < t'"
      "\<And>j. r + 1 \<le> j \<Longrightarrow> j < outcome_radius out \<Longrightarrow> cap < fst (shed_bins shed [r + 1..<j] (t1, st1))"
      by (auto simp: step_up_def)
    then have "[r..<outcome_radius out] = r # [r + 1..<outcome_radius out]"
      by (simp add: upt_conv_Cons)
    moreover have "cap < fst (shed_bins shed [r..<j] (t, st))" if "r \<le> j" "j < outcome_radius out" for j
      using that ih(5) [of j] sh more(1) by (cases "j = r") (simp_all add: upt_conv_Cons)
    ultimately show ?thesis using ih sh by (intro exI [of _ t']) simp
  qed (use 1(2,3) sh in \<open>subst (asm) grow_to_capacity.simps, auto simp: step_up_def upt_conv_Cons\<close>)+
qed

lemma radius_apply_cases:
  assumes "radius_apply ops m mini r idle = (res, r')"
  obtains "r' = r"
  | n where "r' = ro_set_storage_radius ops r n"
  | k t e where "r' = fst (snd (shed_bins (shed_bin ops t) [ro_storage_radius ops r..<k] (t, (r, None))))"
      "res = Inl e"
  | k t where "r' = ro_set_storage_radius ops
        (fst (snd (shed_bins (shed_bin ops t) [ro_storage_radius ops r..<k] (t, (r, None))))) k"
      "res = Inr k" "ro_storage_radius ops r < k"
proof -
  show ?thesis
  proof (cases "occupancy_of ops m r")
    case (Inl e)
    then show ?thesis using assms that(1) by (simp add: radius_apply_def)
  next
    case (Inr occ)
    have rad: "occ_radius occ = ro_storage_radius ops r"
      using Inr by (auto simp: occupancy_of_def Let_def split: sum.splits)
    show ?thesis
    proof (cases "derive_radius m occ mini idle")
      case (Grow n)
      then have over: "occ_capacity occ < occ_total occ" and room: "occ_radius occ < m"
        by (auto simp: derive_radius_def step_up_Some step_up_def split: if_splits option.splits)
      obtain out r1 err where g: "grow_to_capacity m (shed_bin ops (occ_total occ)) (occ_capacity occ)
          (occ_radius occ) (occ_total occ) (r, None) = (out, (r1, err))" by (metis prod_cases3)
      from grow_to_capacity_result [OF g] room obtain t' where
        sh: "shed_bins (shed_bin ops (occ_total occ)) [occ_radius occ..<outcome_radius out]
          (occ_total occ, (r, None)) = (t', (r1, err))" and "occ_radius occ \<le> outcome_radius out"
        and "case out of WithinCapacity _ \<Rightarrow> t' \<le> occ_capacity occ | AtCeiling k \<Rightarrow> k = m \<and> occ_capacity occ < t'"
        by auto
      moreover from this have "occ_radius occ \<noteq> outcome_radius out"
        using over room by (cases out) auto
      ultimately have less: "occ_radius occ < outcome_radius out" by simp
      show ?thesis
      proof (cases err)
        case None
        then show ?thesis using assms Inr Grow g sh less rad
          by (intro that(4) [of "occ_total occ" "outcome_radius out"]) (auto simp: radius_apply_def)
      next
        case (Some e)
        then show ?thesis using assms Inr Grow g sh rad
          by (intro that(3) [of "occ_total occ" "outcome_radius out" e]) (auto simp: radius_apply_def)
      qed
    qed (use assms Inr that(1,2) in \<open>auto simp: radius_apply_def\<close>)
  qed
qed

section \<open>The contract of a reserve\<close>

text \<open>What the controller relies on: an eviction from a bin removes at most the given number
  of entries, of that bin only, and setting the radius removes none; \<open>ok\<close> is the
  reserve's own invariant and \<open>size_of\<close> counts the entries of a bin.\<close>

locale bin_reserve =
  fixes ops :: "('r, 'e) reserve_ops" and ok :: "'r \<Rightarrow> bool" and size_of :: "'r \<Rightarrow> nat \<Rightarrow> nat"
  assumes evict_ok: "ok r \<Longrightarrow> ok (snd (ro_evict_from_bin ops r b m))"
    and evict_removes: "ok r \<Longrightarrow> size_of (snd (ro_evict_from_bin ops r b m)) b' \<le> size_of r b'"
    and evict_at_most: "ok r \<Longrightarrow>
      size_of r b' \<le> size_of (snd (ro_evict_from_bin ops r b m)) b' + (if b' = b then m else 0)"
    and radius_ok: "ok r \<Longrightarrow> ok (ro_set_storage_radius ops r n)"
    and radius_size: "size_of (ro_set_storage_radius ops r n) b = size_of r b"
begin

lemma shed_bin_ok: "ok (fst x) \<Longrightarrow> ok (fst (snd (shed_bin ops t x b)))"
  using evict_ok [of "fst x" b bin_evict_max]
  by (cases x; cases "snd x") (auto split: prod.splits sum.splits)

lemma shed_bin_size:
  assumes "ok (fst x)"
  shows "b' \<noteq> b \<Longrightarrow> size_of (fst (snd (shed_bin ops t x b))) b' = size_of (fst x) b'"
    and "size_of (fst x) b \<le> size_of (fst (snd (shed_bin ops t x b))) b + bin_evict_max"
proof -
  obtain r e where x: "x = (r, e)" by fastforce
  let ?r = "snd (ro_evict_from_bin ops r b bin_evict_max)"
  have "fst (snd (shed_bin ops t x b)) = r \<or> fst (snd (shed_bin ops t x b)) = ?r"
    by (cases e) (auto simp: x split: prod.splits sum.splits)
  moreover have "b' \<noteq> b \<Longrightarrow> size_of ?r b' = size_of r b'"
    using evict_removes [of r b bin_evict_max b'] evict_at_most [of r b' b bin_evict_max] assms by (simp add: x)
  ultimately show "b' \<noteq> b \<Longrightarrow> size_of (fst (snd (shed_bin ops t x b))) b' = size_of (fst x) b'"
    and "size_of (fst x) b \<le> size_of (fst (snd (shed_bin ops t x b))) b + bin_evict_max"
    using evict_at_most [of r b b bin_evict_max] assms by (auto simp: x)
qed

lemma shed_bins_ok: "ok (fst (snd y)) \<Longrightarrow> ok (fst (snd (shed_bins (shed_bin ops t) bs y)))"
  by (induction bs arbitrary: y) (auto simp: shed_bin_ok)

lemma shed_bins_size:
  assumes "ok (fst (snd y))" and "b \<notin> set bs"
  shows "size_of (fst (snd (shed_bins (shed_bin ops t) bs y))) b = size_of (fst (snd y)) b"
  using assms shed_bin_ok shed_bin_size(1) by (induction bs arbitrary: y) auto

lemma apply_ok:
  assumes "radius_apply ops m mini r idle = (res, r')" and "ok r"
  shows "ok r'"
  using assms(1) by (cases rule: radius_apply_cases) (use assms(2) in \<open>auto simp: radius_ok shed_bins_ok\<close>)

lemma apply_keeps_shallow:
  assumes "radius_apply ops m mini r idle = (res, r')" and "ok r" and "b < ro_storage_radius ops r"
  shows "size_of r' b = size_of r b"
  using assms(1)
  by (cases rule: radius_apply_cases) (use assms(2,3) in \<open>auto simp: radius_size shed_bins_size\<close>)

lemma apply_remainder:
  assumes "radius_apply ops m mini r idle = (Inr k, r')" and "ok r" and "ro_storage_radius ops r < k"
  shows "size_of r (ro_storage_radius ops r) \<le> size_of r' (ro_storage_radius ops r) + bin_evict_max"
  using assms(1)
proof (cases rule: radius_apply_cases)
  case (4 k' t)
  let ?b = "ro_storage_radius ops r"
  have "[?b..<k'] = ?b # [?b + 1..<k']" using 4 by (simp add: upt_conv_Cons)
  moreover have "ok (fst (snd (shed_bin ops t (r, None) ?b)))" using shed_bin_ok [of "(r, None)" t ?b] assms(2) by (simp del: shed_bin.simps)
  ultimately show ?thesis
    using 4(1) shed_bin_size(2) [of "(r, None)" ?b t] assms(2)
    by (simp add: radius_size shed_bins_size del: shed_bin.simps)
qed (use assms(2) in \<open>simp_all add: radius_size\<close>)

end

text \<open>A reserve whose counting and eviction do not fail, which evicts exactly what it is asked
  to, and which reads back the radius it was given.\<close>

locale total_reserve = bin_reserve ops ok size_of
  for ops :: "('r, 'e) reserve_ops" and ok :: "'r \<Rightarrow> bool" and size_of :: "'r \<Rightarrow> nat \<Rightarrow> nat" +
  fixes total :: "'r \<Rightarrow> nat" and deepest :: nat
  assumes evict_total: "ok r \<Longrightarrow> \<exists>n. fst (ro_evict_from_bin ops r b m) = Inr n"
    and evict_exact: "ok r \<Longrightarrow> size_of (snd (ro_evict_from_bin ops r b m)) b = size_of r b - m"
    and count_total: "ro_count ops r = Inr (total r)"
    and count_in_total: "\<exists>n. ro_count_in ops r b = Inr n"
    and radius_total: "total (ro_set_storage_radius ops r n) = total r"
    and radius_read: "n \<le> deepest \<Longrightarrow> ro_storage_radius ops (ro_set_storage_radius ops r n) = n"
    and radius_bound: "ro_storage_radius ops r \<le> deepest"
begin

lemma shed_bin_total:
  assumes "ok r"
  obtains r' where "shed_bin ops t (r, None) b = (total r', (r', None))" "ok r'"
    "\<And>b'. size_of r' b' = (if b' = b then size_of r b' - bin_evict_max else size_of r b')"
proof -
  obtain n r' where ev: "ro_evict_from_bin ops r b bin_evict_max = (Inr n, r')"
    using evict_total [OF assms, of b bin_evict_max] by (metis prod.collapse)
  have sh: "shed_bin ops t (r, None) b = (total r', (r', None))" by (simp add: ev count_total)
  have "size_of r' b' = (if b' = b then size_of r b' - bin_evict_max else size_of r b')" for b'
    using evict_exact [OF assms, of b bin_evict_max] shed_bin_size(1) [of "(r, None)" b' b t] assms
    by (simp add: ev count_total)
  moreover have "ok r'" using evict_ok [OF assms, of b bin_evict_max] by (simp add: ev)
  ultimately show thesis using that sh by blast
qed

lemma shed_bins_total:
  assumes "ok r" and "distinct bs"
  shows "\<exists>n' r'. shed_bins (shed_bin ops t) bs (n, (r, None)) = (n', (r', None)) \<and> ok r'
    \<and> (bs \<noteq> [] \<longrightarrow> n' = total r')
    \<and> (\<forall>b. size_of r' b = (if b \<in> set bs then size_of r b - bin_evict_max else size_of r b))"
  using assms
proof (induction bs arbitrary: n r)
  case (Cons b bs)
  obtain r1 where sh: "shed_bin ops t (r, None) b = (total r1, (r1, None))" "ok r1"
    "\<And>b'. size_of r1 b' = (if b' = b then size_of r b' - bin_evict_max else size_of r b')"
    by (rule shed_bin_total [OF Cons.prems(1), of t b]) (rule that)
  from Cons.IH [OF sh(2), of "total r1"] Cons.prems(2) obtain n' r' where
    "shed_bins (shed_bin ops t) bs (total r1, (r1, None)) = (n', (r', None))" "ok r'"
    "bs \<noteq> [] \<longrightarrow> n' = total r'"
    "\<forall>b. size_of r' b = (if b \<in> set bs then size_of r1 b - bin_evict_max else size_of r1 b)" by auto
  then show ?case using sh(1,3) Cons.prems(2) by (cases "bs = []") auto
qed simp

text \<open>One tick of the controller.\<close>

lemma tick_exact:
  assumes "radius_apply ops deepest mini r idle = (res, r')" and "ok r"
  obtains k where "res = Inr k" "ro_storage_radius ops r' = k" "ok r'"
    "\<And>b. k \<le> b \<Longrightarrow> size_of r' b = size_of r b"
    "\<And>b. ro_storage_radius ops r \<le> b \<Longrightarrow> b < k \<Longrightarrow> size_of r' b = size_of r b - bin_evict_max"
    "ro_capacity ops r < total r \<Longrightarrow> total r' \<le> ro_capacity ops r \<or> k = deepest"
    "total r \<le> ro_capacity ops r \<Longrightarrow> total r' = total r \<and> k \<le> ro_storage_radius ops r"
proof -
  have "\<exists>w. count_bins ops r bs acc = Inr w" for bs acc
  proof (induction bs arbitrary: acc)
    case (Cons b bs)
    obtain n where "ro_count_in ops r b = Inr n" using count_in_total by blast
    then show ?case using Cons.IH by simp
  qed simp
  then obtain w where w: "count_bins ops r [ro_storage_radius ops r..<deepest + 1] 0 = Inr w" by blast
  then have w': "count_bins ops r [ro_storage_radius ops r..<Suc deepest] 0 = Inr w" by simp
  let ?occ = "\<lparr>occ_within_radius = w, occ_total = total r, occ_capacity = ro_capacity ops r,
    occ_radius = ro_storage_radius ops r\<rparr>"
  have occ: "occupancy_of ops deepest r = Inr ?occ"
    using w' by (simp add: occupancy_of_def count_total del: upt_Suc)
  show thesis
  proof (cases "derive_radius deepest ?occ mini idle")
    case Hold
    then have "res = Inr (ro_storage_radius ops r)" "r' = r"
      using assms(1) by (auto simp: radius_apply_def occ)
    moreover have "ro_capacity ops r < total r \<Longrightarrow> ro_storage_radius ops r = deepest"
      using Hold radius_bound [of r] by (auto simp: derive_radius_def step_up_def split: if_splits)
    ultimately show thesis using that assms(2) by simp
  next
    case (Shrink n)
    then have r': "res = Inr n" "r' = ro_set_storage_radius ops r n"
      using assms(1) by (auto simp: radius_apply_def occ)
    moreover have "n < ro_storage_radius ops r" "total r \<le> ro_capacity ops r"
      using Shrink by (auto simp: derive_radius_def step_down_def step_up_def split: if_splits)
    moreover have "n \<le> deepest" using \<open>n < _\<close> radius_bound [of r] by linarith
    ultimately show thesis
      using that radius_read radius_ok [OF assms(2)] radius_size radius_total by simp
  next
    case (Grow n)
    then have over: "ro_capacity ops r < total r" and room: "ro_storage_radius ops r < deepest"
      by (auto simp: derive_radius_def step_up_def step_down_def split: if_splits)
    obtain out r1 err where g: "grow_to_capacity deepest (shed_bin ops (total r)) (ro_capacity ops r)
        (ro_storage_radius ops r) (total r) (r, None) = (out, (r1, err))" by (metis prod_cases3)
    let ?k = "outcome_radius out" and ?start = "ro_storage_radius ops r"
    obtain t' where gr: "?start \<le> ?k" "?k \<le> deepest"
      "shed_bins (shed_bin ops (total r)) [?start..<?k] (total r, (r, None)) = (t', (r1, err))"
      "case out of WithinCapacity _ \<Rightarrow> t' \<le> ro_capacity ops r | AtCeiling k \<Rightarrow> k = deepest \<and> ro_capacity ops r < t'"
      using grow_to_capacity_result [OF g] room by auto
    from gr(4) over room gr(3) have less: "?start < ?k"
      using gr(1) by (cases out; cases "?start = ?k") auto
    from shed_bins_total [OF assms(2), of "[?start..<?k]" "total r" "total r"] gr(3)
    have fin: "err = None" "ok r1" "t' = total r1"
      "\<And>b. size_of r1 b = (if b \<in> set [?start..<?k] then size_of r b - bin_evict_max else size_of r b)"
      using less by auto
    have r': "res = Inr ?k" "r' = ro_set_storage_radius ops r1 ?k"
      using assms(1) Grow g fin(1) by (auto simp: radius_apply_def occ)
    have "total r1 \<le> ro_capacity ops r \<or> ?k = deepest" using gr(4) fin(3) by (cases out) auto
    then show thesis
      using that [of ?k] r' radius_read [OF gr(2)] radius_ok [OF fin(2)] over
      by (simp add: radius_size radius_total fin(4))
  qed
qed

end

section \<open>Properties\<close>

text \<open>The radius decision moves by one step and only for its reason: it grows only
  over capacity and below the deepest bin, it shrinks only when within capacity, idle,
  under-filled and above the floor, and it never shrinks past the floor.\<close>

lemma derive_radius_sound:
  "(case derive_radius max_po occ minimum idle of
      Grow n \<Rightarrow> n = occ_radius occ + 1 \<and> n \<le> max_po \<and> occ_capacity occ < occ_total occ
    | Shrink n \<Rightarrow> n + 1 = occ_radius occ \<and> minimum \<le> n \<and> occ_total occ \<le> occ_capacity occ \<and> idle \<and>
        occ_within_radius occ < shrink_threshold (occ_capacity occ)
    | Hold \<Rightarrow> (occ_capacity occ < occ_total occ \<and> max_po \<le> occ_radius occ) \<or>
        (occ_total occ \<le> occ_capacity occ \<and>
          (idle = False \<or> shrink_threshold (occ_capacity occ) \<le> occ_within_radius occ \<or>
           occ_radius occ \<le> minimum)))"
  by (auto simp: derive_radius_def step_up_def step_down_def)

text \<open>C40. The grow loop terminates with the truth about the reserve: it sheds exactly the
  bins from the starting radius up to the radius it returns, in order, and no further than
  needed: before each of them the total was over capacity. It reports "within capacity"
  only if the total after the last one fits, and the ceiling only at the deepest bin with
  the total still over.\<close>

theorem grow_to_capacity_sound:
  assumes "grow_to_capacity max_po shed capacity start n st = (out, st')" and "start \<le> max_po"
  shows "start \<le> outcome_radius out \<and> outcome_radius out \<le> max_po \<and>
    snd (shed_bins shed [start..<outcome_radius out] (n, st)) = st' \<and>
    (case out of
       WithinCapacity _ \<Rightarrow> fst (shed_bins shed [start..<outcome_radius out] (n, st)) \<le> capacity
     | AtCeiling k \<Rightarrow> k = max_po \<and>
         capacity < fst (shed_bins shed [start..<outcome_radius out] (n, st))) \<and>
    (\<forall>j. start \<le> j \<longrightarrow> j < outcome_radius out \<longrightarrow>
       capacity < fst (shed_bins shed [start..<j] (n, st)))"
  using grow_to_capacity_result [OF assms] by (auto split: radius_outcome.splits)

theorem grow_to_capacity_sound_witness:
  "fst (grow_to_capacity 31 (\<lambda>st b. (st - 10, st - 10)) 85 4 100 (100 :: nat)) = WithinCapacity 6 \<and>
   snd (shed_bins (\<lambda>st b. (st - 10, st - 10)) [4..<6] (100, 100 :: nat)) = 80 \<and>
   85 < fst (shed_bins (\<lambda>st b. (st - 10, st - 10)) [4..<5] (100, 100 :: nat))"
proof -
  have g: "grow_to_capacity 31 (\<lambda>st b. (st - 10, st - 10)) 85 4 100 (100 :: nat) = (WithinCapacity 6, 80)"
    by (simp add: grow_to_capacity.simps [of 31 _ 85 4] grow_to_capacity.simps [of 31 _ 85 5] step_up_def)
  from grow_to_capacity_sound [OF this] have
    "snd (shed_bins (\<lambda>st b. (st - 10, st - 10)) [4..<6] (100, 100 :: nat)) = 80"
    "85 < fst (shed_bins (\<lambda>st b. (st - 10, st - 10)) [4..<5] (100, 100 :: nat))" by simp_all
  with g show ?thesis by simp
qed

text \<open>A growing step advances the radius past a bin it has not emptied when that bin
  holds more than \<^verbatim>\<open>BIN_EVICT_MAX\<close> entries: the remainder stays behind, below the new
  radius.\<close>

lemma growth_leaves_remainder:
  assumes "bin_reserve ops ok size_of" and "ok r" and "radius_apply ops max_po minimum r idle = (Inr k, r')"
    and "ro_storage_radius ops r < k" and "bin_evict_max < size_of r (ro_storage_radius ops r)"
  shows "0 < size_of r' (ro_storage_radius ops r) \<and>
    size_of r (ro_storage_radius ops r) - bin_evict_max \<le> size_of r' (ro_storage_radius ops r)"
  using bin_reserve.apply_remainder [OF assms(1,3,2,4)] assms(5) by simp

end
