(* ===== verification/Db_Reserve_Props.thy ===== *)
theory Db_Reserve_Props
  imports Db_Reserve_Evict Radius
begin

text \<open>
  The properties of the persisting reserve: its consistency over every run, what each
  eviction verb removes, what a lookup returns, the insertion order a syncing peer
  replays, and that it keeps the contract the radius controller relies on.
\<close>

section \<open>Runs\<close>

text \<open>The operations that change the reserve. The batch store is shared with the chain
  indexer and may change at any time.\<close>

datatype ('ch, 'st, 'b, 'c) reserve_op =
    PutChunk "('ch, 'st) cached_chunk"
  | RemoveChunk b256
  | EvictFurthestEntry
  | EvictFromBin "8 word" nat
  | EvictBatch b256 "8 word option" nat
  | EvictToCapacity
  | SetRadius "8 word"
  | BatchesChanged "('b, 'c) batch_db"

fun reserve_step ::
  "('st, 'se, 'b, 'c, 'ch) reserve_env \<Rightarrow> ('ch, 'st, 'b, 'c) reserve_op \<Rightarrow> ('b, 'c) db_reserve \<Rightarrow> ('b, 'c) db_reserve" where
  "reserve_step E (PutChunk c) R = snd (reserve_put E c R)"
| "reserve_step E (RemoveChunk a) R = reserve_remove E a R"
| "reserve_step E EvictFurthestEntry R = snd (evict_furthest_entry E R)"
| "reserve_step E (EvictFromBin b mx) R = snd (evict_from_bin E b mx R)"
| "reserve_step E (EvictBatch b bound mx) R = snd (evict_batch E b bound mx R)"
| "reserve_step E EvictToCapacity R = snd (evict_to_capacity E R)"
| "reserve_step E (SetRadius r) R = set_storage_radius r R"
| "reserve_step E (BatchesChanged d) R = R\<lparr>dr_batches := d\<rparr>"

definition empty_tables :: reserve_tables where
  "empty_tables = \<lparr>rt_payload = [], rt_entry = [], rt_batch_group = [], rt_replay = [], rt_bin_counter = [],
     rt_stamp_index = [], rt_metadata = []\<rparr>"

text \<open>A reserve opened on an empty database and run while it holds fewer entries than the
  counter can represent.\<close>

inductive reserve_reachable :: "('st, 'se, 'b, 'c, 'ch) reserve_env \<Rightarrow> ('b, 'c) db_reserve \<Rightarrow> bool" for E where
  opened: "reserve_reachable E (reserve_open now empty_tables overlay batches admission capacity strategy radius)"
| step: "reserve_reachable E R \<Longrightarrow> reserve_count R < u64_max \<Longrightarrow> reserve_reachable E (reserve_step E op R)"

lemma empty_tables_inv: "tables_inv E ov {} (empty_tables\<lparr>rt_metadata := m\<rparr>)"
  by (simp add: tables_inv_def tables_wf_def entry_ok_def group_ok_def replay_ok_def slot_ok_def payload_ok_def
      entries_at_def empty_tables_def tbl_keys_def tbl_entries_def)

lemma reserve_open_inv: "reserve_inv E (reserve_open now empty_tables overlay batches admission capacity strategy radius)"
  using empty_tables_inv
  by (simp add: reserve_open_def reserve_inv_def reserve_count_def empty_tables_def set_count_def Let_def)

lemma reserve_put_inv:
  assumes "stamps_sound (env_postage E)" and "reserve_inv E R" and "reserve_count R < u64_max"
  shows "reserve_inv E (snd (reserve_put E chunk R))"
proof (cases "reserve_put E chunk R")
  case (Pair res R')
  have inv: "tables_inv E (dr_overlay R) {} (dr_tables R)" using assms(2) by (simp add: reserve_inv_def)
  from Pair show ?thesis
  proof (cases rule: reserve_put_cases)
    case (stored s batch outcome T')
    have "tables_inv E (dr_overlay R) {} T'" using put_tx_inv [OF assms(1) inv stored(5)] .
    moreover have "tbl_count (rt_entry T') = reserve_count R + (if outcome = Admitted then 1 else 0)"
      using put_tx_count [OF assms(1) inv stored(5)] by (simp add: reserve_count_def)
    ultimately show ?thesis using assms(2,3) Pair stored(6)
      by (cases outcome) (auto simp: reserve_inv_def reserve_count_def on_added_def u64_wrapping_add_def)
  qed (use assms(2) Pair in simp)
qed

lemma reserve_inv_fields [simp]:
  "reserve_inv E (R\<lparr>dr_radius := r\<rparr>) = reserve_inv E R" "reserve_inv E (R\<lparr>dr_batches := d\<rparr>) = reserve_inv E R"
  by (simp_all add: reserve_inv_def reserve_count_def)

lemma reserve_step_inv:
  assumes "stamps_sound (env_postage E)" and "reserve_inv E R" and "reserve_count R < u64_max"
  shows "reserve_inv E (reserve_step E op R)"
  using assms
proof (cases op)
  case (PutChunk c)
  then show ?thesis using reserve_put_inv [OF assms] by simp
qed (auto simp: reserve_remove_def evict_furthest_entry_def evict_from_bin_def evict_batch_def evict_to_capacity_def
    set_storage_radius_def evict_entries_inv Let_def split: option.splits)

lemma reserve_reachable_inv:
  assumes "stamps_sound (env_postage E)" and "reserve_reachable E R"
  shows "reserve_inv E R"
  using assms(2) by induction (auto simp: reserve_open_inv reserve_step_inv assms(1))

lemma entry_keys_get: "k \<in> set (entry_keys R) \<longleftrightarrow> (\<exists>v. tbl_get (rt_entry (dr_tables R)) k = Some v)"
  using tbl_get_None [of "rt_entry (dr_tables R)" k] by (auto simp: entry_keys_set)

lemma entry_keysD:
  "reserve_inv E R \<Longrightarrow> k \<in> set (entry_keys R) \<Longrightarrow>
     \<exists>v s. tbl_get (rt_entry (dr_tables R)) k = Some v \<and> entry_row E (dr_overlay R) (dr_tables R) k v s"
  using entry_okD [of E "dr_overlay R" "{}" "dr_tables R" k] by (auto simp: reserve_inv_def entry_keys_get)

lemma reserve_contains_entry:
  assumes "reserve_inv E R"
  shows "reserve_contains a R \<longleftrightarrow> a \<in> ek_addr ` set (entry_keys R)"
proof -
  have "case tbl_get (rt_payload (dr_tables R)) a of None \<Rightarrow> entries_at a (dr_tables R) = 0
      | Some p \<Rightarrow> pv_refcnt p = entries_at a (dr_tables R) \<and> 0 < pv_refcnt p"
    using assms unfolding reserve_inv_def tables_inv_def payload_ok_def by blast
  moreover have "0 < entries_at a (dr_tables R) \<longleftrightarrow> a \<in> ek_addr ` set (entry_keys R)"
    by (auto simp: entries_at_def entry_keys_def filter_empty_conv)
  ultimately show ?thesis by (auto simp: reserve_contains_def split: option.splits)
qed

section \<open>Sequences\<close>

lemma displaced_removed_entries:
  "tbl_get (rt_entry (displaced_removed po_of batch displaced T)) k = Some v \<Longrightarrow> tbl_get (rt_entry T) k = Some v"
  by (auto simp: displaced_removed_def delete_entry_rows_in_tx_def Let_def split: option.splits if_splits)

lemma put_tx_sequences:
  fixes L :: "('st, 'se, 'b, 'c) postage_lib"
  assumes "put_tx po_of bin ct sb tb (incoming_of L s a) T = (Inr outcome, T')"
  shows "counter_of b T \<le> counter_of b T'"
    and "tbl_get (rt_entry T') k = Some v \<Longrightarrow> tbl_get (rt_entry T) k = Some v \<or> counter_of (ev_bin v) T < ev_binid v"
proof -
  have "counter_of b T \<le> counter_of b T' \<and>
    (tbl_get (rt_entry T') k = Some v \<longrightarrow> tbl_get (rt_entry T) k = Some v \<or> counter_of (ev_bin v) T < ev_binid v)"
  proof (cases "decide (tbl_get (rt_stamp_index T) (stamp_slot L s)) (incoming_of L s a)")
    case (Reject r)
    then show ?thesis using assms by (simp add: put_tx_reject incoming_of_slot)
  next
    case (Admit displaced)
    define T1 where "T1 = displaced_removed po_of (st_batch L s) displaced T"
    have same: "counter_of c T1 = counter_of c T" for c
      by (simp add: T1_def counter_of_def displaced_removed_tables)
    have put: "counter_of bin T \<noteq> - 1" "T' = rows_added (EntryKey (po_of a) (st_batch L s) (stamp_hash L s) a)
        \<lparr>ev_bin = bin, ev_binid = counter_of bin T + 1, ev_stamp_bytes = sb\<rparr> ct tb (stamp_slot L s) (occupant_of L s a) T1"
      using assms unfolding put_tx_admit [OF Admit T1_def] same by (auto split: if_splits)
    have "counter_of bin T < counter_of bin T + 1" using word_less_succ [OF put(1)] by (simp add: word_less_nat_alt)
    then show ?thesis using displaced_removed_entries [of po_of "st_batch L s" displaced T k v]
      by (auto simp: put(2) counter_of_added same T1_def [symmetric])
  qed
  then show "counter_of b T \<le> counter_of b T'"
    and "tbl_get (rt_entry T') k = Some v \<Longrightarrow> tbl_get (rt_entry T) k = Some v \<or> counter_of (ev_bin v) T < ev_binid v"
    by blast+
qed

lemma put_tx_exhausted:
  fixes L :: "('st, 'se, 'b, 'c) postage_lib"
  assumes "put_tx po_of bin ct sb tb (incoming_of L s a) T = (Inl e, T')"
  shows "e = CounterExhausted bin \<and> counter_of bin T = - 1"
proof (cases "decide (tbl_get (rt_stamp_index T) (stamp_slot L s)) (incoming_of L s a)")
  case (Reject r)
  then show ?thesis using assms by (simp add: put_tx_reject incoming_of_slot)
next
  case (Admit displaced)
  then show ?thesis using assms unfolding put_tx_admit [OF Admit refl]
    by (auto simp: counter_of_def displaced_removed_tables split: if_splits)
qed

lemma bin_cursor_counter: "bin_cursor b R = counter_of b (dr_tables R)"
  by (simp add: bin_cursor_def counter_of_def)

lemma bin_cursor_fields [simp]:
  "bin_cursor b (R\<lparr>dr_radius := r\<rparr>) = bin_cursor b R" "bin_cursor b (R\<lparr>dr_batches := d\<rparr>) = bin_cursor b R"
  by (simp_all add: bin_cursor_def)

lemma reserve_step_sequences:
  shows "bin_cursor b R \<le> bin_cursor b (reserve_step E op R)"
    and "tbl_get (rt_entry (dr_tables (reserve_step E op R))) k = Some v \<Longrightarrow>
      tbl_get (rt_entry (dr_tables R)) k = Some v \<or> bin_cursor (ev_bin v) R < ev_binid v"
proof -
  have evict: "bin_cursor b R \<le> bin_cursor b R' \<and> (tbl_get (rt_entry (dr_tables R')) k = Some v \<longrightarrow>
      tbl_get (rt_entry (dr_tables R)) k = Some v \<or> bin_cursor (ev_bin v) R < ev_binid v)"
    if "R' = snd (evict_entries E ts R) \<or> dr_tables R' = dr_tables R" for R' ts
    using that by (auto simp: bin_cursor_counter counter_of_def evict_entries_get split: if_splits)
  have "bin_cursor b R \<le> bin_cursor b (reserve_step E op R) \<and>
    (tbl_get (rt_entry (dr_tables (reserve_step E op R))) k = Some v \<longrightarrow>
      tbl_get (rt_entry (dr_tables R)) k = Some v \<or> bin_cursor (ev_bin v) R < ev_binid v)"
  proof (cases op)
    case (PutChunk c)
    obtain res R' where put: "reserve_put E c R = (res, R')" by fastforce
    then show ?thesis
    proof (cases rule: reserve_put_cases)
      case (stored s batch outcome T')
      then show ?thesis using put_tx_sequences [OF stored(5)] PutChunk put by (auto simp: bin_cursor_counter)
    qed (use put PutChunk in simp)
  qed (auto simp: reserve_remove_def evict_furthest_entry_def evict_from_bin_def evict_batch_def
      evict_to_capacity_def set_storage_radius_def Let_def intro!: evict split: option.splits)
  then show "bin_cursor b R \<le> bin_cursor b (reserve_step E op R)"
    and "tbl_get (rt_entry (dr_tables (reserve_step E op R))) k = Some v \<Longrightarrow>
      tbl_get (rt_entry (dr_tables R)) k = Some v \<or> bin_cursor (ev_bin v) R < ev_binid v"
    by blast+
qed

section \<open>Lookup\<close>

lemma best_stamp_filter:
  "best_stamp po a rows best =
     fold (\<lambda>r best. let ts = stamp_timestamp (ev_stamp_bytes (snd r))
            in if (case best of None \<Rightarrow> True | Some (b, _) \<Rightarrow> b < ts) then Some (ts, ev_stamp_bytes (snd r)) else best)
       (filter (\<lambda>r. ek_addr (fst r) = a) (takeWhile (\<lambda>r. ek_po (fst r) = po) rows)) best"
  by (induction po a rows best rule: best_stamp.induct) (auto simp: Let_def cong: option.case_cong)

text \<open>The fold keeps the first row of greatest timestamp.\<close>

lemma fold_best:
  fixes ts_of :: "'r \<Rightarrow> nat" and bytes_of :: "'r \<Rightarrow> bytes"
  defines "pick \<equiv> \<lambda>r best. let ts = ts_of r
    in if (case best of None \<Rightarrow> True | Some (b, _) \<Rightarrow> b < ts) then Some (ts, bytes_of r) else best"
  shows "\<exists>t b. fold pick rows (Some (t0, b0)) = Some (t, b) \<and> t0 \<le> t \<and> (\<forall>r \<in> set rows. ts_of r \<le> t) \<and>
    ((t, b) = (t0, b0) \<or> (\<exists>r \<in> set rows. t = ts_of r \<and> b = bytes_of r))"
proof (induction rows arbitrary: t0 b0)
  case (Cons r rows)
  show ?case
  proof (cases "t0 < ts_of r")
    case True
    then show ?thesis using Cons.IH [of "ts_of r" "bytes_of r"] by (fastforce simp: pick_def)
  next
    case False
    then show ?thesis using Cons.IH [of t0 b0] by (fastforce simp: pick_def)
  qed
qed simp

lemma best_stamp_newest:
  assumes "reserve_inv E R" and "stamps_sound (env_postage E)" and "reserve_contains a R"
  defines "po \<equiv> env_proximity E a (dr_overlay R)"
  obtains k v s where "k \<in> set (entry_keys R)" and "ek_addr k = a" and "tbl_get (rt_entry (dr_tables R)) k = Some v"
    and "entry_row E (dr_overlay R) (dr_tables R) k v s"
    and "best_stamp po a (entry_rows_from po (dr_tables R)) None = Some (unat (st_timestamp (env_postage E) s), st_to_bytes (env_postage E) s)"
    and "\<And>k' v' s'. tbl_get (rt_entry (dr_tables R)) k' = Some v' \<Longrightarrow> ek_addr k' = a \<Longrightarrow>
      entry_row E (dr_overlay R) (dr_tables R) k' v' s' \<Longrightarrow> st_timestamp (env_postage E) s' \<le> st_timestamp (env_postage E) s"
proof -
  let ?T = "dr_tables R" and ?L = "env_postage E" and ?ov = "dr_overlay R"
  have inv: "tables_inv E ?ov {} ?T" and wf: "tbl_wf (rt_entry ?T)"
    using assms(1) reserve_inv_wf(1) by (auto simp: reserve_inv_def)
  define rows where "rows = filter (\<lambda>r. ek_addr (fst r) = a) (filter (\<lambda>r. ek_po (fst r) = po) (rt_entry ?T))"
  have ts: "stamp_timestamp (st_to_bytes ?L s) = unat (st_timestamp ?L s)" for s
    using assms(2) by (simp add: stamps_sound_def)
  have in_rows: "(k, v) \<in> set rows \<longleftrightarrow> tbl_get (rt_entry ?T) k = Some v \<and> ek_addr k = a" for k v
  proof -
    have "ek_po k = po" if "tbl_get (rt_entry ?T) k = Some v" "ek_addr k = a"
      using entry_okD [OF inv that(1)] that(2) by (auto simp: entry_row_def po_def)
    then show ?thesis using tbl_in_get [OF wf, of k v] by (auto simp: rows_def)
  qed
  have "rows \<noteq> []"
  proof -
    obtain k where "k \<in> set (entry_keys R)" "ek_addr k = a" using reserve_contains_entry [OF assms(1)] assms(3) by auto
    then obtain v where "(k, v) \<in> set rows" using in_rows wf by (auto simp: entry_keys_set tbl_in_get)
    then show ?thesis by auto
  qed
  then obtain r0 rows' where rows: "rows = r0 # rows'" by (cases rows) auto
  let ?ts = "\<lambda>r. stamp_timestamp (ev_stamp_bytes (snd r))" and ?bs = "\<lambda>r. ev_stamp_bytes (snd r)"
  have best: "best_stamp po a (entry_rows_from po ?T) None =
      fold (\<lambda>r best. let ts = ?ts r in if (case best of None \<Rightarrow> True | Some (b, _) \<Rightarrow> b < ts) then Some (ts, ?bs r) else best)
        rows' (Some (?ts r0, ?bs r0))"
    unfolding best_stamp_filter entry_range [OF wf] rows_def [symmetric] rows by simp
  obtain t b where tb: "best_stamp po a (entry_rows_from po ?T) None = Some (t, b)" "\<forall>r \<in> set rows. ?ts r \<le> t"
    "\<exists>r \<in> set rows. t = ?ts r \<and> b = ?bs r"
    unfolding best using fold_best [of ?ts ?bs rows' "?ts r0" "?bs r0"] by (auto simp: rows)
  then obtain k v where kv: "(k, v) \<in> set rows" "t = stamp_timestamp (ev_stamp_bytes v)" "b = ev_stamp_bytes v" by auto
  then obtain s where s: "entry_row E ?ov ?T k v s" using entry_okD [OF inv] in_rows by blast
  then have b: "b = st_to_bytes ?L s" "t = unat (st_timestamp ?L s)" using kv ts by (simp_all add: entry_row_def)
  show thesis
  proof (rule that [of k v s])
    show "k \<in> set (entry_keys R)" "ek_addr k = a" "tbl_get (rt_entry ?T) k = Some v"
      using kv(1) in_rows tbl_get_Some_in [of "rt_entry ?T" k v] by (force simp: entry_keys_set)+
    show "best_stamp po a (entry_rows_from po ?T) None = Some (unat (st_timestamp ?L s), st_to_bytes ?L s)"
      using tb(1) b by simp
    fix k' v' s' assume *: "tbl_get (rt_entry ?T) k' = Some v'" "ek_addr k' = a" "entry_row E ?ov ?T k' v' s'"
    then have "stamp_timestamp (ev_stamp_bytes v') \<le> t" using tb(2) in_rows by fastforce
    then show "st_timestamp ?L s' \<le> st_timestamp ?L s" using *(3) b ts by (simp add: entry_row_def word_le_nat_alt)
  qed (use s in auto)
qed

section \<open>Insertion order\<close>

lemma scan_rows_takeWhile:
  "scan_rows bin rows =
     map (\<lambda>r. \<lparr>bs_seq = rk_binid (fst r), bs_address = rv_address (snd r), bs_batch_id = rv_batch_id (snd r),
               bs_stamp_hash = rv_stamp_hash (snd r)\<rparr>) (takeWhile (\<lambda>r. rk_bin (fst r) = bin) rows)"
  by (induction bin rows rule: scan_rows.induct) auto

lemma replay_less: "r < r' \<longleftrightarrow> rk_bin r < rk_bin r' \<or> rk_bin r = rk_bin r' \<and> rk_binid r < rk_binid r'"
  by (auto simp: less_replay_key_def replay_key_fields_def)

lemma scan_range:
  assumes "tbl_wf t"
  shows "takeWhile (\<lambda>r. rk_bin (fst r) = bin) (tbl_from (ReplayKey bin start) t) =
    filter (\<lambda>r. rk_bin (fst r) = bin \<and> start \<le> rk_binid (fst r)) t"
proof -
  have "takeWhile (\<lambda>r. rk_bin (fst r) = bin) (tbl_from (ReplayKey bin start) t) =
    takeWhile (\<lambda>r. rk_bin (fst r) = bin \<and> start \<le> rk_binid (fst r)) (tbl_from (ReplayKey bin start) t)"
  proof (rule takeWhile_cong [OF refl])
    fix r assume "r \<in> set (tbl_from (ReplayKey bin start) t)"
    then have "\<not> fst r < ReplayKey bin start" using tbl_from_set [OF assms] by auto
    then show "(rk_bin (fst r) = bin) = (rk_bin (fst r) = bin \<and> start \<le> rk_binid (fst r))"
      by (auto simp: replay_less)
  qed
  also have "\<dots> = filter (\<lambda>r. rk_bin (fst r) = bin \<and> start \<le> rk_binid (fst r)) t"
  proof (rule tbl_range_scan [OF assms, where P = "\<lambda>k. rk_bin k = bin \<and> start \<le> rk_binid k"])
    show "rk_bin x = bin \<and> start \<le> rk_binid x \<or> x < ReplayKey bin start"
      if "x < y" "rk_bin y = bin \<and> start \<le> rk_binid y" for x y
      using that by (auto simp: replay_less not_le)
    show "ReplayKey bin start \<le> x" if "rk_bin x = bin \<and> start \<le> rk_binid x" for x
      using that by (auto simp: replay_less simp flip: not_less)
  qed
  finally show ?thesis .
qed

section \<open>Bodies\<close>

lemma dec_payload_get:
  "tbl_get (rt_payload (dec_payload a T)) b =
     (if b = a then (case tbl_get (rt_payload T) a of
        Some p \<Rightarrow> if pv_refcnt p \<le> 1 then None else Some (p\<lparr>pv_refcnt := pv_refcnt p - 1\<rparr>) | None \<Rightarrow> None)
      else tbl_get (rt_payload T) b)"
  by (simp add: dec_payload_def split: option.splits)

lemma rows_added_payload_get:
  "tbl_get (rt_payload (rows_added k v ct tb slot e T)) b =
     (if b = ek_addr k then Some (case tbl_get (rt_payload T) b of
        Some p \<Rightarrow> p\<lparr>pv_refcnt := u64_wrapping_add (pv_refcnt p) 1\<rparr> | None \<Rightarrow> \<lparr>pv_refcnt = 1, pv_typed_bytes = tb\<rparr>)
      else tbl_get (rt_payload T) b)"
  by (auto simp: rows_added_def bump_or_insert_payload_def Let_def split: option.splits)

text \<open>Removing the displaced rows never changes the bytes of a body that stays.\<close>

lemma displaced_removed_bytes:
  assumes "tbl_get (rt_payload (displaced_removed po_of batch displaced T)) a = Some p'"
  shows "\<exists>p. tbl_get (rt_payload T) a = Some p \<and> pv_typed_bytes p' = pv_typed_bytes p"
  using assms
  by (auto simp: displaced_removed_def delete_entry_rows_in_tx_def Let_def dec_payload_get split: option.splits if_splits)

lemma payload_entries:
  assumes "tables_inv E ov open T"
  shows "tbl_get (rt_payload T) a = None \<longleftrightarrow> (\<forall>k v. tbl_get (rt_entry T) k = Some v \<longrightarrow> ek_addr k \<noteq> a)"
proof -
  have "case tbl_get (rt_payload T) a of None \<Rightarrow> entries_at a T = 0
      | Some p \<Rightarrow> pv_refcnt p = entries_at a T \<and> 0 < pv_refcnt p"
    using assms unfolding tables_inv_def payload_ok_def by blast
  then have "tbl_get (rt_payload T) a = None \<longleftrightarrow> entries_at a T = 0" by (auto split: option.splits)
  also have "\<dots> \<longleftrightarrow> (\<forall>k \<in> fst ` set (rt_entry T). ek_addr k \<noteq> a)"
    by (auto simp: entries_at_def filter_empty_conv tbl_keys_def tbl_entries_def)
  also have "\<dots> \<longleftrightarrow> (\<forall>k. tbl_get (rt_entry T) k \<noteq> None \<longrightarrow> ek_addr k \<noteq> a)"
    by (auto simp: tbl_get_None)
  finally show ?thesis by auto
qed

lemma displaced_removed_keeps:
  assumes "stamps_sound (env_postage E)" and "tables_inv E ov {} T"
    and "decide (tbl_get (rt_stamp_index T) (stamp_slot (env_postage E) s)) (incoming_of (env_postage E) s a) = Admit displaced"
    and "tbl_get (rt_entry T) k = Some v" and "ek_stamp_hash k = stamp_hash (env_postage E) s0"
    and "stamp_slot (env_postage E) s0 \<noteq> stamp_slot (env_postage E) s"
  shows "tbl_get (rt_entry (displaced_removed (\<lambda>a. env_proximity E a ov) (st_batch (env_postage E) s) displaced T)) k = Some v"
proof (cases displaced)
  case None
  then show ?thesis using assms(4) by (simp add: displaced_removed_def)
next
  case (Some d)
  then obtain e where e: "tbl_get (rt_stamp_index T) (stamp_slot (env_postage E) s) = Some e"
    "d = \<lparr>de_address = si_address e, de_stamp_hash = si_stamp_hash e, de_timestamp = si_timestamp e\<rparr>"
    using assms(3) by (auto simp: decide_def split: option.splits if_splits)
  obtain s' where "si_stamp_hash e = stamp_hash (env_postage E) s'" "stamp_slot (env_postage E) s' = stamp_slot (env_postage E) s"
    using slot_okD [OF assms(2) _ e(1)] by blast
  then have "ek_stamp_hash k \<noteq> si_stamp_hash e" using assms(1,5,6) by (auto simp: stamp_unique)
  then show ?thesis using assms(4) Some e(2)
    by (auto simp: displaced_removed_def delete_entry_rows_in_tx_def Let_def split: option.splits)
qed

text \<open>A put that is admitted, in terms of the two steps of its transaction.\<close>

lemma reserve_put_admitted:
  assumes "reserve_put E chunk R = (Inr (), R')" and "cc_stamp chunk = Some s"
    and "decide (tbl_get (rt_stamp_index (dr_tables R)) (stamp_slot (env_postage E) s))
      (incoming_of (env_postage E) s (env_chunk_address E (cc_chunk chunk))) = Admit displaced"
    and "stamps_sound (env_postage E)" and "reserve_inv E R"
  obtains T1 k v where
    "T1 = displaced_removed (\<lambda>a. env_proximity E a (dr_overlay R)) (st_batch (env_postage E) s) displaced (dr_tables R)"
    and "tables_inv E (dr_overlay R) {stamp_slot (env_postage E) s} T1" and "fresh_entry E (dr_overlay R) T1 k v s"
    and "ek_addr k = env_chunk_address E (cc_chunk chunk)"
    and "dr_tables R' = rows_added k v (env_chunk_type E (cc_chunk chunk)) (env_to_typed_bytes E (cc_chunk chunk))
      (stamp_slot (env_postage E) s) (occupant_of (env_postage E) s (ek_addr k)) T1"
    and "dr_overlay R' = dr_overlay R"
proof -
  let ?L = "env_postage E" and ?ov = "dr_overlay R" and ?a = "env_chunk_address E (cc_chunk chunk)"
  define T1 where "T1 = displaced_removed (\<lambda>a. env_proximity E a ?ov) (st_batch ?L s) displaced (dr_tables R)"
  define k where "k = EntryKey (env_proximity E ?a ?ov) (st_batch ?L s) (stamp_hash ?L s) ?a"
  define v where "v = \<lparr>ev_bin = env_bin E ?a ?ov, ev_binid = counter_of (env_bin E ?a ?ov) T1 + 1,
    ev_stamp_bytes = st_to_bytes ?L s\<rparr>"
  have inv: "tables_inv E ?ov {} (dr_tables R)" using assms(5) by (simp add: reserve_inv_def)
  from assms(1) show thesis
  proof (cases rule: reserve_put_cases)
    case (stored s' batch outcome T')
    then have "s' = s" using assms(2) by simp
    note tx = stored(5) [unfolded this put_tx_admit [OF assms(3) T1_def]]
    have put: "counter_of (env_bin E ?a ?ov) T1 \<noteq> - 1"
      "T' = rows_added k v (env_chunk_type E (cc_chunk chunk)) (env_to_typed_bytes E (cc_chunk chunk))
         (stamp_slot ?L s) (occupant_of ?L s ?a) T1"
      using tx by (auto simp: k_def v_def split: if_splits)
    show thesis
    proof (rule that [OF T1_def])
      show "tables_inv E ?ov {stamp_slot ?L s} T1"
        unfolding T1_def by (rule displaced_removed_inv [OF assms(4) inv assms(3)])
      show "fresh_entry E ?ov T1 k v s" using put(1) by (simp add: fresh_entry_def k_def v_def)
    qed (use put(2) stored(6) in \<open>simp_all add: k_def\<close>)
  qed simp
qed

section \<open>Results of the verbs\<close>

lemma evict_from_bin_result:
  assumes "stamps_sound (env_postage E)" and "reserve_inv E R" and "evict_from_bin E bin mx R = (n, R')"
  shows "n = min mx (count_in bin R) \<and> count_in bin R' = count_in bin R - n \<and>
    (\<forall>b. b \<noteq> bin \<longrightarrow> count_in b R' = count_in b R) \<and>
    filter (\<lambda>k. ek_po k \<noteq> bin) (entry_keys R') = filter (\<lambda>k. ek_po k \<noteq> bin) (entry_keys R) \<and>
    reserve_inv E R' \<and> bin_cursor b R' = bin_cursor b R"
proof (cases "mx = 0")
  case True
  then show ?thesis using assms by (simp add: evict_from_bin_def)
next
  case False
  define ks where "ks = take mx (filter (\<lambda>k. ek_po k = bin) (entry_keys R))"
  have ev: "evict_entries E (map target_of_entry ks) R = (n, R')"
    using assms(3) evict_from_bin_keys [OF assms(2), of mx bin] False by (simp add: ks_def)
  have ks: "distinct ks" "set ks \<subseteq> set (entry_keys R)" "\<And>k. k \<in> set ks \<Longrightarrow> ek_po k = bin"
    using entry_keys_distinct [OF assms(2)] by (auto simp: ks_def dest: in_set_takeD)
  note out = evict_present [OF assms(1,2) ks(1,2) ev]
  have "filter (\<lambda>k. ek_po k = bin) ks = ks" using ks(3) by (simp add: filter_id_conv)
  then have "count_in bin R = length ks + count_in bin R'"
    using out(4) [of "\<lambda>k. ek_po k = bin"] by (simp add: count_in_keys [OF assms(2)] count_in_keys [OF out(3)])
  moreover have "length ks = min mx (count_in bin R)" by (simp add: ks_def count_in_keys [OF assms(2)] min.commute)
  moreover have "filter (\<lambda>k. ek_po k \<noteq> bin) (entry_keys R') = filter (\<lambda>k. ek_po k \<noteq> bin) (entry_keys R)"
    unfolding out(2) filter_filter using ks(3) by (intro filter_cong) auto
  moreover have "count_in b R' = count_in b R" if "b \<noteq> bin" for b
  proof -
    have "filter (\<lambda>k. ek_po k = b) ks = []" using ks(3) that by (auto simp: filter_empty_conv)
    then show ?thesis using out(4) [of "\<lambda>k. ek_po k = b"] by (simp add: count_in_keys [OF assms(2)] count_in_keys [OF out(3)])
  qed
  ultimately show ?thesis using out(1,3,5) by auto
qed

lemma evict_batch_result:
  fixes R :: "('b, 'c) db_reserve"
  assumes "stamps_sound (env_postage E)" and "reserve_inv E R" and "evict_batch E b bound mx R = (n, R')"
  defines "stamped \<equiv> {k \<in> set (entry_keys R). ek_batch k = b \<and> below_bound bound (ek_po k)}"
    and "gone \<equiv> set (entry_keys R) - set (entry_keys R')"
  shows "n = min mx (card stamped) \<and> gone \<subseteq> stamped \<and> card gone = n \<and>
    (\<forall>x y. x \<in> gone \<and> y \<in> stamped - gone \<longrightarrow> ek_po x \<le> ek_po y) \<and>
    set (entry_keys R') \<subseteq> set (entry_keys R) \<and> reserve_inv E R'"
proof (cases "mx = 0")
  case True
  then show ?thesis using assms(2,3) by (simp add: evict_batch_def gone_def)
next
  case False
  define all where "all = batch_keys b bound R"
  define ks where "ks = take mx all"
  have ev: "evict_entries E (map target_of_entry ks) R = (n, R')"
    using assms(3) evict_batch_keys [OF assms(2), of mx b bound] False by (simp add: ks_def all_def)
  note exact = batch_keys_exact [OF assms(2), of b bound, folded all_def stamped_def]
  have ks: "distinct ks" "set ks \<subseteq> set (entry_keys R)" "set ks \<subseteq> stamped"
    using exact(1,2) set_take_subset [of mx all] by (auto simp: ks_def stamped_def)
  note out = evict_present [OF assms(1,2) ks(1,2) ev]
  have gone: "gone = set ks" using ks(2) by (auto simp: gone_def out(2))
  have "card stamped = length all" using exact(1,2) distinct_card by metis
  then have n: "n = min mx (card stamped)" using out(1) by (simp add: ks_def min.commute)
  have "sorted (map ek_po (ks @ drop mx all))" using exact(3) by (simp add: ks_def)
  then have "ek_po x \<le> ek_po y" if "x \<in> set ks" "y \<in> set (drop mx all)" for x y
    using that by (auto simp: sorted_append)
  moreover have "y \<in> set (drop mx all)" if "y \<in> stamped - gone" for y
  proof -
    have "y \<in> set (ks @ drop mx all)" using that exact(1) by (simp add: ks_def)
    then show ?thesis using that gone by simp
  qed
  ultimately have "\<forall>x y. x \<in> gone \<and> y \<in> stamped - gone \<longrightarrow> ek_po x \<le> ek_po y" using gone by blast
  moreover have "set (entry_keys R') \<subseteq> set (entry_keys R)" by (auto simp: out(2))
  ultimately show ?thesis using n ks(3) gone distinct_card [OF ks(1)] out(1,3) by simp
qed

lemma get_newest:
  assumes "stamps_sound (env_postage E)" and "reserve_inv E R"
  shows "(\<not> reserve_contains a R \<longrightarrow> reserve_get E a R = Inr None) \<and>
    (\<forall>p body. tbl_get (rt_payload (dr_tables R)) a = Some p \<and> env_from_typed_bytes E a (pv_typed_bytes p) = Some body \<longrightarrow>
       (\<exists>k s. reserve_get E a R = Inr (Some \<lparr>cc_chunk = body, cc_stamp = Some s\<rparr>) \<and>
          k \<in> set (entry_keys R) \<and> ek_addr k = a \<and> ek_stamp_hash k = stamp_hash (env_postage E) s \<and>
          (\<forall>k' s'. k' \<in> set (entry_keys R) \<and> ek_addr k' = a \<and> ek_stamp_hash k' = stamp_hash (env_postage E) s' \<longrightarrow>
             st_timestamp (env_postage E) s' \<le> st_timestamp (env_postage E) s)))"
proof (intro conjI allI impI)
  show "reserve_get E a R = Inr None" if "\<not> reserve_contains a R"
    using that by (simp add: reserve_contains_def reserve_get_def)
next
  let ?T = "dr_tables R" and ?L = "env_postage E"
  fix p body
  assume p: "tbl_get (rt_payload ?T) a = Some p \<and> env_from_typed_bytes E a (pv_typed_bytes p) = Some body"
  then have held: "reserve_contains a R" by (simp add: reserve_contains_def)
  from best_stamp_newest [OF assms(2,1) held] obtain k v s where ks: "k \<in> set (entry_keys R)" "ek_addr k = a"
    "entry_row E (dr_overlay R) ?T k v s"
    "best_stamp (env_proximity E a (dr_overlay R)) a (entry_rows_from (env_proximity E a (dr_overlay R)) ?T) None =
       Some (unat (st_timestamp ?L s), st_to_bytes ?L s)"
    "\<And>k' v' s'. tbl_get (rt_entry ?T) k' = Some v' \<Longrightarrow> ek_addr k' = a \<Longrightarrow> entry_row E (dr_overlay R) ?T k' v' s' \<Longrightarrow>
       st_timestamp ?L s' \<le> st_timestamp ?L s"
    by metis
  have "decode_stamp ?L (st_to_bytes ?L s) = Inr s" using assms(1) by (simp add: decode_stamp_def stamps_sound_def)
  then have "reserve_get E a R = Inr (Some \<lparr>cc_chunk = body, cc_stamp = Some s\<rparr>)"
    using p ks(4) by (simp add: reserve_get_def Let_def)
  moreover have "st_timestamp ?L s' \<le> st_timestamp ?L s"
    if k': "k' \<in> set (entry_keys R)" "ek_addr k' = a" "ek_stamp_hash k' = stamp_hash ?L s'" for k' s'
  proof -
    obtain v' t where v': "tbl_get (rt_entry ?T) k' = Some v'" and t: "entry_row E (dr_overlay R) ?T k' v' t"
      using entry_keysD [OF assms(2) k'(1)] by blast
    then have "t = s'" using k'(3) assms(1) by (simp add: entry_row_def stamp_unique)
    then show ?thesis using ks(5) [OF v' k'(2) t] by simp
  qed
  ultimately show "\<exists>k s. reserve_get E a R = Inr (Some \<lparr>cc_chunk = body, cc_stamp = Some s\<rparr>) \<and>
      k \<in> set (entry_keys R) \<and> ek_addr k = a \<and> ek_stamp_hash k = stamp_hash ?L s \<and>
      (\<forall>k' s'. k' \<in> set (entry_keys R) \<and> ek_addr k' = a \<and> ek_stamp_hash k' = stamp_hash ?L s' \<longrightarrow>
         st_timestamp ?L s' \<le> st_timestamp ?L s)"
    using ks(1-3) unfolding entry_row_def by blast
qed

text \<open>What each refusal of a put means.\<close>

fun put_cause ::
  "('st, 'se, 'b, 'c, 'ch) reserve_env \<Rightarrow> ('ch, 'st) cached_chunk \<Rightarrow> ('b, 'c) db_reserve \<Rightarrow> 'se swarm_error \<Rightarrow> bool" where
  "put_cause E chunk R (StamplessChunk a) \<longleftrightarrow> a = env_chunk_address E (cc_chunk chunk) \<and> cc_stamp chunk = None"
| "put_cause E chunk R (UnknownBatchOf a b) \<longleftrightarrow>
     (\<exists>s. cc_stamp chunk = Some s \<and> b = st_batch (env_postage E) s \<and> batch_get (dr_batches R) b = None)"
| "put_cause E chunk R (AdmissionFailed a err) \<longleftrightarrow>
     (\<exists>s b. cc_stamp chunk = Some s \<and> batch_get (dr_batches R) (st_batch (env_postage E) s) = Some b \<and>
        validate (env_postage E) (dr_admission R) s a b (batch_context (env_postage E) (dr_batches R)) = Inl err)"
| "put_cause E chunk R (CounterExhausted bin) \<longleftrightarrow>
     bin = env_bin E (env_chunk_address E (cc_chunk chunk)) (dr_overlay R) \<and> bin_cursor bin R = - 1"
| "put_cause E chunk R (StampUndecodable a err) \<longleftrightarrow> False"
| "put_cause E chunk R (BodyUndecodable a) \<longleftrightarrow> False"

section \<open>A concrete reserve\<close>

text \<open>A reserve of capacity one with two entries of two batches, over the concrete postage
  library; the proximity of an address is its last byte.\<close>

definition sample_env :: "(b256, unit, b256 \<times> nat \<times> nat, nat, b256 \<times> bytes) reserve_env" where
  "sample_env = \<lparr>env_postage = sample_lib, env_proximity = \<lambda>a ov. ucast a, env_bin = \<lambda>a ov. ucast a, env_max_po = 31,
     env_chunk_address = fst, env_chunk_type = \<lambda>c. 0, env_to_typed_bytes = snd,
     env_from_typed_bytes = \<lambda>a bs. Some (a, bs)\<rparr>"

definition sample_chunk :: "b256 \<Rightarrow> bytes \<Rightarrow> b256 \<Rightarrow> (b256 \<times> bytes, b256) cached_chunk" where
  "sample_chunk a body s = \<lparr>cc_chunk = (a, body), cc_stamp = Some s\<rparr>"

definition sample_batches :: "(b256 \<times> nat \<times> nat, nat) batch_db" where
  "sample_batches = \<lparr>bd_batches = [(1, (1, 100, 20)), (2, (2, 100, 20))], bd_context = []\<rparr>"

definition sample_empty :: "(b256 \<times> nat \<times> nat, nat) db_reserve" where
  "sample_empty =
     reserve_open 7 empty_tables 0 sample_batches \<lparr>av_confirmation_threshold = 0\<rparr> 1 EvictFurthest 0"

text \<open>Stamps of batch 1 and 2 at index 0, made at times 10 and 12.\<close>

definition sample_stamp1 :: b256 where "sample_stamp1 = 340282366920938463463374607431768211466"
definition sample_stamp2 :: b256 where "sample_stamp2 = 680564733841876926926749214863536422924"

definition sample_one :: "(b256 \<times> nat \<times> nat, nat) db_reserve" where
  "sample_one = snd (reserve_put sample_env (sample_chunk 5 [50] sample_stamp1) sample_empty)"

definition sample_reserve :: "(b256 \<times> nat \<times> nat, nat) db_reserve" where
  "sample_reserve = snd (reserve_put sample_env (sample_chunk 9 [90] sample_stamp2) sample_one)"

lemma sample_env_simps [simp]:
  "env_postage sample_env = sample_lib" "env_proximity sample_env a ov = ucast a" "env_bin sample_env a ov = ucast a"
  "env_chunk_address sample_env = fst" "env_to_typed_bytes sample_env = snd"
  "env_from_typed_bytes sample_env a bs = Some (a, bs)" "env_chunk_type sample_env c = 0"
  by (simp_all add: sample_env_def)

lemma sample_hash [simp]: "stamp_hash sample_lib s = s"
  by (simp add: stamp_hash_def sample_lib_def word_of_word_bytes)

lemma sample_fields [simp]:
  "st_batch sample_lib s = drop_bit 128 s" "st_stamp_index sample_lib s = ucast (drop_bit 64 s)"
  "st_timestamp sample_lib s = ucast s"
  by (simp_all add: sample_lib_def)

lemma sample_stamps: "stamps_sound sample_lib"
proof -
  have "stamp_timestamp (st_to_bytes sample_lib s) = unat (st_timestamp sample_lib s)" for s
    by (simp add: stamp_timestamp_def sample_lib_def word_bytes_def be_decode_encode word_bytes_bound [where 'a = 64, simplified])
  then show ?thesis
    by (simp add: stamps_sound_def) (simp add: sample_lib_def word_of_word_bytes)
qed

lemma sample_stamp_fields:
  "drop_bit 128 sample_stamp1 = 1" "drop_bit 128 sample_stamp2 = 2"
  "ucast (drop_bit 64 sample_stamp1) = (0 :: 64 word)" "ucast (drop_bit 64 sample_stamp2) = (0 :: 64 word)"
  by (simp_all add: sample_stamp1_def sample_stamp2_def)

text \<open>A put into an empty slot of a known batch.\<close>

lemma sample_put:
  assumes "dr_batches R = sample_batches" and "batch_get sample_batches (drop_bit 128 s) = Some (b, 100, dp)"
    and "tbl_get (rt_stamp_index (dr_tables R)) (stamp_slot sample_lib s) = None"
    and "counter_of (ucast a) (dr_tables R) \<noteq> - 1"
  shows "reserve_put sample_env (sample_chunk a body s) R =
    (Inr (), R\<lparr>dr_tables := rows_added (EntryKey (ucast a) (drop_bit 128 s) s a)
       \<lparr>ev_bin = ucast a, ev_binid = counter_of (ucast a) (dr_tables R) + 1, ev_stamp_bytes = st_to_bytes sample_lib s\<rparr>
       0 body (stamp_slot sample_lib s) (occupant_of sample_lib s a) (dr_tables R),
       dr_reserve := on_added (dr_reserve R)\<rparr>)"
proof -
  have valid: "validate sample_lib (dr_admission R) s a (b, 100, dp) (batch_context sample_lib sample_batches) = Inr ()"
    by (simp add: validate_def sample_lib_def batch_context_def sample_batches_def)
  have dec: "decide (tbl_get (rt_stamp_index (dr_tables R)) (stamp_slot sample_lib s)) (incoming_of sample_lib s a) = Admit None"
    by (simp add: assms(3) decide_def)
  have po: "reserve_po_of sample_env R = ucast" by (simp add: reserve_po_of_def fun_eq_iff)
  have inc: "\<lparr>in_batch_id = drop_bit 128 s, in_stamp_index = ucast (drop_bit 64 s), in_timestamp = word_bytes (ucast s :: 64 word),
      in_stamp_hash = s, in_address = a\<rparr> = incoming_of sample_lib s a"
    by (simp add: incoming_of_def)
  have disp: "displaced_removed p q None T = T" for p q T by (simp add: displaced_removed_def)
  show ?thesis
    using assms(1,2,4) valid
    by (simp add: reserve_put_def sample_chunk_def Let_def po inc db_update_def put_tx_admit [OF dec refl] disp)
qed

lemma sample_empty_fields:
  "dr_batches sample_empty = sample_batches" "dr_overlay sample_empty = 0" "rt_stamp_index (dr_tables sample_empty) = []"
  "rt_bin_counter (dr_tables sample_empty) = []" "rt_entry (dr_tables sample_empty) = []" "rt_payload (dr_tables sample_empty) = []"
  "dr_reserve sample_empty = \<lparr>rs_capacity = 1, rs_count = 0, rs_strategy = EvictFurthest, rs_overlay = Some 0\<rparr>"
  by (simp_all add: sample_empty_def reserve_open_def empty_tables_def set_count_def with_identity_def
      reserve_with_strategy_def tbl_count_def)

lemma sample_batch_get: "batch_get sample_batches 1 = Some (1, 100, 20)" "batch_get sample_batches 2 = Some (2, 100, 20)"
  by (simp_all add: sample_batches_def batch_get_def tbl_get_def)

lemma sample_one_eq:
  "sample_one = sample_empty\<lparr>
     dr_tables := rows_added (EntryKey 5 1 sample_stamp1 5) \<lparr>ev_bin = 5, ev_binid = 1, ev_stamp_bytes = st_to_bytes sample_lib sample_stamp1\<rparr>
       0 [50] (stamp_slot sample_lib sample_stamp1) (occupant_of sample_lib sample_stamp1 5) (dr_tables sample_empty),
     dr_reserve := on_added (dr_reserve sample_empty)\<rparr>"
  and sample_one_put: "reserve_put sample_env (sample_chunk 5 [50] sample_stamp1) sample_empty = (Inr (), sample_one)"
proof -
  note put = sample_put [of sample_empty sample_stamp1 1 20 5 "[50]"]
  have counter: "counter_of 5 (dr_tables sample_empty) = 0" by (simp add: counter_of_def sample_empty_fields)
  show "sample_one = sample_empty\<lparr>
     dr_tables := rows_added (EntryKey 5 1 sample_stamp1 5) \<lparr>ev_bin = 5, ev_binid = 1, ev_stamp_bytes = st_to_bytes sample_lib sample_stamp1\<rparr>
       0 [50] (stamp_slot sample_lib sample_stamp1) (occupant_of sample_lib sample_stamp1 5) (dr_tables sample_empty),
     dr_reserve := on_added (dr_reserve sample_empty)\<rparr>"
    unfolding sample_one_def using put by (simp add: sample_empty_fields sample_stamp_fields sample_batch_get counter)
  show "reserve_put sample_env (sample_chunk 5 [50] sample_stamp1) sample_empty = (Inr (), sample_one)"
    unfolding sample_one_def using put by (simp add: sample_empty_fields sample_stamp_fields sample_batch_get counter)
qed

lemma sample_slots: "stamp_slot sample_lib sample_stamp1 = StampSlotKey 1 0" "stamp_slot sample_lib sample_stamp2 = StampSlotKey 2 0"
  by (simp_all add: stamp_slot_def sample_stamp_fields)

lemma sample_one_fields:
  "dr_batches sample_one = sample_batches" "dr_overlay sample_one = 0" "counter_of 9 (dr_tables sample_one) = 0"
  "tbl_get (rt_stamp_index (dr_tables sample_one)) (StampSlotKey 2 0) = None"
  "rt_entry (dr_tables sample_one) = [(EntryKey 5 1 sample_stamp1 5, \<lparr>ev_bin = 5, ev_binid = 1, ev_stamp_bytes = st_to_bytes sample_lib sample_stamp1\<rparr>)]"
  "dr_reserve sample_one = \<lparr>rs_capacity = 1, rs_count = 1, rs_strategy = EvictFurthest, rs_overlay = Some 0\<rparr>"
  by (simp_all add: sample_one_eq sample_empty_fields counter_of_added counter_of_def sample_slots on_added_def u64_wrapping_add_def
      tbl_get_def)

lemma sample_reserve_eq:
  "sample_reserve = sample_one\<lparr>
     dr_tables := rows_added (EntryKey 9 2 sample_stamp2 9) \<lparr>ev_bin = 9, ev_binid = 1, ev_stamp_bytes = st_to_bytes sample_lib sample_stamp2\<rparr>
       0 [90] (stamp_slot sample_lib sample_stamp2) (occupant_of sample_lib sample_stamp2 9) (dr_tables sample_one),
     dr_reserve := on_added (dr_reserve sample_one)\<rparr>"
  using sample_put [of sample_one sample_stamp2 2 20 9 "[90]"]
  by (simp add: sample_reserve_def sample_one_fields sample_stamp_fields sample_batch_get sample_slots)

lemma sample_reserve_fields:
  "dr_batches sample_reserve = sample_batches" "dr_overlay sample_reserve = 0"
  "entry_keys sample_reserve = [EntryKey 5 1 sample_stamp1 5, EntryKey 9 2 sample_stamp2 9]"
  "dr_reserve sample_reserve = \<lparr>rs_capacity = 1, rs_count = 2, rs_strategy = EvictFurthest, rs_overlay = Some 0\<rparr>"
  "tbl_get (rt_entry (dr_tables sample_reserve)) (EntryKey 9 2 sample_stamp2 9) =
     Some \<lparr>ev_bin = 9, ev_binid = 1, ev_stamp_bytes = st_to_bytes sample_lib sample_stamp2\<rparr>"
  by (simp_all add: sample_reserve_eq sample_one_fields on_added_def u64_wrapping_add_def entry_keys_def tbl_keys_def
      tbl_entries_def tbl_get_def less_entry_key_def entry_key_fields_def)

lemma sample_reserve_gets:
  "counter_of 9 (dr_tables sample_reserve) = 1"
  "tbl_get (rt_stamp_index (dr_tables sample_reserve)) (StampSlotKey 1 1) = None"
  by (simp_all add: sample_reserve_eq sample_one_eq sample_empty_fields sample_slots counter_of_added del: tbl_put.simps)

lemma sample_reachable: "reserve_reachable sample_env sample_reserve"
proof -
  have "reserve_reachable sample_env sample_empty" unfolding sample_empty_def by (rule reserve_reachable.opened)
  then have "reserve_reachable sample_env (reserve_step sample_env (PutChunk (sample_chunk 5 [50] sample_stamp1)) sample_empty)"
    by (rule reserve_reachable.step) (simp add: reserve_count_def sample_empty_fields tbl_count_def)
  then have "reserve_reachable sample_env sample_one" by (simp add: sample_one_put)
  then have "reserve_reachable sample_env (reserve_step sample_env (PutChunk (sample_chunk 9 [90] sample_stamp2)) sample_one)"
    by (rule reserve_reachable.step) (simp add: reserve_count_def sample_one_fields tbl_count_def)
  then show ?thesis by (simp add: sample_reserve_def)
qed

lemmas sample_inv = reserve_reachable_inv [of sample_env, simplified, OF sample_stamps sample_reachable]

section \<open>Properties\<close>

text \<open>C1. The reserve is consistent in every state a run can reach: each entry has its one
  row in every index and owns its stamp slot, every index row belongs to an entry,
  reference counts are exact, the size counter is the number of entries, and an address
  is held exactly when it has an entry.\<close>

theorem reserve_stays_consistent:
  assumes "stamps_sound (env_postage E)" and "reserve_reachable E R"
  shows "reserve_inv E R \<and> rs_count (dr_reserve R) = length (entry_keys R) \<and> distinct (entry_keys R) \<and>
    (\<forall>a. reserve_contains a R \<longleftrightarrow> a \<in> ek_addr ` set (entry_keys R))"
proof -
  have inv: "reserve_inv E R" by (rule reserve_reachable_inv [OF assms])
  then show ?thesis using reserve_contains_entry [OF inv] entry_keys_distinct [OF inv]
    by (simp add: reserve_count_keys [symmetric]) (simp add: reserve_inv_def)
qed

theorem reserve_stays_consistent_witness:
  "rs_count (dr_reserve sample_reserve) = length (entry_keys sample_reserve) \<and> reserve_contains 9 sample_reserve \<and>
   \<not> reserve_contains 7 sample_reserve"
  using reserve_stays_consistent [OF _ sample_reachable] sample_stamps by (simp add: sample_reserve_fields)

text \<open>C10. Sequences are never reused: no operation lowers a bin's cursor, and an entry that
  an operation adds has a sequence above the cursor its bin had before, so a peer that
  has synced up to a cursor misses nothing that is added later.\<close>

theorem sequences_never_reused:
  "bin_cursor b R \<le> bin_cursor b (reserve_step E op R) \<and>
   (\<forall>k v. tbl_get (rt_entry (dr_tables (reserve_step E op R))) k = Some v \<and>
      tbl_get (rt_entry (dr_tables R)) k \<noteq> Some v \<longrightarrow> bin_cursor (ev_bin v) R < ev_binid v)"
  using reserve_step_sequences by blast

theorem sequences_never_reused_witness:
  "bin_cursor 9 sample_one < (1 :: 64 word) \<and>
   bin_cursor 9 sample_one \<le> bin_cursor 9 (reserve_step sample_env (PutChunk (sample_chunk 9 [90] sample_stamp2)) sample_one)"
  using sequences_never_reused [of 9 sample_one sample_env "PutChunk (sample_chunk 9 [90] sample_stamp2)"]
    sample_reserve_fields(5)
  by (auto simp: sample_reserve_def [symmetric] sample_one_fields tbl_get_def dest!: spec [of _ "EntryKey 9 2 sample_stamp2 9"])

text \<open>C16. A put that fails changes nothing and says why: without a stamp, for a batch the
  store does not know, for a stamp that fails admission, or for a bin whose sequences
  are used up; in the last case the rows of a displaced entry, already deleted in the
  transaction, are back.\<close>

theorem put_failure_is_clean:
  assumes "reserve_put E chunk R = (Inl e, R')"
  shows "R' = R \<and> put_cause E chunk R e"
proof -
  let ?L = "env_postage E" and ?a = "env_chunk_address E (cc_chunk chunk)"
  have "R' = R" using assms by (cases rule: reserve_put_cases) auto
  moreover have po: "reserve_po_of E R = (\<lambda>a. env_proximity E a (dr_overlay R))" by (simp add: reserve_po_of_def fun_eq_iff)
  have "put_cause E chunk R e"
  proof (cases "\<exists>s b. cc_stamp chunk = Some s \<and> batch_get (dr_batches R) (st_batch ?L s) = Some b \<and>
      validate ?L (dr_admission R) s ?a b (batch_context ?L (dr_batches R)) = Inr ()")
    case True
    then obtain s b where s: "cc_stamp chunk = Some s" "batch_get (dr_batches R) (st_batch ?L s) = Some b"
      "validate ?L (dr_admission R) s ?a b (batch_context ?L (dr_batches R)) = Inr ()" by blast
    note put = assms [unfolded reserve_put_def Let_def s option.case sum.case po incoming_of_def [symmetric] db_update_def]
    then obtain T' where "put_tx (\<lambda>a. env_proximity E a (dr_overlay R)) (env_bin E ?a (dr_overlay R))
        (env_chunk_type E (cc_chunk chunk)) (st_to_bytes ?L s) (env_to_typed_bytes E (cc_chunk chunk))
        (incoming_of ?L s ?a) (dr_tables R) = (Inl e, T')"
      by (auto split: prod.splits sum.splits)
    from put_tx_exhausted [OF this] show ?thesis by (simp add: bin_cursor_counter)
  next
    case False
    then show ?thesis using assms unfolding reserve_put_def Let_def
      by (auto split: option.splits sum.splits)
  qed
  ultimately show ?thesis by blast
qed

theorem put_failure_is_clean_witness:
  "snd (reserve_put sample_env \<lparr>cc_chunk = (5, []), cc_stamp = None\<rparr> sample_reserve) = sample_reserve"
proof (cases "reserve_put sample_env \<lparr>cc_chunk = (5, []), cc_stamp = None\<rparr> sample_reserve")
  case (Pair res R')
  then have "res = Inl (StamplessChunk 5)" by (simp add: reserve_put_def)
  from put_failure_is_clean [OF Pair [unfolded this]] Pair show ?thesis by simp
qed

text \<open>Shedding a bin is exact: it removes as many entries of that bin as it may and
  has, no entry of another bin, and keeps the reserve consistent and the cursors where
  they were; and the count of a bin is the number of its entries.\<close>

lemma evict_from_bin_exact:
  assumes "stamps_sound (env_postage E)" and "reserve_inv E R" and "evict_from_bin E bin mx R = (n, R')"
  shows "n = min mx (count_in bin R) \<and> count_in bin R' = count_in bin R - n \<and>
    (\<forall>b. b \<noteq> bin \<longrightarrow> count_in b R' = count_in b R) \<and>
    filter (\<lambda>k. ek_po k \<noteq> bin) (entry_keys R') = filter (\<lambda>k. ek_po k \<noteq> bin) (entry_keys R) \<and>
    reserve_inv E R' \<and> bin_cursor b R' = bin_cursor b R"
  by (rule evict_from_bin_result [OF assms])

text \<open>C7. Eviction to capacity reaches it and takes the furthest: afterwards the reserve
  holds the smaller of its former size and its capacity, the number returned is the
  difference, and no entry that went is nearer than one that stayed.\<close>

theorem evict_to_capacity_exact:
  assumes "stamps_sound (env_postage E)" and "reserve_inv E R" and "evict_to_capacity E R = (n, R')"
  shows "reserve_count R' = min (reserve_count R) (rs_capacity (dr_reserve R)) \<and>
    n + reserve_count R' = reserve_count R \<and> reserve_inv E R' \<and> set (entry_keys R') \<subseteq> set (entry_keys R) \<and>
    (\<forall>gone kept. gone \<in> set (entry_keys R) - set (entry_keys R') \<and> kept \<in> set (entry_keys R') \<longrightarrow>
       ek_po gone \<le> ek_po kept)"
proof (cases "rs_capacity (dr_reserve R) < reserve_count R")
  case False
  then show ?thesis using assms(2,3) by (auto simp: evict_to_capacity_def reserve_inv_def)
next
  case True
  define m where "m = reserve_count R - rs_capacity (dr_reserve R)"
  define ks where "ks = take m (entry_keys R)"
  have ev: "evict_entries E (map target_of_entry ks) R = (n, R')"
    using assms(3) evict_to_capacity_keys [OF assms(2) True] by (simp add: ks_def m_def)
  have dist: "distinct (entry_keys R)" by (rule entry_keys_distinct [OF assms(2)])
  have ks: "distinct ks" "set ks \<subseteq> set (entry_keys R)" using dist by (auto simp: ks_def dest: in_set_takeD)
  note out = evict_present [OF assms(1,2) ks ev]
  have len: "length ks = m" using True by (simp add: ks_def m_def reserve_count_keys)
  have count: "reserve_count R = length ks + reserve_count R'"
    using out(4) [of "\<lambda>_. True"] by (simp add: reserve_count_keys)
  have kept: "x \<in> set (drop m (entry_keys R))" if "x \<in> set (entry_keys R')" for x
  proof -
    have "x \<in> set (ks @ drop m (entry_keys R))" using that by (simp add: ks_def out(2))
    then show ?thesis using that by (simp add: out(2))
  qed
  have gone: "x \<in> set ks" if "x \<in> set (entry_keys R) - set (entry_keys R')" for x using that by (simp add: out(2))
  have "sorted_wrt (<) (ks @ drop m (entry_keys R))" using entry_keys_sorted [OF assms(2)] by (simp add: ks_def)
  then have "ek_po x \<le> ek_po y" if "x \<in> set ks" "y \<in> set (drop m (entry_keys R))" for x y
    using that by (simp add: sorted_wrt_append entry_less_po)
  then have order: "\<forall>x y. x \<in> set (entry_keys R) - set (entry_keys R') \<and> y \<in> set (entry_keys R') \<longrightarrow> ek_po x \<le> ek_po y"
    using kept gone by blast
  have "reserve_count R' = rs_capacity (dr_reserve R)" using count len m_def True by linarith
  then have "reserve_count R' = min (reserve_count R) (rs_capacity (dr_reserve R))" using True by simp
  moreover have "n + reserve_count R' = reserve_count R" unfolding out(1) count ..
  moreover have "set (entry_keys R') \<subseteq> set (entry_keys R)" by (auto simp: out(2))
  ultimately show ?thesis using order out(3) by blast
qed

theorem evict_to_capacity_exact_witness: "reserve_count (snd (evict_to_capacity sample_env sample_reserve)) = 1"
proof (cases "evict_to_capacity sample_env sample_reserve")
  case (Pair n R')
  from evict_to_capacity_exact [OF _ sample_inv this] sample_stamps Pair show ?thesis
    by (simp add: reserve_count_keys sample_reserve_fields)
qed

text \<open>C12. Evicting a batch is exact: it removes the entries of that batch, up to the maximum
  and only in bins shallower than the bound, shallowest bins first, and no other entry.\<close>

theorem evict_batch_exact:
  fixes R :: "('b, 'c) db_reserve"
  assumes "stamps_sound (env_postage E)" and "reserve_inv E R" and "evict_batch E b bound mx R = (n, R')"
  defines "stamped \<equiv> {k \<in> set (entry_keys R). ek_batch k = b \<and> below_bound bound (ek_po k)}"
    and "gone \<equiv> set (entry_keys R) - set (entry_keys R')"
  shows "n = min mx (card stamped) \<and> gone \<subseteq> stamped \<and> card gone = n \<and>
    (\<forall>x y. x \<in> gone \<and> y \<in> stamped - gone \<longrightarrow> ek_po x \<le> ek_po y) \<and>
    set (entry_keys R') \<subseteq> set (entry_keys R) \<and> reserve_inv E R'"
  unfolding stamped_def gone_def by (rule evict_batch_result [OF assms(1-3)])

theorem evict_batch_exact_witness: "fst (evict_batch sample_env 2 None 10 sample_reserve) = 1"
proof (cases "evict_batch sample_env 2 None 10 sample_reserve")
  case (Pair n R')
  have "{k \<in> set (entry_keys sample_reserve). ek_batch k = 2 \<and> below_bound None (ek_po k)} = {EntryKey 9 2 sample_stamp2 9}"
    by (auto simp: sample_reserve_fields below_bound_def)
  with evict_batch_exact [OF _ sample_inv Pair] sample_stamps Pair show ?thesis by simp
qed

text \<open>Removing an address removes every stamped entry of it and its body, and nothing
  else: other addresses keep all their entries.\<close>

lemma remove_exact:
  assumes "stamps_sound (env_postage E)" and "reserve_inv E R"
  shows "entry_keys (reserve_remove E a R) = filter (\<lambda>k. ek_addr k \<noteq> a) (entry_keys R) \<and>
    (\<forall>a'. reserve_contains a' (reserve_remove E a R) \<longleftrightarrow> a' \<noteq> a \<and> reserve_contains a' R) \<and>
    reserve_inv E (reserve_remove E a R)"
proof -
  let ?po = "reserve_po_of E R a" and ?T = "dr_tables R"
  define ks where "ks = filter (\<lambda>k. ek_addr k = a \<and> ek_po k = ?po) (entry_keys R)"
  obtain n R' where ev: "evict_entries E (map target_of_entry ks) R = (n, R')" by fastforce
  have "entries_for_address E a R = map target_of_entry ks"
    by (simp add: entries_for_address_def collect_address_filter entry_range [OF reserve_inv_wf(1) [OF assms(2)]] ks_def
        entry_keys_def tbl_keys_def tbl_entries_def filter_map comp_def filter_filter conj_commute)
  then have R': "reserve_remove E a R = R'" using ev by (simp add: reserve_remove_def)
  have po: "ek_po k = ?po" if "k \<in> set (entry_keys R)" "ek_addr k = a" for k
    using entry_keysD [OF assms(2) that(1)] that(2) by (auto simp: entry_row_def reserve_po_of_def)
  have ks: "distinct ks" "set ks \<subseteq> set (entry_keys R)" using entry_keys_distinct [OF assms(2)] by (auto simp: ks_def)
  note out = evict_present [OF assms(1,2) ks ev]
  have keys: "entry_keys R' = filter (\<lambda>k. ek_addr k \<noteq> a) (entry_keys R)"
    unfolding out(2) ks_def using po by (intro filter_cong) auto
  show ?thesis unfolding R' using keys out(3) reserve_contains_entry [OF assms(2)] reserve_contains_entry [OF out(3)]
    by auto
qed

text \<open>A lookup returns the newest stamp: for an address the reserve holds, whose body
  decodes, it returns the body with the stamp of an entry of that address, and no entry
  of the address has a later timestamp; for an address it does not hold it returns none.\<close>

lemma get_returns_newest:
  assumes "stamps_sound (env_postage E)" and "reserve_inv E R"
  shows "(\<not> reserve_contains a R \<longrightarrow> reserve_get E a R = Inr None) \<and>
    (\<forall>p body. tbl_get (rt_payload (dr_tables R)) a = Some p \<and> env_from_typed_bytes E a (pv_typed_bytes p) = Some body \<longrightarrow>
       (\<exists>k s. reserve_get E a R = Inr (Some \<lparr>cc_chunk = body, cc_stamp = Some s\<rparr>) \<and>
          k \<in> set (entry_keys R) \<and> ek_addr k = a \<and> ek_stamp_hash k = stamp_hash (env_postage E) s \<and>
          (\<forall>k' s'. k' \<in> set (entry_keys R) \<and> ek_addr k' = a \<and> ek_stamp_hash k' = stamp_hash (env_postage E) s' \<longrightarrow>
             st_timestamp (env_postage E) s' \<le> st_timestamp (env_postage E) s)))"
  by (rule get_newest [OF assms])

text \<open>C13. The replay scan of a bin is complete and in order: it yields exactly the live
  entries of the bin from the start sequence on, each with its address, batch and stamp
  hash, in strictly ascending sequence.\<close>

theorem scan_complete_and_ordered:
  assumes "reserve_inv E R"
  shows "sorted_wrt (<) (map bs_seq (scan_bin_from bin start R)) \<and>
    (\<forall>i. i \<in> set (scan_bin_from bin start R) \<longleftrightarrow>
       (\<exists>k v. tbl_get (rt_entry (dr_tables R)) k = Some v \<and> ev_bin v = bin \<and> start \<le> ev_binid v \<and>
          i = \<lparr>bs_seq = ev_binid v, bs_address = ek_addr k, bs_batch_id = ek_batch k, bs_stamp_hash = ek_stamp_hash k\<rparr>))"
proof -
  let ?T = "dr_tables R"
  have inv: "tables_inv E (dr_overlay R) {} ?T" using assms by (simp add: reserve_inv_def)
  have wf: "tbl_wf (rt_replay ?T)" by (rule reserve_inv_wf(3) [OF assms])
  define rows where "rows = filter (\<lambda>r. rk_bin (fst r) = bin \<and> start \<le> rk_binid (fst r)) (rt_replay ?T)"
  let ?item = "\<lambda>r. \<lparr>bs_seq = rk_binid (fst r), bs_address = rv_address (snd r), bs_batch_id = rv_batch_id (snd r),
    bs_stamp_hash = rv_stamp_hash (snd r)\<rparr>"
  have scan: "scan_bin_from bin start R = map ?item rows"
    by (simp add: scan_bin_from_def scan_rows_takeWhile scan_range [OF wf] rows_def)
  have "sorted_wrt (\<lambda>x y. fst x < fst y) rows"
    using wf by (simp add: rows_def tbl_wf_def sorted_wrt_map sorted_wrt_filter)
  then have "sorted_wrt (\<lambda>x y. rk_binid (fst x) < rk_binid (fst y)) rows"
    by (rule sorted_wrt_mono_rel [rotated]) (auto simp: rows_def replay_less)
  then have sorted: "sorted_wrt (<) (map bs_seq (scan_bin_from bin start R))"
    by (simp add: scan sorted_wrt_map comp_def)
  have entry: "\<exists>k v. tbl_get (rt_entry ?T) k = Some v \<and> ev_bin v = bin \<and> start \<le> ev_binid v \<and>
      ?item r = \<lparr>bs_seq = ev_binid v, bs_address = ek_addr k, bs_batch_id = ek_batch k, bs_stamp_hash = ek_stamp_hash k\<rparr>"
    if r: "r \<in> set rows" for r
  proof -
    have "tbl_get (rt_replay ?T) (fst r) = Some (snd r)" using r tbl_in_get [OF wf, of "fst r" "snd r"] by (simp add: rows_def)
    then obtain v where "tbl_get (rt_entry ?T) (EntryKey (env_proximity E (rv_address (snd r)) (dr_overlay R))
        (rv_batch_id (snd r)) (rv_stamp_hash (snd r)) (rv_address (snd r))) = Some v"
      "ev_bin v = rk_bin (fst r)" "ev_binid v = rk_binid (fst r)"
      using inv unfolding tables_inv_def replay_ok_def by blast
    then show ?thesis using r by (intro exI conjI) (auto simp: rows_def)
  qed
  have row: "\<lparr>bs_seq = ev_binid v, bs_address = ek_addr k, bs_batch_id = ek_batch k, bs_stamp_hash = ek_stamp_hash k\<rparr>
      \<in> set (map ?item rows)"
    if kv: "tbl_get (rt_entry ?T) k = Some v" "ev_bin v = bin" "start \<le> ev_binid v" for k v
  proof -
    obtain rv where rv: "tbl_get (rt_replay ?T) (ReplayKey bin (ev_binid v)) = Some rv" "rv_address rv = ek_addr k"
      "rv_batch_id rv = ek_batch k" "rv_stamp_hash rv = ek_stamp_hash k"
      using entry_okD [OF inv kv(1)] kv(2) by (auto simp: entry_row_def)
    then have "(ReplayKey bin (ev_binid v), rv) \<in> set rows" using kv(3) tbl_in_get [OF wf] by (simp add: rows_def)
    from imageI [OF this, of ?item] show ?thesis using rv by simp
  qed
  show ?thesis using sorted entry row unfolding scan set_map by blast
qed

theorem scan_complete_and_ordered_witness:
  "\<lparr>bs_seq = 1, bs_address = 9, bs_batch_id = 2, bs_stamp_hash = sample_stamp2\<rparr> \<in> set (scan_bin_from 9 0 sample_reserve)"
  using scan_complete_and_ordered [OF sample_inv, of 9 0] sample_reserve_fields(5) by fastforce

text \<open>What a put adds, and the body the reserve then holds for the address: the one that was
  stored, or this one when none was or the put displaced its last entry.\<close>

lemma put_admitted_rows:
  assumes "stamps_sound (env_postage E)" and "reserve_inv E R"
    and "reserve_put E \<lparr>cc_chunk = ch, cc_stamp = Some s\<rparr> R = (Inr (), R')"
    and "decide (tbl_get (rt_stamp_index (dr_tables R)) (stamp_slot (env_postage E) s))
      (incoming_of (env_postage E) s (env_chunk_address E ch)) = Admit displaced"
  obtains k T1 where "k \<in> set (entry_keys R')" "ek_addr k = env_chunk_address E ch"
    "ek_stamp_hash k = stamp_hash (env_postage E) s"
    "\<And>k'. k' \<in> set (entry_keys R') \<longleftrightarrow> k' = k \<or> tbl_get (rt_entry T1) k' \<noteq> None"
    "tables_inv E (dr_overlay R) {stamp_slot (env_postage E) s} T1"
    "tbl_get (rt_payload T1) (env_chunk_address E ch) = None \<Longrightarrow>
      tbl_get (rt_payload (dr_tables R')) (env_chunk_address E ch)
        = Some \<lparr>pv_refcnt = 1, pv_typed_bytes = env_to_typed_bytes E ch\<rparr>"
    "\<And>p1. tbl_get (rt_payload T1) (env_chunk_address E ch) = Some p1 \<Longrightarrow>
      \<exists>p p'. tbl_get (rt_payload (dr_tables R)) (env_chunk_address E ch) = Some p
        \<and> tbl_get (rt_payload (dr_tables R')) (env_chunk_address E ch) = Some p'
        \<and> pv_typed_bytes p' = pv_typed_bytes p"
proof -
  let ?L = "env_postage E" and ?a = "env_chunk_address E ch"
  obtain T1 k v where T1: "T1 = displaced_removed (\<lambda>a. env_proximity E a (dr_overlay R)) (st_batch ?L s) displaced (dr_tables R)"
    and opened: "tables_inv E (dr_overlay R) {stamp_slot ?L s} T1" and fresh: "fresh_entry E (dr_overlay R) T1 k v s"
    and k: "ek_addr k = ?a"
    and T': "dr_tables R' = rows_added k v (env_chunk_type E ch) (env_to_typed_bytes E ch) (stamp_slot ?L s)
      (occupant_of ?L s (ek_addr k)) T1"
    using reserve_put_admitted [OF assms(3) _ _ assms(1,2)] assms(4) by simp metis
  show thesis
  proof (rule that [of k T1])
    show mem: "k' \<in> set (entry_keys R') \<longleftrightarrow> k' = k \<or> tbl_get (rt_entry T1) k' \<noteq> None" for k'
      by (auto simp: entry_keys_get T')
    show "k \<in> set (entry_keys R')" by (simp add: mem)
    show "ek_stamp_hash k = stamp_hash ?L s" using fresh by (metis entry_key.sel(3) fresh_entry_def)
    show "\<exists>p p'. tbl_get (rt_payload (dr_tables R)) ?a = Some p
        \<and> tbl_get (rt_payload (dr_tables R')) ?a = Some p' \<and> pv_typed_bytes p' = pv_typed_bytes p"
      if p1: "tbl_get (rt_payload T1) ?a = Some p1" for p1
    proof -
      obtain p where "tbl_get (rt_payload (dr_tables R)) ?a = Some p" "pv_typed_bytes p1 = pv_typed_bytes p"
        using displaced_removed_bytes p1 unfolding T1 by blast
      then show ?thesis using p1 by (simp add: T' rows_added_payload_get k)
    qed
  qed (simp_all add: k opened T' rows_added_payload_get)
qed

text \<open>C6. A chunk that is stored can be fetched: after a put that its slot admits, of a chunk
  whose body decodes from its own encoding, a lookup of its address returns exactly that
  chunk and stamp if the reserve did not hold the address. If it held the address with a body
  that decodes, the lookup returns that body or the new one, with a stamp at least as new.\<close>

theorem put_get_round_trip:
  assumes "stamps_sound (env_postage E)" and "reserve_inv E R" and "reserve_count R < u64_max"
    and "reserve_put E \<lparr>cc_chunk = ch, cc_stamp = Some s\<rparr> R = (Inr (), R')"
    and "decide (tbl_get (rt_stamp_index (dr_tables R)) (stamp_slot (env_postage E) s))
      (incoming_of (env_postage E) s (env_chunk_address E ch)) = Admit displaced"
    and "env_from_typed_bytes E (env_chunk_address E ch) (env_to_typed_bytes E ch) = Some ch"
  shows "(\<not> reserve_contains (env_chunk_address E ch) R \<longrightarrow>
      reserve_get E (env_chunk_address E ch) R' = Inr (Some \<lparr>cc_chunk = ch, cc_stamp = Some s\<rparr>))
    \<and> (\<forall>p body. tbl_get (rt_payload (dr_tables R)) (env_chunk_address E ch) = Some p
        \<and> env_from_typed_bytes E (env_chunk_address E ch) (pv_typed_bytes p) = Some body \<longrightarrow>
      (\<exists>body' s'. reserve_get E (env_chunk_address E ch) R' = Inr (Some \<lparr>cc_chunk = body', cc_stamp = Some s'\<rparr>)
        \<and> body' \<in> {body, ch} \<and> st_timestamp (env_postage E) s \<le> st_timestamp (env_postage E) s'))"
proof -
  let ?L = "env_postage E" and ?a = "env_chunk_address E ch"
  have inv': "reserve_inv E R'" using reserve_put_inv [OF assms(1-3), of "\<lparr>cc_chunk = ch, cc_stamp = Some s\<rparr>"] assms(4) by simp
  obtain k T1 where k: "k \<in> set (entry_keys R')" "ek_addr k = ?a" "ek_stamp_hash k = stamp_hash ?L s"
    and mem: "\<And>k'. k' \<in> set (entry_keys R') \<longleftrightarrow> k' = k \<or> tbl_get (rt_entry T1) k' \<noteq> None"
    and opened: "tables_inv E (dr_overlay R) {stamp_slot ?L s} T1"
    and new: "tbl_get (rt_payload T1) ?a = None \<Longrightarrow>
      tbl_get (rt_payload (dr_tables R')) ?a = Some \<lparr>pv_refcnt = 1, pv_typed_bytes = env_to_typed_bytes E ch\<rparr>"
    and old: "\<And>p1. tbl_get (rt_payload T1) ?a = Some p1 \<Longrightarrow>
      \<exists>p p'. tbl_get (rt_payload (dr_tables R)) ?a = Some p \<and> tbl_get (rt_payload (dr_tables R')) ?a = Some p'
        \<and> pv_typed_bytes p' = pv_typed_bytes p"
    by (rule put_admitted_rows [OF assms(1,2,4,5)]) (rule that)
  have get: "\<exists>k' s'. reserve_get E ?a R' = Inr (Some \<lparr>cc_chunk = body, cc_stamp = Some s'\<rparr>)
      \<and> k' \<in> set (entry_keys R') \<and> ek_addr k' = ?a \<and> ek_stamp_hash k' = stamp_hash ?L s'
      \<and> st_timestamp ?L s \<le> st_timestamp ?L s'"
    if "tbl_get (rt_payload (dr_tables R')) ?a = Some p" "env_from_typed_bytes E ?a (pv_typed_bytes p) = Some body" for p body
    using get_newest [OF assms(1) inv', of ?a] that k by blast
  have fetched: "reserve_get E ?a R' = Inr (Some \<lparr>cc_chunk = ch, cc_stamp = Some s\<rparr>)"
    if not_held: "\<not> reserve_contains ?a R"
  proof -
    have none: "tbl_get (rt_payload T1) ?a = None"
      using old not_held by (cases "tbl_get (rt_payload T1) ?a") (auto simp: reserve_contains_def)
    from get [OF new [OF none]] assms(6) obtain k' s' where g:
      "reserve_get E ?a R' = Inr (Some \<lparr>cc_chunk = ch, cc_stamp = Some s'\<rparr>)" "k' \<in> set (entry_keys R')"
      "ek_addr k' = ?a" "ek_stamp_hash k' = stamp_hash ?L s'" by auto
    have "tbl_get (rt_entry T1) k'' = None" if "ek_addr k'' = ?a" for k''
      using none payload_entries [OF opened, of ?a] that by (cases "tbl_get (rt_entry T1) k''") auto
    then have "k' = k" using g(2,3) mem by auto
    then have "s' = s" using g(4) k(3) assms(1) by (metis stamp_unique)
    then show ?thesis using g(1) by simp
  qed
  have held: "\<exists>body' s'. reserve_get E ?a R' = Inr (Some \<lparr>cc_chunk = body', cc_stamp = Some s'\<rparr>)
      \<and> body' \<in> {body, ch} \<and> st_timestamp ?L s \<le> st_timestamp ?L s'"
    if p: "tbl_get (rt_payload (dr_tables R)) ?a = Some p" "env_from_typed_bytes E ?a (pv_typed_bytes p) = Some body" for p body
  proof (cases "tbl_get (rt_payload T1) ?a")
    case None
    from get [OF new [OF this]] assms(6) show ?thesis by auto
  next
    case (Some p1)
    from old [OF this] p(1) obtain p' where "tbl_get (rt_payload (dr_tables R')) ?a = Some p'"
      "pv_typed_bytes p' = pv_typed_bytes p" by auto
    from get [OF this(1)] this(2) p(2) show ?thesis by auto
  qed
  show ?thesis using fetched held by blast
qed

theorem put_get_round_trip_witness:
  "reserve_get sample_env 5 sample_one = Inr (Some (sample_chunk 5 [50] sample_stamp1))"
proof -
  have inv: "reserve_inv sample_env sample_empty" unfolding sample_empty_def by (rule reserve_open_inv)
  from put_get_round_trip [OF _ inv _ sample_one_put [unfolded sample_chunk_def], of None] sample_stamps
  show ?thesis
    by (simp add: sample_chunk_def reserve_count_def reserve_contains_def sample_empty_fields tbl_count_def decide_def)
qed

text \<open>The stored body of an address is not replaced by a put while another slot's entry
  keeps it: the new entry is added with its own stamp, but the bytes a lookup decodes
  stay those stored first, also when the new chunk of that address carries others.\<close>

lemma put_keeps_stored_body:
  assumes "stamps_sound (env_postage E)" and "reserve_inv E R"
    and "reserve_put E \<lparr>cc_chunk = ch, cc_stamp = Some s\<rparr> R = (Inr (), R')"
    and "k \<in> set (entry_keys R)" and "ek_addr k = env_chunk_address E ch"
    and "ek_stamp_hash k = stamp_hash (env_postage E) s0"
    and "stamp_slot (env_postage E) s0 \<noteq> stamp_slot (env_postage E) s"
  shows "\<exists>p p'. tbl_get (rt_payload (dr_tables R)) (env_chunk_address E ch) = Some p \<and>
    tbl_get (rt_payload (dr_tables R')) (env_chunk_address E ch) = Some p' \<and> pv_typed_bytes p' = pv_typed_bytes p"
proof -
  let ?L = "env_postage E" and ?a = "env_chunk_address E ch" and ?T = "dr_tables R"
  have inv: "tables_inv E (dr_overlay R) {} ?T" using assms(2) by (simp add: reserve_inv_def)
  obtain v where v: "tbl_get (rt_entry ?T) k = Some v" using assms(4) by (auto simp: entry_keys_get)
  then obtain p where p: "tbl_get (rt_payload ?T) ?a = Some p"
    using payload_entries [OF inv, of ?a] assms(5) by (cases "tbl_get (rt_payload ?T) ?a") auto
  show ?thesis
  proof (cases "decide (tbl_get (rt_stamp_index ?T) (stamp_slot ?L s)) (incoming_of ?L s ?a)")
    case (Reject r)
    from assms(3) have "dr_tables R' = ?T"
      by (cases rule: reserve_put_cases) (use Reject in \<open>auto simp: put_tx_reject incoming_of_slot\<close>)
    then show ?thesis using p by simp
  next
    case (Admit displaced)
    obtain T1 k1 v1 where T1: "T1 = displaced_removed (\<lambda>a. env_proximity E a (dr_overlay R)) (st_batch ?L s) displaced ?T"
      and opened: "tables_inv E (dr_overlay R) {stamp_slot ?L s} T1" and k1: "ek_addr k1 = ?a"
      and T': "dr_tables R' = rows_added k1 v1 (env_chunk_type E ch) (env_to_typed_bytes E ch) (stamp_slot ?L s)
        (occupant_of ?L s (ek_addr k1)) T1"
      using reserve_put_admitted [OF assms(3) _ _ assms(1,2)] Admit by simp metis
    have "tbl_get (rt_entry T1) k = Some v"
      unfolding T1 by (rule displaced_removed_keeps [OF assms(1) inv Admit v assms(6,7)])
    then obtain p1 where p1: "tbl_get (rt_payload T1) ?a = Some p1"
      using payload_entries [OF opened, of ?a] assms(5) by (cases "tbl_get (rt_payload T1) ?a") auto
    then have "pv_typed_bytes p1 = pv_typed_bytes p" using displaced_removed_bytes p unfolding T1 by fastforce
    then show ?thesis using p p1 by (simp add: T' rows_added_payload_get k1)
  qed
qed

end
