(* ===== verification/Reserve_Control.thy ===== *)
theory Reserve_Control
  imports Db_Reserve_Props
begin

text \<open>
  The two drivers of the reserve: the radius controller of \<^verbatim>\<open>storer/src/radius.rs\<close> on the
  persisting reserve, which keeps the controller's contract, and the batch-expiry sweep of
  \<^verbatim>\<open>storer/src/expiry.rs\<close>.
\<close>

section \<open>The radius controller on the reserve\<close>

text \<open>The reserve as the controller calls it. A bin is a byte; the controller's numbers are
  bins up to the deepest one, and a number that is no byte names no bin.\<close>

definition db_reserve_ops ::
  "('st, 'se, 'b, 'c, 'ch) reserve_env \<Rightarrow> (('b, 'c) db_reserve, 'se swarm_error) reserve_ops" where
  "db_reserve_ops E = \<lparr>
     ro_count = \<lambda>R. Inr (reserve_count R),
     ro_count_in = \<lambda>R po. Inr (if po < 256 then count_in (of_nat po) R else 0),
     ro_capacity = \<lambda>R. rs_capacity (dr_reserve R),
     ro_storage_radius = \<lambda>R. unat (load_radius E R),
     ro_evict_from_bin = \<lambda>R b mx.
       if b < 256 then (case evict_from_bin E (of_nat b) mx R of (n, R') \<Rightarrow> (Inr n, R')) else (Inr 0, R),
     ro_set_storage_radius = \<lambda>R r. set_storage_radius (of_nat r) R\<rparr>"

definition db_ok :: "('st, 'se, 'b, 'c, 'ch) reserve_env \<Rightarrow> ('b, 'c) db_reserve \<Rightarrow> bool" where
  "db_ok E R \<longleftrightarrow> stamps_sound (env_postage E) \<and> reserve_inv E R"

definition db_bin_size :: "('b, 'c) db_reserve \<Rightarrow> nat \<Rightarrow> nat" where
  "db_bin_size R b = (if b < 256 then count_in (of_nat b) R else 0)"

lemma of_nat_byte_eq: "a < 256 \<Longrightarrow> b < 256 \<Longrightarrow> (of_nat a :: 8 word) = of_nat b \<longleftrightarrow> a = b"
  by (simp add: word_unat_eq_iff unat_of_nat take_bit_nat_eq_self)

lemma db_evict_size:
  assumes "db_ok E R" and "b < 256"
  shows "db_ok E (snd (evict_from_bin E (of_nat b) m R))"
    and "db_bin_size (snd (evict_from_bin E (of_nat b) m R)) b' =
      (if b' = b then db_bin_size R b' - min m (db_bin_size R b') else db_bin_size R b')"
proof -
  obtain n R' where ev: "evict_from_bin E (of_nat b) m R = (n, R')" by fastforce
  note exact = evict_from_bin_result [OF _ _ ev]
  show "db_ok E (snd (evict_from_bin E (of_nat b) m R))" using exact assms(1) by (simp add: db_ok_def ev)
  show "db_bin_size (snd (evict_from_bin E (of_nat b) m R)) b' =
      (if b' = b then db_bin_size R b' - min m (db_bin_size R b') else db_bin_size R b')"
    using exact assms by (auto simp: db_ok_def db_bin_size_def ev of_nat_byte_eq)
qed

interpretation db_controller: bin_reserve "db_reserve_ops E" "db_ok E" db_bin_size for E
proof
  fix R b m b'
  assume ok: "db_ok E R"
  show "db_ok E (snd (ro_evict_from_bin (db_reserve_ops E) R b m))"
    using ok db_evict_size(1) [OF ok, of b m] by (auto simp: db_reserve_ops_def case_prod_beta)
  show "db_bin_size (snd (ro_evict_from_bin (db_reserve_ops E) R b m)) b' \<le> db_bin_size R b'"
    using db_evict_size(2) [OF ok, of b m b'] by (auto simp: db_reserve_ops_def case_prod_beta)
  show "db_bin_size R b' \<le> db_bin_size (snd (ro_evict_from_bin (db_reserve_ops E) R b m)) b' + (if b' = b then m else 0)"
    using db_evict_size(2) [OF ok, of b m b'] by (auto simp: db_reserve_ops_def case_prod_beta)
next
  fix R n b
  show "db_ok E R \<Longrightarrow> db_ok E (ro_set_storage_radius (db_reserve_ops E) R n)"
    by (simp add: db_reserve_ops_def db_ok_def set_storage_radius_def)
  show "db_bin_size (ro_set_storage_radius (db_reserve_ops E) R n) b = db_bin_size R b"
    by (simp add: db_reserve_ops_def db_bin_size_def set_storage_radius_def count_in_def)
qed

interpretation db_total: total_reserve "db_reserve_ops E" "db_ok E" db_bin_size reserve_count "unat (env_max_po E)" for E
proof
  fix R b m
  assume ok: "db_ok E R"
  show "\<exists>n. fst (ro_evict_from_bin (db_reserve_ops E) R b m) = Inr n"
    by (simp add: db_reserve_ops_def case_prod_beta)
  show "db_bin_size (snd (ro_evict_from_bin (db_reserve_ops E) R b m)) b = db_bin_size R b - m"
    using db_evict_size(2) [OF ok, of b m b]
    by (cases "b < 256") (auto simp: db_reserve_ops_def case_prod_beta db_bin_size_def min_def)
next
  fix R n b
  show "ro_count (db_reserve_ops E) R = Inr (reserve_count R)"
    and "\<exists>n. ro_count_in (db_reserve_ops E) R b = Inr n"
    and "reserve_count (ro_set_storage_radius (db_reserve_ops E) R n) = reserve_count R"
    by (simp_all add: db_reserve_ops_def set_storage_radius_def reserve_count_def)
  show "ro_storage_radius (db_reserve_ops E) R \<le> unat (env_max_po E)"
    by (simp add: db_reserve_ops_def load_radius_def Let_def flip: word_le_nat_alt)
  show "ro_storage_radius (db_reserve_ops E) (ro_set_storage_radius (db_reserve_ops E) R n) = n"
    if "n \<le> unat (env_max_po E)"
  proof -
    have "n < 256" using that unat_byte [of "env_max_po E"] by linarith
    then have "unat (of_nat n :: 8 word) = n" by (simp add: unat_of_nat take_bit_nat_eq_self)
    then show ?thesis using that by (simp add: db_reserve_ops_def load_radius_def set_storage_radius_def word_le_nat_alt)
  qed
qed

section \<open>Expiry\<close>

definition evict_batch_max :: nat where
  "evict_batch_max = 10000"

definition expired_batches :: "(b256 \<times> nat) list \<Rightarrow> nat \<Rightarrow> b256 list" where
  "expired_batches batches total_amount = map fst (filter (\<lambda>(_, v). v \<le> total_amount) batches)"

record sweep_report =
  sw_evicted_batches :: "b256 list"
  sw_evicted_entries :: nat

text \<open>The values of the batches still in the store, in id order.\<close>

fun batch_values ::
  "('st, 'se, 'b, 'c) postage_lib \<Rightarrow> ('b, 'c) batch_db \<Rightarrow> b256 list \<Rightarrow> (b256 \<times> nat) list \<Rightarrow> (b256 \<times> nat) list" where
  "batch_values L d [] pairs = pairs"
| "batch_values L d (i # ids) pairs =
     (case batch_get d i of
        Some batch \<Rightarrow> batch_values L d ids (pairs @ [(i, bt_value L batch)])
      | None \<Rightarrow> batch_values L d ids pairs)"

fun sweep_loop ::
  "('st, 'se, 'b, 'c, 'ch) reserve_env \<Rightarrow> b256 list \<Rightarrow> sweep_report \<Rightarrow> ('b, 'c) db_reserve \<Rightarrow>
     sweep_report \<times> ('b, 'c) db_reserve" where
  "sweep_loop E [] report R = (report, R)"
| "sweep_loop E (i # ids) report R =
     (case evict_batch E i None evict_batch_max R of
        (removed, R') \<Rightarrow>
          sweep_loop E ids
            (if removed > 0
             then report\<lparr>sw_evicted_entries := u64_saturating_add (sw_evicted_entries report) removed,
                         sw_evicted_batches := sw_evicted_batches report @ [i]\<rparr>
             else report) R')"

definition sweep_run ::
  "('st, 'se, 'b, 'c, 'ch) reserve_env \<Rightarrow> ('b, 'c) batch_db \<Rightarrow> ('b, 'c) db_reserve \<Rightarrow> sweep_report \<times> ('b, 'c) db_reserve" where
  "sweep_run E d R =
     (let L = env_postage E; total_amount = cx_total_amount L (batch_context L d);
          pairs = batch_values L d (batch_ids d) [];
          expired = expired_batches pairs total_amount
      in sweep_loop E expired \<lparr>sw_evicted_batches = [], sw_evicted_entries = 0\<rparr> R)"

definition evict_expired_batch ::
  "('st, 'se, 'b, 'c, 'ch) reserve_env \<Rightarrow> b256 \<Rightarrow> ('b, 'c) db_reserve \<Rightarrow> nat \<times> ('b, 'c) db_reserve" where
  "evict_expired_batch E batch R = evict_batch E batch None evict_batch_max R"

text \<open>The acknowledgement runs on the batch store after the eviction; its failure is reported.\<close>

definition on_expired_event ::
  "('st, 'se, 'b, 'c, 'ch) reserve_env \<Rightarrow> b256 \<Rightarrow> (('b, 'c) batch_db \<Rightarrow> ('e + unit) \<times> ('b, 'c) batch_db) \<Rightarrow>
     ('b, 'c) db_reserve \<Rightarrow> ('b, 'c) batch_db \<Rightarrow> ('e + nat) \<times> ('b, 'c) db_reserve \<times> ('b, 'c) batch_db" where
  "on_expired_event E batch acknowledge R d =
     (case evict_expired_batch E batch R of
        (removed, R') \<Rightarrow>
          (case acknowledge d of
             (Inl e, d') \<Rightarrow> (Inl e, R', d')
           | (Inr _, d') \<Rightarrow> (Inr removed, R', d')))"

definition batch_size :: "b256 \<Rightarrow> ('b, 'c) db_reserve \<Rightarrow> nat" where
  "batch_size b R = card {k \<in> set (entry_keys R). ek_batch k = b}"

lemma evict_batch_size:
  assumes "db_ok E R" and "evict_batch E i None mx R = (n, R')"
  shows "db_ok E R'" and "n = min mx (batch_size i R)" and "set (entry_keys R') \<subseteq> set (entry_keys R)"
    and "b \<noteq> i \<Longrightarrow> k \<in> set (entry_keys R) \<Longrightarrow> ek_batch k = b \<Longrightarrow> k \<in> set (entry_keys R')"
    and "batch_size b R' = (if b = i then batch_size b R - mx else batch_size b R)"
proof -
  define gone where "gone = set (entry_keys R) - set (entry_keys R')"
  have ev: "n = min mx (batch_size i R)" "gone \<subseteq> {k \<in> set (entry_keys R). ek_batch k = i}" "card gone = n" "reserve_inv E R'"
    and sub: "set (entry_keys R') \<subseteq> set (entry_keys R)"
    using evict_batch_result [OF _ _ assms(2)] assms(1) by (auto simp: db_ok_def below_bound_def batch_size_def gone_def)
  show "db_ok E R'" "n = min mx (batch_size i R)" using ev assms(1) by (simp_all add: db_ok_def)
  show "set (entry_keys R') \<subseteq> set (entry_keys R)" by (rule sub)
  show keep: "k \<in> set (entry_keys R')" if "b \<noteq> i" "k \<in> set (entry_keys R)" "ek_batch k = b" for b k
    using that ev(2) by (auto simp: gone_def)
  show "batch_size b R' = (if b = i then batch_size b R - mx else batch_size b R)"
  proof (cases "b = i")
    case False
    then have "{k \<in> set (entry_keys R'). ek_batch k = b} = {k \<in> set (entry_keys R). ek_batch k = b}"
      using keep sub by auto
    then show ?thesis using False by (simp add: batch_size_def)
  next
    case True
    have "{k \<in> set (entry_keys R'). ek_batch k = i} = {k \<in> set (entry_keys R). ek_batch k = i} - gone"
      using sub by (auto simp: gone_def)
    then have "batch_size i R' = batch_size i R - card gone" using ev(2) by (simp add: batch_size_def card_Diff_subset finite_subset)
    then show ?thesis using True ev(1,3) by simp
  qed
qed

lemma sweep_loop_result:
  assumes "db_ok E R" and "distinct ids" and "sweep_loop E ids report R = (report', R')"
  shows "db_ok E R' \<and> set (entry_keys R') \<subseteq> set (entry_keys R) \<and>
    (\<forall>k \<in> set (entry_keys R). ek_batch k \<notin> set ids \<longrightarrow> k \<in> set (entry_keys R')) \<and>
    (\<forall>b. batch_size b R' = (if b \<in> set ids then batch_size b R - evict_batch_max else batch_size b R))"
  using assms
proof (induction ids arbitrary: report R)
  case (Cons i ids)
  obtain n R1 where ev: "evict_batch E i None evict_batch_max R = (n, R1)" by fastforce
  note step = evict_batch_size [OF Cons.prems(1) ev]
  obtain report1 where rest: "sweep_loop E ids report1 R1 = (report', R')" using Cons.prems(3) ev by simp
  have "distinct ids" "i \<notin> set ids" using Cons.prems(2) by simp_all
  note ih = Cons.IH [OF step(1) \<open>distinct ids\<close> rest]
  have "set (entry_keys R') \<subseteq> set (entry_keys R)" using ih step(3) by blast
  moreover have "k \<in> set (entry_keys R')" if "k \<in> set (entry_keys R)" "ek_batch k \<notin> set (i # ids)" for k
  proof -
    have "k \<in> set (entry_keys R1)" using step(4) [of "ek_batch k" k] that by simp
    then show ?thesis using ih that by simp
  qed
  moreover have "batch_size b R' = (if b \<in> set (i # ids) then batch_size b R - evict_batch_max else batch_size b R)" for b
    using ih step(5) [of b] \<open>i \<notin> set ids\<close> by auto
  ultimately show ?case using ih by blast
qed simp

lemma batch_values_map:
  "batch_values L d ids pairs =
     pairs @ map (\<lambda>i. (i, bt_value L (the (batch_get d i)))) (filter (\<lambda>i. batch_get d i \<noteq> None) ids)"
  by (induction L d ids pairs rule: batch_values.induct) (auto split: option.splits)

lemma expired_ids:
  assumes "tbl_wf (bd_batches d)"
  shows "distinct (expired_batches (batch_values L d (batch_ids d) []) t)"
    and "i \<in> set (expired_batches (batch_values L d (batch_ids d) []) t) \<longleftrightarrow>
      (\<exists>b. batch_get d i = Some b \<and> bt_value L b \<le> t)"
proof -
  have ids: "distinct (batch_ids d)" "set (batch_ids d) = dom (batch_get d)"
    using batch_ids_sorted [OF assms] by (auto simp: strict_sorted_iff)
  have "expired_batches (batch_values L d (batch_ids d) []) t =
      filter (\<lambda>i. batch_get d i \<noteq> None \<and> bt_value L (the (batch_get d i)) \<le> t) (batch_ids d)"
    by (simp add: expired_batches_def batch_values_map filter_map comp_def case_prod_beta filter_filter conj_commute)
  then show "distinct (expired_batches (batch_values L d (batch_ids d) []) t)"
    and "i \<in> set (expired_batches (batch_values L d (batch_ids d) []) t) \<longleftrightarrow>
      (\<exists>b. batch_get d i = Some b \<and> bt_value L b \<le> t)"
    using ids by auto
qed

section \<open>Properties\<close>

text \<open>A bin shallower than the radius the controller starts from is not shed: what an earlier
  tick left of it stays.\<close>

lemma controller_keeps_shallow_bins:
  assumes "stamps_sound (env_postage E)" and "reserve_inv E R"
    and "radius_apply (db_reserve_ops E) max_po minimum R idle = (res, R')" and "b < load_radius E R"
  shows "count_in b R' = count_in b R \<and> reserve_inv E R'"
proof -
  have ok: "db_ok E R" using assms(1,2) by (simp add: db_ok_def)
  have "unat b < ro_storage_radius (db_reserve_ops E) R"
    using assms(4) by (simp add: db_reserve_ops_def word_less_nat_alt)
  from db_controller.apply_keeps_shallow [OF assms(3) ok this] db_controller.apply_ok [OF assms(3) ok] show ?thesis
    using unat_byte [of b] by (simp add: db_bin_size_def db_ok_def)
qed

text \<open>C8. A tick of the radius controller on the persisting reserve ends with a radius and
  stores it, keeps the reserve consistent and sheds no bin at or inside that radius. Each
  bin from the former radius up to it loses its entries up to the maximum per call. Over
  capacity the tick ends within capacity or at the deepest bin; within capacity it evicts
  nothing and does not narrow the radius.\<close>

theorem controller_tick_exact:
  assumes "stamps_sound (env_postage E)" and "reserve_inv E R"
    and "radius_apply (db_reserve_ops E) (unat (env_max_po E)) minimum R idle = (res, R')"
  shows "\<exists>k. res = Inr k \<and> unat (load_radius E R') = k \<and> reserve_inv E R'
    \<and> (\<forall>b. k \<le> unat b \<longrightarrow> count_in b R' = count_in b R)
    \<and> (\<forall>b. load_radius E R \<le> b \<longrightarrow> unat b < k \<longrightarrow> count_in b R' = count_in b R - bin_evict_max)
    \<and> (rs_capacity (dr_reserve R) < reserve_count R \<longrightarrow>
        reserve_count R' \<le> rs_capacity (dr_reserve R) \<or> k = unat (env_max_po E))
    \<and> (reserve_count R \<le> rs_capacity (dr_reserve R) \<longrightarrow>
        reserve_count R' = reserve_count R \<and> k \<le> unat (load_radius E R))"
proof -
  have ok: "db_ok E R" using assms(1,2) by (simp add: db_ok_def)
  have size: "db_bin_size X (unat b) = count_in b X" for X b using unat_byte [of b] by (simp add: db_bin_size_def)
  obtain k where k: "res = Inr k" "unat (load_radius E R') = k" "db_ok E R'"
    "\<And>b. k \<le> b \<Longrightarrow> db_bin_size R' b = db_bin_size R b"
    "\<And>b. unat (load_radius E R) \<le> b \<Longrightarrow> b < k \<Longrightarrow> db_bin_size R' b = db_bin_size R b - bin_evict_max"
    "rs_capacity (dr_reserve R) < reserve_count R \<Longrightarrow>
      reserve_count R' \<le> rs_capacity (dr_reserve R) \<or> k = unat (env_max_po E)"
    "reserve_count R \<le> rs_capacity (dr_reserve R) \<Longrightarrow>
      reserve_count R' = reserve_count R \<and> k \<le> unat (load_radius E R)"
    by (rule db_total.tick_exact [OF assms(3) ok]) (simp add: db_reserve_ops_def that)
  show ?thesis
    using k(1-3,6,7) k(4) [of "unat b" for b] k(5) [of "unat b" for b]
    by (intro exI [of _ k]) (auto simp: db_ok_def word_le_nat_alt simp flip: size)
qed

theorem controller_tick_exact_witness:
  "\<exists>k R'. radius_apply (db_reserve_ops sample_env) (unat (env_max_po sample_env)) 0 (sample_reserve\<lparr>dr_radius := 7\<rparr>) False = (Inr k, R')
    \<and> unat (load_radius sample_env R') = k \<and> count_in 31 R' = count_in 31 (sample_reserve\<lparr>dr_radius := 7\<rparr>)"
proof (cases "radius_apply (db_reserve_ops sample_env) (unat (env_max_po sample_env)) 0 (sample_reserve\<lparr>dr_radius := 7\<rparr>) False")
  case (Pair res R')
  have inv: "reserve_inv sample_env (sample_reserve\<lparr>dr_radius := 7\<rparr>)" using sample_inv by simp
  have "unat (load_radius sample_env R') \<le> 31"
    by (simp add: load_radius_def sample_env_def word_le_nat_alt Let_def)
  with controller_tick_exact [OF _ inv Pair] sample_stamps Pair show ?thesis by auto
qed

text \<open>C15. The expiry sweep evicts exactly from the value-expired batches of the store: an
  entry that goes is of a known batch whose value the payout has reached, every other
  entry stays, and each expired batch loses all its entries up to the maximum per sweep.\<close>

theorem sweep_evicts_expired:
  assumes "stamps_sound (env_postage E)" and "reserve_inv E R" and "tbl_wf (bd_batches d)"
    and "sweep_run E d R = (report, R')"
  defines "expired \<equiv> \<lambda>i. \<exists>b. batch_get d i = Some b \<and>
      bt_value (env_postage E) b \<le> cx_total_amount (env_postage E) (batch_context (env_postage E) d)"
  shows "reserve_inv E R' \<and> set (entry_keys R') \<subseteq> set (entry_keys R) \<and>
    (\<forall>k. k \<in> set (entry_keys R) \<and> k \<notin> set (entry_keys R') \<longrightarrow> expired (ek_batch k)) \<and>
    (\<forall>i. batch_size i R' = (if expired i then batch_size i R - evict_batch_max else batch_size i R))"
proof -
  let ?ids = "expired_batches (batch_values (env_postage E) d (batch_ids d) [])
    (cx_total_amount (env_postage E) (batch_context (env_postage E) d))"
  have ok: "db_ok E R" using assms(1,2) by (simp add: db_ok_def)
  have loop: "sweep_loop E ?ids \<lparr>sw_evicted_batches = [], sw_evicted_entries = 0\<rparr> R = (report, R')"
    using assms(4) by (simp add: sweep_run_def Let_def)
  have ids: "i \<in> set ?ids \<longleftrightarrow> expired i" for i unfolding expired_def by (rule expired_ids(2) [OF assms(3)])
  from sweep_loop_result [OF ok expired_ids(1) [OF assms(3)] loop] show ?thesis
    unfolding ids by (auto simp: db_ok_def)
qed

theorem sweep_evicts_expired_witness:
  "batch_size 2 (snd (sweep_run sample_env \<lparr>bd_batches = [(2, (2, 0, 20))], bd_context = []\<rparr> sample_reserve)) = 0 \<and>
   batch_size 1 (snd (sweep_run sample_env \<lparr>bd_batches = [(2, (2, 0, 20))], bd_context = []\<rparr> sample_reserve)) = 1"
proof (cases "sweep_run sample_env \<lparr>bd_batches = [(2, (2, 0, 20))], bd_context = []\<rparr> sample_reserve")
  case (Pair report R')
  have one: "{k. (k = EntryKey 5 1 sample_stamp1 5 \<or> k = EntryKey 9 2 sample_stamp2 9) \<and> ek_batch k = 1} = {EntryKey 5 1 sample_stamp1 5}"
    "{k. (k = EntryKey 5 1 sample_stamp1 5 \<or> k = EntryKey 9 2 sample_stamp2 9) \<and> ek_batch k = 2} = {EntryKey 9 2 sample_stamp2 9}"
    by auto
  from sweep_evicts_expired [OF _ sample_inv _ Pair] sample_stamps Pair show ?thesis
    by (simp add: batch_get_def tbl_get_def tbl_wf_Cons batch_context_def batch_size_def sample_reserve_fields one evict_batch_max_def)
      (simp add: sample_lib_def)
qed

text \<open>Handling an expiry event drops the batch from the store after one eviction of at
  most \<^verbatim>\<open>EVICT_BATCH_MAX\<close> entries: every entry of the batch beyond that stays in the
  reserve, and no later sweep of that store removes it, since a sweep only sees batches
  the store still holds.\<close>

lemma expired_event_leaves_remainder:
  assumes "stamps_sound (env_postage E)" and "reserve_inv E R" and "tbl_wf (bd_batches d)"
    and "on_expired_event E b (\<lambda>d. (Inr () :: unit + unit, snd (acknowledge_expired b d))) R d = (Inr n, R', d')"
    and "sweep_run E d' R' = (report, R'')"
  shows "batch_get d' b = None \<and> n = min evict_batch_max (batch_size b R) \<and>
    batch_size b R' = batch_size b R - evict_batch_max \<and> batch_size b R'' = batch_size b R'"
proof -
  have ok: "db_ok E R" using assms(1,2) by (simp add: db_ok_def)
  obtain n1 R1 where ev: "evict_batch E b None evict_batch_max R = (n1, R1)" by fastforce
  have out: "n = n1" "R' = R1" "d' = snd (acknowledge_expired b d)"
    using assms(4) ev by (simp_all add: on_expired_event_def evict_expired_batch_def)
  have gone: "batch_get d' b = None" "tbl_wf (bd_batches d')"
    using assms(3) by (simp_all add: out(3) acknowledge_expired_def batch_remove_def batch_get_def)
  note sizes = evict_batch_size [OF ok ev, folded out(1,2)]
  let ?ids = "expired_batches (batch_values (env_postage E) d' (batch_ids d') [])
    (cx_total_amount (env_postage E) (batch_context (env_postage E) d'))"
  have unseen: "b \<notin> set ?ids" by (simp add: expired_ids(2) [OF gone(2)] gone(1))
  have "sweep_loop E ?ids \<lparr>sw_evicted_batches = [], sw_evicted_entries = 0\<rparr> R' = (report, R'')"
    using assms(5) by (simp add: sweep_run_def Let_def)
  from sweep_loop_result [OF sizes(1) expired_ids(1) [OF gone(2)] this] unseen
  have "batch_size b R'' = batch_size b R'" by simp
  then show ?thesis using sizes(2) sizes(5) [of b] gone(1) by simp
qed

end
