(* ===== verification/Interval_Store.thy ===== *)
theory Interval_Store
  imports Ordered_Table Reserve_Schema
begin

text \<open>
  The pull-sync resume points, \<^verbatim>\<open>storer/src/db_intervals.rs\<close>: a table of the last synced
  sequence per peer and bin and a table of the reserve epoch last seen per peer.
\<close>

record interval_db =
  id_interval :: "(peer_bin_key, nat) tbl"
  id_peer_epoch :: "(b256, nat) tbl"

definition interval :: "b256 \<Rightarrow> 8 word \<Rightarrow> interval_db \<Rightarrow> nat" where
  "interval peer bin d = (case tbl_get (id_interval d) (PeerBinKey peer bin) of Some n \<Rightarrow> n | None \<Rightarrow> 0)"

definition set_interval :: "b256 \<Rightarrow> 8 word \<Rightarrow> nat \<Rightarrow> interval_db \<Rightarrow> interval_db" where
  "set_interval peer bin binid d = d\<lparr>id_interval := tbl_put (PeerBinKey peer bin) binid (id_interval d)\<rparr>"

definition peer_epoch :: "b256 \<Rightarrow> interval_db \<Rightarrow> nat option" where
  "peer_epoch peer d = tbl_get (id_peer_epoch d) peer"

definition set_peer_epoch :: "b256 \<Rightarrow> nat \<Rightarrow> interval_db \<Rightarrow> interval_db" where
  "set_peer_epoch peer epoch d = d\<lparr>id_peer_epoch := tbl_put peer epoch (id_peer_epoch d)\<rparr>"

text \<open>The range \<^verbatim>\<open>0u8..=u8::MAX\<close> of the clearing loop.\<close>

definition every_bin :: "8 word list" where
  "every_bin = map of_nat [0..<256]"

definition reset_peer :: "b256 \<Rightarrow> nat \<Rightarrow> interval_db \<Rightarrow> interval_db" where
  "reset_peer peer epoch d =
     d\<lparr>id_interval := fold (\<lambda>bin t. tbl_delete (PeerBinKey peer bin) t) every_bin (id_interval d),
       id_peer_epoch := tbl_put peer epoch (id_peer_epoch d)\<rparr>"

lemma every_bin_complete: "b \<in> set every_bin"
proof -
  have "unat b < 256" by (rule unat_byte)
  then have "unat b \<in> set [0..<256]" by simp
  then have "of_nat (unat b) \<in> set every_bin" unfolding every_bin_def set_map by (rule imageI)
  then show ?thesis by simp
qed

lemma reset_peer_rows:
  "tbl_get (id_interval (reset_peer peer epoch d)) k = (if pb_peer k = peer then None else tbl_get (id_interval d) k)"
proof -
  have "fold (\<lambda>bin t. tbl_delete (PeerBinKey peer bin) t) bs t = fold tbl_delete (map (PeerBinKey peer) bs) t"
    for bs and t :: "(peer_bin_key, nat) tbl"
    by (induction bs arbitrary: t) auto
  moreover have "k \<in> set (map (PeerBinKey peer) every_bin) \<longleftrightarrow> pb_peer k = peer"
    by (cases k) (auto simp: every_bin_complete)
  ultimately show ?thesis by (simp add: reset_peer_def table.get_delete_all del: set_map)
qed

section \<open>Properties\<close>

text \<open>Resetting a peer is exact: every interval of that peer reads zero and its epoch is
  the new one, whatever was stored, while every interval and epoch of every other peer
  is untouched, including peers whose keys are next to it.\<close>

lemma reset_peer_exact:
  "interval q b (reset_peer p e d) = (if q = p then 0 else interval q b d) \<and>
   peer_epoch q (reset_peer p e d) = (if q = p then Some e else peer_epoch q d)"
  by (simp add: interval_def peer_epoch_def reset_peer_rows) (simp add: reset_peer_def)

text \<open>A stored interval or epoch is read back, and no other interval or epoch changes.\<close>

lemma interval_round_trip:
  "interval q b (set_interval p b' n d) = (if q = p \<and> b = b' then n else interval q b d) \<and>
   peer_epoch q (set_interval p b' n d) = peer_epoch q d \<and>
   peer_epoch q (set_peer_epoch p e d) = (if q = p then Some e else peer_epoch q d) \<and>
   interval q b (set_peer_epoch p e d) = interval q b d"
  by (simp add: interval_def set_interval_def peer_epoch_def set_peer_epoch_def)

end
