(* ===== verification/Rate_Limiter.thy ===== *)
theory Rate_Limiter
  imports Vertex_Prelude "HOL-Library.Finite_Map"
begin

text \<open>
  The token buckets of \<^verbatim>\<open>crates/net/ratelimiter/src/lib.rs\<close>. A duration is its number of
  nanoseconds and an instant a reading of the clock; an operation that reads the clock
  takes the reading as an argument. A hash map is a finite map.

  The locale \<open>gcra_bucket\<close> is what a single bucket and one key of the keyed limiter have
  in common; its lemmas bound what a run of charges can be granted.
\<close>

section \<open>Quota and cell\<close>

datatype rate_limited_err = TooLarge | TooSoon nat

record quota =
  max_tokens :: nat
  replenish_all_every :: nat

definition n_every :: "nat \<Rightarrow> nat \<Rightarrow> quota" where
  "n_every n d = \<lparr>max_tokens = n, replenish_all_every = d\<rparr>"

definition one_every :: "nat \<Rightarrow> quota" where
  "one_every seconds = \<lparr>max_tokens = 1, replenish_all_every = seconds * 1000000000\<rparr>"

record cell =
  tau_nanos :: nat
  t_nanos :: nat

definition cell_from_quota :: "quota \<Rightarrow> cell" where
  "cell_from_quota q =
     (let tau = replenish_all_every q;
          t = tau div max_tokens q
      in \<lparr>tau_nanos = (if tau \<le> u64_max then tau else u64_max),
          t_nanos = (if t \<le> u64_max then t else u64_max)\<rparr>)"

definition elapsed_nanos :: "nat \<Rightarrow> nat \<Rightarrow> nat" where
  "elapsed_nanos init clock = min (clock - init) u64_max"

definition gcra_check :: "cell \<Rightarrow> nat \<Rightarrow> nat \<Rightarrow> nat \<Rightarrow> rate_limited_err + nat" where
  "gcra_check c tat now n =
     (let cost = u64_saturating_mul (t_nanos c) n
      in if tau_nanos c < cost then Inl TooLarge
         else let earliest_admit = u64_saturating_add tat cost - tau_nanos c
              in if now < earliest_admit then Inl (TooSoon (earliest_admit - now))
                 else Inr (u64_saturating_add (max now tat) cost))"

section \<open>A single bucket\<close>

record rate_limiter =
  rl_cell :: cell
  rl_init :: nat
  rl_tat_nanos :: nat

definition rate_limiter_new :: "nat \<Rightarrow> quota \<Rightarrow> rate_limiter" where
  "rate_limiter_new clock q =
     \<lparr>rl_cell = cell_from_quota q, rl_init = clock, rl_tat_nanos = 0\<rparr>"

definition try_consume_n ::
  "nat \<Rightarrow> nat \<Rightarrow> rate_limiter \<Rightarrow> (rate_limited_err + unit) \<times> rate_limiter" where
  "try_consume_n clock n rl =
     (let now = elapsed_nanos (rl_init rl) clock
      in case gcra_check (rl_cell rl) (rl_tat_nanos rl) now n of
           Inr new_tat \<Rightarrow> (Inr (), rl\<lparr>rl_tat_nanos := new_tat\<rparr>)
         | Inl e \<Rightarrow> (Inl e, rl))"

definition try_consume :: "nat \<Rightarrow> rate_limiter \<Rightarrow> (rate_limited_err + unit) \<times> rate_limiter" where
  "try_consume clock rl = try_consume_n clock 1 rl"

section \<open>A bucket per key\<close>

record key_state =
  ks_tat_nanos :: nat
  ks_cell :: cell

record 'k keyed_rate_limiter =
  krl_cell :: cell
  krl_init :: nat
  krl_state_per_key :: "('k, key_state) fmap"

definition keyed_new :: "nat \<Rightarrow> quota \<Rightarrow> 'k keyed_rate_limiter" where
  "keyed_new clock q =
     \<lparr>krl_cell = cell_from_quota q, krl_init = clock, krl_state_per_key = fmempty\<rparr>"

definition keyed_try_consume_n ::
  "nat \<Rightarrow> 'k \<Rightarrow> nat \<Rightarrow> 'k keyed_rate_limiter \<Rightarrow> (rate_limited_err + unit) \<times> 'k keyed_rate_limiter" where
  "keyed_try_consume_n clock key n rl =
     (let now = elapsed_nanos (krl_init rl) clock;
          guard = krl_state_per_key rl;
          state = (case fmlookup guard key of
                     Some s \<Rightarrow> s
                   | None \<Rightarrow> \<lparr>ks_tat_nanos = 0, ks_cell = krl_cell rl\<rparr>)
      in case gcra_check (ks_cell state) (ks_tat_nanos state) now n of
           Inr new_tat \<Rightarrow>
             (Inr (), rl\<lparr>krl_state_per_key := fmupd key (state\<lparr>ks_tat_nanos := new_tat\<rparr>) guard\<rparr>)
         | Inl e \<Rightarrow> (Inl e, rl\<lparr>krl_state_per_key := fmupd key state guard\<rparr>))"

definition keyed_try_consume ::
  "nat \<Rightarrow> 'k \<Rightarrow> 'k keyed_rate_limiter \<Rightarrow> (rate_limited_err + unit) \<times> 'k keyed_rate_limiter" where
  "keyed_try_consume clock key rl = keyed_try_consume_n clock key 1 rl"

definition try_peek ::
  "nat \<Rightarrow> 'k \<Rightarrow> nat \<Rightarrow> 'k keyed_rate_limiter \<Rightarrow> rate_limited_err + unit" where
  "try_peek clock key n rl =
     (let now = elapsed_nanos (krl_init rl) clock;
          (c, tat) = (case fmlookup (krl_state_per_key rl) key of
                        Some state \<Rightarrow> (ks_cell state, ks_tat_nanos state)
                      | None \<Rightarrow> (krl_cell rl, 0))
      in case gcra_check c tat now n of Inr _ \<Rightarrow> Inr () | Inl e \<Rightarrow> Inl e)"

definition set_key_quota ::
  "nat \<Rightarrow> 'k \<Rightarrow> quota \<Rightarrow> 'k keyed_rate_limiter \<Rightarrow> 'k keyed_rate_limiter" where
  "set_key_quota clock key q rl =
     (let now = elapsed_nanos (krl_init rl) clock;
          new_cell = cell_from_quota q;
          guard = krl_state_per_key rl
      in case fmlookup guard key of
           Some state \<Rightarrow>
             (if tau_nanos (ks_cell state) = tau_nanos new_cell \<and>
                 t_nanos (ks_cell state) = t_nanos new_cell then rl
              else
                let ceiling = u64_saturating_add now (tau_nanos new_cell);
                    state' = state\<lparr>ks_cell := new_cell, ks_tat_nanos := min (ks_tat_nanos state) ceiling\<rparr>
                in rl\<lparr>krl_state_per_key := fmupd key state' guard\<rparr>)
         | None \<Rightarrow>
             rl\<lparr>krl_state_per_key := fmupd key \<lparr>ks_tat_nanos = 0, ks_cell = new_cell\<rparr> guard\<rparr>)"

definition keyed_replenish_all_every :: "'k keyed_rate_limiter \<Rightarrow> nat" where
  "keyed_replenish_all_every rl = tau_nanos (krl_cell rl)"

definition replenish_all_every_for :: "'k \<Rightarrow> 'k keyed_rate_limiter \<Rightarrow> nat" where
  "replenish_all_every_for key rl =
     (case fmlookup (krl_state_per_key rl) key of
        Some state \<Rightarrow> tau_nanos (ks_cell state)
      | None \<Rightarrow> tau_nanos (krl_cell rl))"

definition keyed_clear :: "'k \<Rightarrow> 'k keyed_rate_limiter \<Rightarrow> 'k keyed_rate_limiter" where
  "keyed_clear key rl = rl\<lparr>krl_state_per_key := fmdrop key (krl_state_per_key rl)\<rparr>"

definition retain_recent :: "nat \<Rightarrow> 'k keyed_rate_limiter \<Rightarrow> 'k keyed_rate_limiter" where
  "retain_recent clock rl =
     (let now = elapsed_nanos (krl_init rl) clock
      in rl\<lparr>krl_state_per_key :=
             fmfilter (\<lambda>key. case fmlookup (krl_state_per_key rl) key of
                                Some state \<Rightarrow> now < ks_tat_nanos state
                              | None \<Rightarrow> False)
               (krl_state_per_key rl)\<rparr>)"

definition tracked_keys :: "'k keyed_rate_limiter \<Rightarrow> nat" where
  "tracked_keys rl = fcard (fmdom (krl_state_per_key rl))"

section \<open>One check\<close>

lemma gcra_check_refusal_exact:
  assumes "gcra_check c tat now n = Inl (TooSoon d)"
  shows "0 < d" and "\<And>later. now \<le> later \<Longrightarrow>
           (\<exists>tat'. gcra_check c tat later n = Inr tat') \<longleftrightarrow> now + d \<le> later"
  using assms by (auto simp: gcra_check_def Let_def split: if_splits)

lemma gcra_check_too_large:
  "gcra_check c tat now n = Inl TooLarge \<longleftrightarrow> tau_nanos c < u64_saturating_mul (t_nanos c) n"
  by (auto simp: gcra_check_def Let_def)

lemma gcra_check_full:
  "tat \<le> now \<Longrightarrow> u64_saturating_mul (t_nanos c) n \<le> tau_nanos c \<Longrightarrow>
   gcra_check c tat now n = Inr (u64_saturating_add now (u64_saturating_mul (t_nanos c) n))"
  by (auto simp: gcra_check_def Let_def u64_saturating_add_def max_absorb1)

text \<open>A bucket that is full answers like a fresh one.\<close>

lemma gcra_check_past_tat: "tat \<le> now \<Longrightarrow> gcra_check c tat now n = gcra_check c 0 now n"
  by (auto simp: gcra_check_def Let_def u64_saturating_add_def max_absorb1)

lemma gcra_check_granted:
  assumes "gcra_check c tat now n = Inr tat'" and "now + tau_nanos c < u64_max"
  shows "max now tat + t_nanos c * n = tat'" and "tat' \<le> now + tau_nanos c"
  using assms
  by (auto simp: gcra_check_def Let_def u64_saturating_add_def u64_saturating_mul_def
           split: if_splits)


section \<open>Runs of charges\<close>

text \<open>
  The contract of one bucket seen through the events of a limiter: an event at its time
  either charges tokens as \<^const>\<open>gcra_check\<close> allows, or leaves the bucket with the same
  arrival time, counted from that moment on.
\<close>

locale gcra_bucket =
  fixes fire :: "nat \<Rightarrow> 'e \<Rightarrow> 's \<Rightarrow> nat \<times> 's"
    and allowed :: "'e \<Rightarrow> bool"
    and ok :: "'s \<Rightarrow> bool"
    and tat_of :: "'s \<Rightarrow> nat"
    and now_of :: "nat \<Rightarrow> nat"
    and bucket_cell :: cell
  assumes now_mono: "a \<le> b \<Longrightarrow> now_of a \<le> now_of b"
    and fire_ok: "ok s \<Longrightarrow> allowed e \<Longrightarrow> fire clock e s = (g, s') \<Longrightarrow> ok s'"
    and fire_check: "ok s \<Longrightarrow> allowed e \<Longrightarrow> fire clock e s = (g, s') \<Longrightarrow>
      gcra_check bucket_cell (tat_of s) (now_of clock) g = Inr (tat_of s') \<or>
      g = 0 \<and> max (now_of clock) (tat_of s') = max (now_of clock) (tat_of s)"

text \<open>The tokens granted over a run of timed events.\<close>

fun granted :: "(nat \<Rightarrow> 'e \<Rightarrow> 's \<Rightarrow> nat \<times> 's) \<Rightarrow> (nat \<times> 'e) list \<Rightarrow> 's \<Rightarrow> nat" where
  "granted fire [] s = 0"
| "granted fire ((clock, e) # es) s = (case fire clock e s of (g, s') \<Rightarrow> g + granted fire es s')"

text \<open>The events of a run come in order, between two times, and satisfy a condition.\<close>

definition timed_within :: "nat \<Rightarrow> nat \<Rightarrow> ('e \<Rightarrow> bool) \<Rightarrow> (nat \<times> 'e) list \<Rightarrow> bool" where
  "timed_within a b P es \<longleftrightarrow>
     sorted (map fst es) \<and> list_all (\<lambda>(c, e). a \<le> c \<and> c \<le> b \<and> P e) es"

lemma timed_within_Cons:
  "timed_within a b P ((c, e) # es) \<longleftrightarrow> a \<le> c \<and> c \<le> b \<and> P e \<and> timed_within a b P es \<and> timed_within c b P es"
  by (auto simp: timed_within_def list_all_iff)

context gcra_bucket
begin

lemma granted_bounded:
  assumes "ok s" and "timed_within a b allowed es"
    and "now_of b + tau_nanos bucket_cell < u64_max"
  shows "t_nanos bucket_cell * granted fire es s
           \<le> now_of b + tau_nanos bucket_cell - max (now_of a) (tat_of s)"
  using assms
proof (induction es arbitrary: a s)
  case Nil
  then show ?case by simp
next
  case (Cons ev es)
  obtain c e where ev: "ev = (c, e)" by force
  obtain g s' where step: "fire c e s = (g, s')" by force
  have c: "a \<le> c" "c \<le> b" "allowed e" using Cons.prems(2) ev by (auto simp: timed_within_Cons)
  have le: "now_of a \<le> now_of c" "now_of c \<le> now_of b" using c now_mono by auto
  have IH: "t_nanos bucket_cell * granted fire es s'
              \<le> now_of b + tau_nanos bucket_cell - max (now_of c) (tat_of s')"
    using Cons.prems ev
    by (intro Cons.IH) (auto simp: timed_within_Cons intro: fire_ok [OF _ c(3) step])
  show ?case
  proof (cases "gcra_check bucket_cell (tat_of s) (now_of c) g = Inr (tat_of s')")
    case True
    have "now_of c + tau_nanos bucket_cell < u64_max" using le Cons.prems(3) by linarith
    from gcra_check_granted [OF True this]
    have "max (now_of c) (tat_of s) + t_nanos bucket_cell * g = tat_of s'"
      and "tat_of s' \<le> now_of b + tau_nanos bucket_cell" using le by auto
    then show ?thesis using IH le by (simp add: ev step algebra_simps)
  next
    case False
    then have "g = 0" and "max (now_of c) (tat_of s') = max (now_of c) (tat_of s)"
      using fire_check [OF Cons.prems(1) c(3) step] by auto
    then show ?thesis using IH le by (simp add: ev step)
  qed
qed

lemma granted_in_window:
  assumes "ok s" and "timed_within a b allowed es"
    and "now_of b + tau_nanos bucket_cell < u64_max"
  shows "t_nanos bucket_cell * granted fire es s \<le> tau_nanos bucket_cell + (now_of b - now_of a)"
  using granted_bounded [OF assms] by linarith

end

text \<open>What a window may still grant, as a function of its start and of the arrival time.\<close>

definition window_rest :: "nat \<Rightarrow> nat \<Rightarrow> nat \<Rightarrow> nat \<Rightarrow> nat" where
  "window_rest tau b a tat = b + tau - max a (min tat (a + tau))"

lemma window_rest_reset: "a \<le> c \<Longrightarrow> window_rest tau b c tat' \<le> tau + window_rest tau b a tat"
  using max.cobounded1 [of c "min tat' (c + tau)"] max.bounded_iff [of a "min tat (a + tau)" "a + tau"]
  unfolding window_rest_def by simp

lemma window_rest_idle:
  "a \<le> c \<Longrightarrow> max c tat' = max c tat \<Longrightarrow> window_rest tau b c tat' \<le> window_rest tau b a tat"
  unfolding window_rest_def max_def min_def by (auto split: if_splits)

lemma window_rest_charge:
  assumes "a \<le> c" "c \<le> b" "max c tat + g = tat'" "tat' \<le> c + tau"
  shows "g + window_rest tau b c tat' \<le> window_rest tau b a tat"
proof -
  have "max c (min tat' (c + tau)) = tat'"
    using assms(3,4) max.cobounded1 [of c tat] by (simp add: max_absorb2 min_absorb1)
  moreover have "max a (min tat (a + tau)) \<le> max c tat"
    using assms(1) by (auto simp: le_max_iff_disj min_le_iff_disj)
  moreover have "g + (b + tau - tat') \<le> b + tau - x" if "x \<le> max c tat" for x
    using that assms(2-4) by linarith
  ultimately show ?thesis unfolding window_rest_def by simp
qed

text \<open>A bucket that some events empty of its history: each of them allows one more burst.\<close>

locale gcra_reset_bucket = gcra_bucket +
  fixes resets :: "'a \<Rightarrow> bool"
  assumes fire_reset: "ok s \<Longrightarrow> resets e \<Longrightarrow> fire clock e s = (g, s') \<Longrightarrow> g = 0 \<and> ok s'"
begin

lemma granted_with_resets_bounded:
  assumes "ok s" and "timed_within a b (\<lambda>e. allowed e \<or> resets e) es"
    and "now_of b + tau_nanos bucket_cell < u64_max"
  shows "t_nanos bucket_cell * granted fire es s
           \<le> length (filter (resets \<circ> snd) es) * tau_nanos bucket_cell +
              window_rest (tau_nanos bucket_cell) (now_of b) (now_of a) (tat_of s)"
  using assms
proof (induction es arbitrary: a s)
  case (Cons ev es)
  let ?tau = "tau_nanos bucket_cell" and ?n = "length (filter (resets \<circ> snd) es)"
  obtain c e where ev: "ev = (c, e)" by force
  obtain g s' where step: "fire c e s = (g, s')" by force
  have c: "a \<le> c" "c \<le> b" "allowed e \<or> resets e" using Cons.prems(2) ev by (auto simp: timed_within_Cons)
  have le: "now_of a \<le> now_of c" "now_of c \<le> now_of b" using c now_mono by auto
  have "ok s'" using c(3) fire_ok [OF Cons.prems(1) _ step] fire_reset [OF Cons.prems(1) _ step] by blast
  then have IH: "t_nanos bucket_cell * granted fire es s'
      \<le> ?n * ?tau + window_rest ?tau (now_of b) (now_of c) (tat_of s')"
    using Cons.prems ev by (intro Cons.IH) (auto simp: timed_within_Cons)
  have len: "length (filter (resets \<circ> snd) (ev # es)) * ?tau = (if resets e then ?tau else 0) + ?n * ?tau"
    by (simp add: ev)
  have run: "t_nanos bucket_cell * granted fire (ev # es) s
      = t_nanos bucket_cell * g + t_nanos bucket_cell * granted fire es s'"
    by (simp add: ev step algebra_simps)
  show ?case
  proof (cases "resets e")
    case True
    then have "g = 0" using fire_reset [OF Cons.prems(1) _ step] by blast
    then show ?thesis
      using IH window_rest_reset [OF le(1), of ?tau "now_of b" "tat_of s'" "tat_of s"] True
      unfolding len run by simp
  next
    case False
    then have ok: "allowed e" using c(3) by blast
    show ?thesis
    proof (cases "gcra_check bucket_cell (tat_of s) (now_of c) g = Inr (tat_of s')")
      case True
      have "now_of c + ?tau < u64_max" using le Cons.prems(3) by linarith
      from gcra_check_granted [OF True this]
      have "max (now_of c) (tat_of s) + t_nanos bucket_cell * g = tat_of s'"
        and "tat_of s' \<le> now_of c + ?tau" by auto
      from window_rest_charge [OF le this] show ?thesis using IH False unfolding len run by simp
    next
      case idle: False
      then have "g = 0" and same: "max (now_of c) (tat_of s') = max (now_of c) (tat_of s)"
        using fire_check [OF Cons.prems(1) ok step] by auto
      then show ?thesis
        using IH window_rest_idle [OF le(1) same, of ?tau "now_of b"] False unfolding len run by simp
    qed
  qed
qed simp

lemma granted_with_resets:
  assumes "ok s" and "timed_within a b (\<lambda>e. allowed e \<or> resets e) es"
    and "now_of b + tau_nanos bucket_cell < u64_max"
  shows "t_nanos bucket_cell * granted fire es s
           \<le> (1 + length (filter (resets \<circ> snd) es)) * tau_nanos bucket_cell + (now_of b - now_of a)"
proof -
  have "window_rest (tau_nanos bucket_cell) (now_of b) (now_of a) (tat_of s)
      \<le> tau_nanos bucket_cell + (now_of b - now_of a)"
    using max.cobounded1 [of "now_of a"] unfolding window_rest_def by (simp add: diff_le_mono2)
  then show ?thesis using granted_with_resets_bounded [OF assms] by simp
qed

end

text \<open>The single bucket.\<close>

definition charge_tokens :: "nat \<Rightarrow> nat \<Rightarrow> rate_limiter \<Rightarrow> nat \<times> rate_limiter" where
  "charge_tokens clock n rl =
     (case try_consume_n clock n rl of (Inr _, rl') \<Rightarrow> (n, rl') | (Inl _, rl') \<Rightarrow> (0, rl'))"

lemma elapsed_nanos_mono: "a \<le> b \<Longrightarrow> elapsed_nanos init a \<le> elapsed_nanos init b"
  by (auto simp: elapsed_nanos_def)

interpretation single: gcra_bucket charge_tokens "\<lambda>_. True"
  "\<lambda>rl. rl_cell rl = c \<and> rl_init rl = init" rl_tat_nanos "elapsed_nanos init" c
  for c init
proof (unfold_locales, goal_cases)
  case 1 then show ?case by (rule elapsed_nanos_mono)
next
  case 2 then show ?case
    by (auto simp: charge_tokens_def try_consume_n_def Let_def split: sum.splits)
next
  case 3 then show ?case
    by (auto simp: charge_tokens_def try_consume_n_def Let_def split: sum.splits)
qed

text \<open>One key of the keyed limiter, among the events of all keys.\<close>

datatype 'k limiter_event =
    Charge 'k nat
  | SetQuota 'k quota
  | Clear 'k
  | Retain

fun limiter_apply :: "nat \<Rightarrow> 'k limiter_event \<Rightarrow> 'k keyed_rate_limiter \<Rightarrow> 'k keyed_rate_limiter" where
  "limiter_apply clock (Charge key n) rl = snd (keyed_try_consume_n clock key n rl)"
| "limiter_apply clock (SetQuota key q) rl = set_key_quota clock key q rl"
| "limiter_apply clock (Clear key) rl = keyed_clear key rl"
| "limiter_apply clock Retain rl = retain_recent clock rl"

fun limiter_fire ::
  "'k \<Rightarrow> nat \<Rightarrow> 'k limiter_event \<Rightarrow> 'k keyed_rate_limiter \<Rightarrow> nat \<times> 'k keyed_rate_limiter" where
  "limiter_fire k clock e rl =
     ((case e of
         Charge key n \<Rightarrow>
           (if key = k \<and> fst (keyed_try_consume_n clock key n rl) = Inr () then n else 0)
       | _ \<Rightarrow> 0),
      limiter_apply clock e rl)"

fun leaves_bucket :: "'k \<Rightarrow> 'k limiter_event \<Rightarrow> bool" where
  "leaves_bucket k (Charge key n) = True"
| "leaves_bucket k (SetQuota key q) = (key \<noteq> k)"
| "leaves_bucket k (Clear key) = (key \<noteq> k)"
| "leaves_bucket k Retain = True"

fun clears_key :: "'k \<Rightarrow> 'k limiter_event \<Rightarrow> bool" where
  "clears_key k (Clear key) = (key = k)"
| "clears_key k _ = False"

fun keeps_own_quota :: "'k \<Rightarrow> 'k limiter_event \<Rightarrow> bool" where
  "keeps_own_quota k (SetQuota key q) = (key \<noteq> k)"
| "keeps_own_quota k _ = True"

lemma keeps_own_quota_iff: "keeps_own_quota k e \<longleftrightarrow> leaves_bucket k e \<or> clears_key k e"
  by (cases e) auto

definition key_tat :: "'k \<Rightarrow> 'k keyed_rate_limiter \<Rightarrow> nat" where
  "key_tat k rl = (case fmlookup (krl_state_per_key rl) k of Some s \<Rightarrow> ks_tat_nanos s | None \<Rightarrow> 0)"

definition key_cell :: "'k \<Rightarrow> 'k keyed_rate_limiter \<Rightarrow> cell" where
  "key_cell k rl =
     (case fmlookup (krl_state_per_key rl) k of Some s \<Rightarrow> ks_cell s | None \<Rightarrow> krl_cell rl)"

definition default_bucket :: "'k \<Rightarrow> cell \<Rightarrow> nat \<Rightarrow> 'k keyed_rate_limiter \<Rightarrow> bool" where
  "default_bucket k c init rl \<longleftrightarrow> krl_cell rl = c \<and> key_cell k rl = c \<and> krl_init rl = init"

lemma key_state_view:
  "(case fmlookup (krl_state_per_key rl) k of
      Some s \<Rightarrow> s | None \<Rightarrow> \<lparr>ks_tat_nanos = 0, ks_cell = krl_cell rl\<rparr>)
   = \<lparr>ks_tat_nanos = key_tat k rl, ks_cell = key_cell k rl\<rparr>"
  by (simp add: key_tat_def key_cell_def split: option.splits)

lemma keyed_consume_cases:
  "keyed_try_consume_n clock k n rl =
     (case gcra_check (key_cell k rl) (key_tat k rl) (elapsed_nanos (krl_init rl) clock) n of
        Inr tat \<Rightarrow> (Inr (), rl\<lparr>krl_state_per_key :=
          fmupd k \<lparr>ks_tat_nanos = tat, ks_cell = key_cell k rl\<rparr> (krl_state_per_key rl)\<rparr>)
      | Inl e \<Rightarrow> (Inl e, rl\<lparr>krl_state_per_key :=
          fmupd k \<lparr>ks_tat_nanos = key_tat k rl, ks_cell = key_cell k rl\<rparr> (krl_state_per_key rl)\<rparr>))"
  by (simp add: keyed_try_consume_n_def key_state_view Let_def cong: sum.case_cong)

lemma key_view_upd [simp]:
  "key_cell k' (rl\<lparr>krl_state_per_key := fmupd k s m\<rparr>) =
     (if k' = k then ks_cell s else key_cell k' (rl\<lparr>krl_state_per_key := m\<rparr>))"
  "key_tat k' (rl\<lparr>krl_state_per_key := fmupd k s m\<rparr>) =
     (if k' = k then ks_tat_nanos s else key_tat k' (rl\<lparr>krl_state_per_key := m\<rparr>))"
  by (simp_all add: key_cell_def key_tat_def split: option.splits)

lemma key_view_drop [simp]:
  "k' \<noteq> k \<Longrightarrow> key_cell k' (keyed_clear k rl) = key_cell k' rl"
  "k' \<noteq> k \<Longrightarrow> key_tat k' (keyed_clear k rl) = key_tat k' rl"
  by (simp_all add: key_cell_def key_tat_def keyed_clear_def split: option.splits)

lemma key_view_other_quota [simp]:
  "k' \<noteq> k \<Longrightarrow> key_cell k' (set_key_quota clock k q rl) = key_cell k' rl"
  "k' \<noteq> k \<Longrightarrow> key_tat k' (set_key_quota clock k q rl) = key_tat k' rl"
  by (simp_all add: set_key_quota_def Let_def split: option.splits)

lemma key_view_retain:
  "key_cell k (retain_recent clock rl) =
     (if elapsed_nanos (krl_init rl) clock < key_tat k rl then key_cell k rl else krl_cell rl)"
  "key_tat k (retain_recent clock rl) =
     (if elapsed_nanos (krl_init rl) clock < key_tat k rl then key_tat k rl else 0)"
  by (simp_all add: key_cell_def key_tat_def retain_recent_def Let_def split: option.splits)

lemma keyed_ops_keep [simp]:
  "krl_init (snd (keyed_try_consume_n clock k n rl)) = krl_init rl"
  "krl_cell (snd (keyed_try_consume_n clock k n rl)) = krl_cell rl"
  "krl_init (set_key_quota clock k q rl) = krl_init rl"
  "krl_cell (set_key_quota clock k q rl) = krl_cell rl"
  "krl_init (keyed_clear k rl) = krl_init rl"
  "krl_cell (keyed_clear k rl) = krl_cell rl"
  "krl_init (retain_recent clock rl) = krl_init rl"
  "krl_cell (retain_recent clock rl) = krl_cell rl"
  by (simp_all add: keyed_consume_cases set_key_quota_def keyed_clear_def retain_recent_def Let_def
      split: sum.splits option.splits)

lemma limiter_apply_keeps [simp]:
  "krl_init (limiter_apply clock e rl) = krl_init rl"
  "krl_cell (limiter_apply clock e rl) = krl_cell rl"
  by (cases e; simp)+

lemma key_view_consume:
  "key_cell k' (snd (keyed_try_consume_n clock k n rl)) = key_cell k' rl"
  "key_tat k' (snd (keyed_try_consume_n clock k n rl)) =
     (if k' = k then
        (case gcra_check (key_cell k rl) (key_tat k rl) (elapsed_nanos (krl_init rl) clock) n of
           Inr tat \<Rightarrow> tat | Inl _ \<Rightarrow> key_tat k rl)
      else key_tat k' rl)"
  by (simp_all add: keyed_consume_cases split: sum.splits)

lemma try_peek_cell: "try_peek clock k n rl =
  (case gcra_check (key_cell k rl) (key_tat k rl) (elapsed_nanos (krl_init rl) clock) n of
     Inr _ \<Rightarrow> Inr () | Inl e \<Rightarrow> Inl e)"
  by (auto simp: try_peek_def key_cell_def key_tat_def split: option.splits)

lemma consume_answers_peek: "fst (keyed_try_consume_n clock k n rl) = try_peek clock k n rl"
  by (simp add: try_peek_cell keyed_consume_cases split: sum.splits)

interpretation keyed: gcra_bucket "limiter_fire k" "leaves_bucket k" "default_bucket k c init"
  "key_tat k" "elapsed_nanos init" c
  for k c init
proof (unfold_locales, goal_cases)
  case 1 then show ?case by (rule elapsed_nanos_mono)
next
  case (2 s e clock g s')
  then show ?case
    by (cases e) (auto simp: default_bucket_def key_view_consume key_view_retain)
next
  case (3 s e clock g s')
  then have s: "krl_cell s = c" "key_cell k s = c" "krl_init s = init" by (simp_all add: default_bucket_def)
  show ?case
  proof (cases e)
    case (Charge key n)
    then have "g = (if key = k \<and> fst (keyed_try_consume_n clock key n s) = Inr () then n else 0)"
      and s': "s' = snd (keyed_try_consume_n clock key n s)" using 3(3) by auto
    then show ?thesis
      by (cases "key = k"; cases "gcra_check c (key_tat k s) (elapsed_nanos init clock) n")
        (simp_all add: key_view_consume consume_answers_peek try_peek_cell s)
  next
    case Retain
    then have "g = 0" "s' = retain_recent clock s" using 3(3) by auto
    then show ?thesis by (simp add: key_view_retain s)
  qed (use 3(2,3) in \<open>auto\<close>)
qed

lemma default_bucket_cleared:
  "default_bucket k c init rl \<Longrightarrow> default_bucket k c init (keyed_clear k rl)"
  by (simp add: default_bucket_def key_cell_def keyed_clear_def)

interpretation keyed_resets: gcra_reset_bucket "limiter_fire k" "leaves_bucket k" "default_bucket k c init"
  "key_tat k" "elapsed_nanos init" c "clears_key k"
  for k c init
proof (unfold_locales, goal_cases)
  case (1 s e clock g s')
  then show ?case by (cases e) (auto simp: default_bucket_cleared)
qed

section \<open>What the limiter promises\<close>

lemma elapsed_nanos_diff: "elapsed_nanos init b - elapsed_nanos init a \<le> b - a"
  by (auto simp: elapsed_nanos_def min_def)

text \<open>C32. Whatever the other keys do, and whenever full buckets are dropped, a key on the limiter's
  own quota whose quota is not changed is granted within any window at most the bucket's
  capacity plus what is replenished during the window, and one more capacity for each time
  the key is cleared, counted in nanoseconds of replenishment and while the clock is below
  its 64-bit range by a capacity.\<close>

theorem key_rate_bounded:
  assumes "key_cell k rl = krl_cell rl"
    and "timed_within a b (keeps_own_quota k) es"
    and "elapsed_nanos (krl_init rl) b + tau_nanos (krl_cell rl) < u64_max"
  shows "t_nanos (krl_cell rl) * granted (limiter_fire k) es rl
           \<le> (1 + length (filter (clears_key k \<circ> snd) es)) * tau_nanos (krl_cell rl) + (b - a)"
proof -
  have "default_bucket k (krl_cell rl) (krl_init rl) rl"
    using assms(1) by (simp add: default_bucket_def)
  from keyed_resets.granted_with_resets [OF this _ assms(3)] assms(2) show ?thesis
    using elapsed_nanos_diff [of "krl_init rl" b a] unfolding keeps_own_quota_iff [abs_def]
    by (meson add_left_mono le_trans)
qed

theorem key_rate_bounded_witness:
  "t_nanos (cell_from_quota (n_every 4 2000)) *
     granted (limiter_fire (1::nat))
       [(0, Charge 1 4), (300, Charge 2 4), (300, Clear 1), (500, Charge 1 4), (900, Retain)]
       (keyed_new 0 (n_every 4 2000))
   \<le> 2 * 2000 + 1000"
  using key_rate_bounded [of "1::nat" "keyed_new 0 (n_every 4 2000)" 0 1000
      "[(0, Charge 1 4), (300, Charge 2 4), (300, Clear 1), (500, Charge 1 4), (900, Retain)]"]
  by (simp add: keyed_new_def key_cell_def timed_within_def cell_from_quota_def n_every_def
      elapsed_nanos_def)

text \<open>The quota of four tokens in two seconds lets seven through in one and a half.\<close>

lemma burst_exceeds_quota:
  "granted charge_tokens
     [(0, 4), (500000000, 1), (1000000000, 1), (1500000000, 1)]
     (rate_limiter_new 0 (n_every 4 2000000000)) = 7"
  by (simp add: charge_tokens_def try_consume_n_def rate_limiter_new_def cell_from_quota_def
      n_every_def elapsed_nanos_def gcra_check_def u64_saturating_mul_def u64_saturating_add_def)

fun on_other_key :: "'k \<Rightarrow> 'k limiter_event \<Rightarrow> bool" where
  "on_other_key k (Charge key n) = (key \<noteq> k)"
| "on_other_key k (SetQuota key q) = (key \<noteq> k)"
| "on_other_key k (Clear key) = (key \<noteq> k)"
| "on_other_key k Retain = False"

definition limiter_run ::
  "(nat \<times> 'k limiter_event) list \<Rightarrow> 'k keyed_rate_limiter \<Rightarrow> 'k keyed_rate_limiter" where
  "limiter_run es rl = fold (\<lambda>(clock, e). limiter_apply clock e) es rl"

lemma other_key_apply:
  assumes "on_other_key k e"
  shows "key_cell k (limiter_apply clock e rl) = key_cell k rl"
    and "key_tat k (limiter_apply clock e rl) = key_tat k rl"
  using assms by (cases e; simp add: key_view_consume)+

lemma other_keys_run:
  assumes "list_all (on_other_key k \<circ> snd) es"
  shows "key_cell k (limiter_run es rl) = key_cell k rl \<and> key_tat k (limiter_run es rl) = key_tat k rl \<and>
         krl_init (limiter_run es rl) = krl_init rl"
  using assms
proof (induction es arbitrary: rl)
  case (Cons ev es)
  then show ?case
    by (cases ev) (simp add: limiter_run_def other_key_apply)
qed (simp add: limiter_run_def)

lemma refused_consume_keeps_bucket:
  assumes "keyed_try_consume_n clock k n rl = (Inl e, rl')"
  shows "key_cell k' rl' = key_cell k' rl" and "key_tat k' rl' = key_tat k' rl"
    and "krl_init rl' = krl_init rl"
  using assms by (auto simp: keyed_consume_cases split: sum.splits)

lemma wait_hint_exact_run:
  assumes "keyed_try_consume_n clock k n rl = (Inl (TooSoon d), rl')"
    and "list_all (on_other_key k \<circ> snd) es"
    and "krl_init rl \<le> clock" and "clock \<le> later" and "later - krl_init rl \<le> u64_max"
  shows "fst (keyed_try_consume_n later k n (limiter_run es rl')) = Inr () \<longleftrightarrow> clock + d \<le> later"
proof -
  let ?at = "elapsed_nanos (krl_init rl)"
  have "try_peek clock k n rl = Inl (TooSoon d)" using assms(1) consume_answers_peek [of clock k n rl] by simp
  then have refused: "gcra_check (key_cell k rl) (key_tat k rl) (?at clock) n = Inl (TooSoon d)"
    by (auto simp: try_peek_cell split: sum.splits)
  have le: "?at clock \<le> ?at later" using assms(4) by (rule elapsed_nanos_mono)
  have same: "key_cell k (limiter_run es rl') = key_cell k rl"
    "key_tat k (limiter_run es rl') = key_tat k rl" "krl_init (limiter_run es rl') = krl_init rl"
    using other_keys_run [OF assms(2), of rl'] refused_consume_keeps_bucket [OF assms(1)] by simp_all
  have "fst (keyed_try_consume_n later k n (limiter_run es rl')) = Inr () \<longleftrightarrow>
        (\<exists>tat'. gcra_check (key_cell k rl) (key_tat k rl) (?at later) n = Inr tat')"
    by (auto simp: consume_answers_peek try_peek_cell same split: sum.splits)
  also have "\<dots> \<longleftrightarrow> ?at clock + d \<le> ?at later"
    by (rule gcra_check_refusal_exact(2) [OF refused le])
  also have "\<dots> \<longleftrightarrow> clock + d \<le> later"
    using assms(3-5) by (auto simp: elapsed_nanos_def)
  finally show ?thesis .
qed

text \<open>The wait returned with a refusal is exact: whatever the other keys do meanwhile, the
  same charge is granted from then on and at no moment before.\<close>

lemma wait_hint_exact:
  assumes "keyed_try_consume_n clock k n rl = (Inl (TooSoon d), rl')"
    and "list_all (on_other_key k \<circ> snd) es"
    and "krl_init rl \<le> clock" and "clock \<le> later" and "later - krl_init rl \<le> u64_max"
  shows "fst (keyed_try_consume_n later k n (limiter_run es rl')) = Inr () \<longleftrightarrow> clock + d \<le> later"
  by (rule wait_hint_exact_run [OF assms])

text \<open>At every moment of a history no bucket is behind by more than its capacity, so the wait
  returned with a refusal never exceeds the replenishment time of the tokens asked for.\<close>

definition tat_bounded :: "nat \<Rightarrow> 'k keyed_rate_limiter \<Rightarrow> bool" where
  "tat_bounded clock rl \<longleftrightarrow>
     (\<forall>k. key_tat k rl \<le> elapsed_nanos (krl_init rl) clock + tau_nanos (key_cell k rl))"

lemma tat_bounded_later: "tat_bounded clock rl \<Longrightarrow> clock \<le> later \<Longrightarrow> tat_bounded later rl"
  unfolding tat_bounded_def by (meson add_le_mono1 elapsed_nanos_mono le_trans)

lemma gcra_check_tat:
  assumes "gcra_check c tat now n = Inr tat'"
  shows "tat' \<le> now + tau_nanos c"
  using assms by (auto simp: gcra_check_def Let_def u64_saturating_add_def split: if_splits)

lemma key_view_quota:
  "key_cell k (set_key_quota clock k q rl) = cell_from_quota q"
  "key_tat k (set_key_quota clock k q rl) =
     (if key_cell k rl = cell_from_quota q \<or> fmlookup (krl_state_per_key rl) k = None then key_tat k rl
      else min (key_tat k rl)
             (u64_saturating_add (elapsed_nanos (krl_init rl) clock) (tau_nanos (cell_from_quota q))))"
  by (auto simp: set_key_quota_def key_cell_def key_tat_def Let_def split: option.splits)

lemma key_tat_cleared: "key_tat k (keyed_clear k rl) = 0"
  by (simp add: key_tat_def keyed_clear_def)

lemma tat_bounded_apply:
  assumes "tat_bounded clock rl"
  shows "tat_bounded clock (limiter_apply clock e rl)"
proof -
  have ok: "key_tat k rl \<le> elapsed_nanos (krl_init rl) clock + tau_nanos (key_cell k rl)" for k
    using assms by (simp add: tat_bounded_def)
  have "key_tat k (limiter_apply clock e rl) \<le>
      elapsed_nanos (krl_init rl) clock + tau_nanos (key_cell k (limiter_apply clock e rl))" for k
  proof (cases e)
    case (Charge key n)
    then show ?thesis using ok by (auto simp: key_view_consume intro: gcra_check_tat split: sum.splits)
  next
    case (SetQuota key q)
    have "fmlookup (krl_state_per_key rl) k = None \<Longrightarrow> key_tat k rl = 0" by (simp add: key_tat_def)
    then show ?thesis
      using ok [of k] SetQuota
      by (cases "key = k") (auto simp: key_view_quota u64_saturating_add_def)
  next
    case (Clear key)
    then show ?thesis using ok [of k] by (cases "key = k") (simp_all add: key_tat_cleared)
  next
    case Retain
    then show ?thesis using ok [of k] by (simp add: key_view_retain)
  qed
  then show ?thesis by (simp add: tat_bounded_def)
qed

lemma tat_bounded_refusal:
  assumes "tat_bounded clock rl" and "fst (keyed_try_consume_n clock k n rl) = Inl (TooSoon d)"
  shows "d \<le> t_nanos (key_cell k rl) * n"
proof -
  have "gcra_check (key_cell k rl) (key_tat k rl) (elapsed_nanos (krl_init rl) clock) n = Inl (TooSoon d)"
    using assms(2) by (auto simp: consume_answers_peek try_peek_cell split: sum.splits)
  moreover have "key_tat k rl \<le> elapsed_nanos (krl_init rl) clock + tau_nanos (key_cell k rl)"
    using assms(1) by (simp add: tat_bounded_def)
  moreover have "u64_saturating_mul (t_nanos (key_cell k rl)) n \<le> t_nanos (key_cell k rl) * n"
    by (simp add: u64_saturating_mul_def)
  moreover have "u64_saturating_add x y \<le> x + y" for x y by (simp add: u64_saturating_add_def)
  note this [of "key_tat k rl" "u64_saturating_mul (t_nanos (key_cell k rl)) n"]
  ultimately show ?thesis
    by (simp add: gcra_check_def Let_def split: if_splits)
qed

lemma keyed_new_view:
  "key_cell k (keyed_new clock q) = cell_from_quota q" "key_tat k (keyed_new clock q) = 0"
  "krl_init (keyed_new clock q) = clock" "krl_cell (keyed_new clock q) = cell_from_quota q"
  by (simp_all add: keyed_new_def key_cell_def key_tat_def)

text \<open>Dropping the full buckets changes no answer for a key on the limiter's own quota, and
  forgets the quota of a key that was given its own.\<close>

lemma retain_recent_transparent:
  assumes "key_cell k rl = krl_cell rl" and "clock \<le> later"
  shows "try_peek later k n (retain_recent clock rl) = try_peek later k n rl"
proof -
  have "key_tat k rl \<le> elapsed_nanos (krl_init rl) later"
    if "\<not> elapsed_nanos (krl_init rl) clock < key_tat k rl"
    using that elapsed_nanos_mono [OF assms(2), of "krl_init rl"] by linarith
  then show ?thesis
    by (simp add: try_peek_cell key_view_retain assms(1) gcra_check_past_tat [of "key_tat k rl"])
qed

lemma retain_recent_forgets_quota:
  "key_cell (1::nat) (retain_recent 0 (set_key_quota 0 1 (n_every 5 100) (keyed_new 0 (n_every 1 100))))
     = cell_from_quota (n_every 1 100)"
  by (simp add: retain_recent_def set_key_quota_def keyed_new_def key_cell_def)

text \<open>A changed quota leaves no more than the new capacity to wait for.\<close>

lemma set_key_quota_reclamps:
  assumes "key_cell k rl \<noteq> cell_from_quota q" and "krl_init rl \<le> clock" "clock - krl_init rl \<le> u64_max"
  shows "key_cell k (set_key_quota clock k q rl) = cell_from_quota q"
    and "key_tat k (set_key_quota clock k q rl)
           \<le> u64_saturating_add (clock - krl_init rl) (tau_nanos (cell_from_quota q))"
  using assms
  by (auto simp: set_key_quota_def key_cell_def key_tat_def Let_def elapsed_nanos_def
      split: option.splits)

lemma set_key_quota_same: "key_cell k rl = cell_from_quota q \<Longrightarrow>
  key_cell k (set_key_quota clock k q rl) = key_cell k rl \<and> key_tat k (set_key_quota clock k q rl) = key_tat k rl"
  by (auto simp: set_key_quota_def key_cell_def key_tat_def Let_def split: option.splits)

end
