(* ===== verification/Self_Limiter.thy ===== *)
theory Self_Limiter
  imports Rate_Limiter "HOL-Library.Sublist"
begin

text \<open>
  The outbound throttle of \<^verbatim>\<open>crates/net/ratelimiter/src/self_limiter.rs\<close>: a keyed limiter and,
  per key, a queue of requests parked until the bucket has refilled.

  A timer of the timer library is the clock reading at which it was armed and its
  duration; whether it has fired at a reading is the parameter \<open>fires\<close>. The order in which
  the hash map of parked queues is visited is the argument \<open>order\<close>.
\<close>

section \<open>The operations\<close>

record 'v parked_item =
  it_cost :: nat
  it_value :: 'v

record 'v parked =
  pk_queue :: "'v parked_item list"
  pk_timer :: "nat \<times> nat"

record ('k, 'v) self_limiter =
  sl_limiter :: "'k keyed_rate_limiter"
  sl_parked :: "('k, 'v parked) fmap"

type_synonym timer_fires = "nat \<times> nat \<Rightarrow> nat \<Rightarrow> bool"

definition self_limiter_new :: "nat \<Rightarrow> quota \<Rightarrow> ('k, 'v) self_limiter" where
  "self_limiter_new clock q = \<lparr>sl_limiter = keyed_new clock q, sl_parked = fmempty\<rparr>"

definition try_send :: "nat \<Rightarrow> 'k \<Rightarrow> nat \<Rightarrow> ('k, 'v) self_limiter \<Rightarrow> (nat + unit) \<times> ('k, 'v) self_limiter" where
  "try_send clock key cost sl =
     (case keyed_try_consume_n clock key cost (sl_limiter sl) of
        (Inr _, l) \<Rightarrow> (Inr (), sl\<lparr>sl_limiter := l\<rparr>)
      | (Inl (TooSoon d), l) \<Rightarrow> (Inl d, sl\<lparr>sl_limiter := l\<rparr>)
      | (Inl TooLarge, l) \<Rightarrow> (Inl (replenish_all_every_for key l), sl\<lparr>sl_limiter := l\<rparr>))"

definition cost_exceeds_capacity :: "nat \<Rightarrow> 'k \<Rightarrow> nat \<Rightarrow> ('k, 'v) self_limiter \<Rightarrow> bool" where
  "cost_exceeds_capacity clock key cost sl \<longleftrightarrow> try_peek clock key cost (sl_limiter sl) = Inl TooLarge"

definition self_enqueue ::
  "nat \<Rightarrow> 'k \<Rightarrow> nat \<Rightarrow> 'v \<Rightarrow> ('k, 'v) self_limiter \<Rightarrow> ('v + 'v option) \<times> ('k, 'v) self_limiter" where
  "self_enqueue clock key cost value sl =
     (if cost_exceeds_capacity clock key cost sl then (Inl value, sl)
      else case fmlookup (sl_parked sl) key of
        Some p \<Rightarrow>
          (Inr None,
           sl\<lparr>sl_parked := fmupd key (p\<lparr>pk_queue := pk_queue p @ [\<lparr>it_cost = cost, it_value = value\<rparr>]\<rparr>)
                             (sl_parked sl)\<rparr>)
      | None \<Rightarrow>
          (case keyed_try_consume_n clock key cost (sl_limiter sl) of
             (Inr _, l) \<Rightarrow> (Inr (Some value), sl\<lparr>sl_limiter := l\<rparr>)
           | (Inl (TooSoon d), l) \<Rightarrow>
               (Inr None,
                sl\<lparr>sl_limiter := l,
                   sl_parked := fmupd key \<lparr>pk_queue = [\<lparr>it_cost = cost, it_value = value\<rparr>], pk_timer = (clock, d)\<rparr>
                                  (sl_parked sl)\<rparr>)
           | (Inl TooLarge, l) \<Rightarrow> (Inl value, sl\<lparr>sl_limiter := l\<rparr>)))"

definition set_quota :: "nat \<Rightarrow> 'k \<Rightarrow> quota \<Rightarrow> ('k, 'v) self_limiter \<Rightarrow> ('k, 'v) self_limiter" where
  "set_quota clock key q sl = sl\<lparr>sl_limiter := set_key_quota clock key q (sl_limiter sl)\<rparr>"

definition self_clear :: "'k \<Rightarrow> ('k, 'v) self_limiter \<Rightarrow> ('k, 'v) self_limiter" where
  "self_clear key sl =
     sl\<lparr>sl_parked := fmdrop key (sl_parked sl), sl_limiter := keyed_clear key (sl_limiter sl)\<rparr>"

definition parked_keys :: "('k, 'v) self_limiter \<Rightarrow> nat" where
  "parked_keys sl = fcard (fmdom (sl_parked sl))"

definition pop_front :: "'k \<Rightarrow> ('k, 'v) self_limiter \<Rightarrow> 'v parked_item option \<times> ('k, 'v) self_limiter" where
  "pop_front key sl =
     (case fmlookup (sl_parked sl) key of
        None \<Rightarrow> (None, sl)
      | Some p \<Rightarrow>
          (case pk_queue p of
             [] \<Rightarrow> (None, sl)
           | item # rest \<Rightarrow>
               (Some item, sl\<lparr>sl_parked := fmupd key (p\<lparr>pk_queue := rest\<rparr>) (sl_parked sl)\<rparr>)))"

definition reset_timer :: "nat \<Rightarrow> 'k \<Rightarrow> nat \<Rightarrow> ('k, 'v) self_limiter \<Rightarrow> ('k, 'v) self_limiter" where
  "reset_timer clock key d sl =
     (case fmlookup (sl_parked sl) key of
        None \<Rightarrow> sl
      | Some p \<Rightarrow> sl\<lparr>sl_parked := fmupd key (p\<lparr>pk_timer := (clock, d)\<rparr>) (sl_parked sl)\<rparr>)"

definition rearm_or_remove :: "nat \<Rightarrow> 'k \<Rightarrow> ('k, 'v) self_limiter \<Rightarrow> ('k, 'v) self_limiter" where
  "rearm_or_remove clock key sl =
     (case fmlookup (sl_parked sl) key of
        None \<Rightarrow> sl
      | Some p \<Rightarrow>
          (case pk_queue p of
             [] \<Rightarrow> sl\<lparr>sl_parked := fmdrop key (sl_parked sl)\<rparr>
           | item # _ \<Rightarrow>
               (let wait = (case try_peek clock key (it_cost item) (sl_limiter sl) of
                              Inl (TooSoon d) \<Rightarrow> d
                            | _ \<Rightarrow> 0)
                in reset_timer clock key wait sl)))"

datatype ('k, 'v) poll_result = Ready 'k 'v | Pending

definition timer_ready :: "timer_fires \<Rightarrow> nat \<Rightarrow> ('k, 'v) self_limiter \<Rightarrow> 'k \<Rightarrow> bool" where
  "timer_ready fires clock sl key =
     (case fmlookup (sl_parked sl) key of Some p \<Rightarrow> fires (pk_timer p) clock | None \<Rightarrow> False)"

definition poll_ready ::
  "timer_fires \<Rightarrow> 'k list \<Rightarrow> nat \<Rightarrow> ('k, 'v) self_limiter \<Rightarrow> ('k, 'v) poll_result \<times> ('k, 'v) self_limiter" where
  "poll_ready fires order clock sl =
     (case find (timer_ready fires clock sl) order of
        None \<Rightarrow> (Pending, sl)
      | Some key \<Rightarrow>
          (case map_option pk_queue (fmlookup (sl_parked sl) key) of
             Some (item # _) \<Rightarrow>
               (case keyed_try_consume_n clock key (it_cost item) (sl_limiter sl) of
                  (Inr _, l) \<Rightarrow>
                    (case pop_front key (sl\<lparr>sl_limiter := l\<rparr>) of
                       (Some item', sl') \<Rightarrow> (Ready key (it_value item'), rearm_or_remove clock key sl')
                     | (None, sl') \<Rightarrow> (Pending, sl'\<lparr>sl_parked := fmdrop key (sl_parked sl')\<rparr>))
                | (Inl (TooSoon d), l) \<Rightarrow> (Pending, reset_timer clock key d (sl\<lparr>sl_limiter := l\<rparr>))
                | (Inl TooLarge, l) \<Rightarrow>
                    (Pending, rearm_or_remove clock key (snd (pop_front key (sl\<lparr>sl_limiter := l\<rparr>)))))
           | _ \<Rightarrow> (Pending, sl\<lparr>sl_parked := fmdrop key (sl_parked sl)\<rparr>)))"

section \<open>Parked queues\<close>

definition parked_queue :: "'k \<Rightarrow> ('k, 'v) self_limiter \<Rightarrow> 'v parked_item list" where
  "parked_queue k sl = (case fmlookup (sl_parked sl) k of Some p \<Rightarrow> pk_queue p | None \<Rightarrow> [])"

lemma parked_queue_upd [simp]:
  "parked_queue k' (sl\<lparr>sl_parked := fmupd k p m\<rparr>) =
     (if k' = k then pk_queue p else parked_queue k' (sl\<lparr>sl_parked := m\<rparr>))"
  "parked_queue k' (sl\<lparr>sl_parked := fmdrop k m\<rparr>) =
     (if k' = k then [] else parked_queue k' (sl\<lparr>sl_parked := m\<rparr>))"
  "parked_queue k' (sl\<lparr>sl_limiter := l\<rparr>) = parked_queue k' sl"
  by (simp_all add: parked_queue_def)

lemma parked_queue_Some: "fmlookup (sl_parked sl) k = Some p \<Longrightarrow> parked_queue k sl = pk_queue p"
  by (simp add: parked_queue_def)

lemma reset_timer_simps [simp]:
  "parked_queue k' (reset_timer clock k d sl) = parked_queue k' sl"
  "sl_limiter (reset_timer clock k d sl) = sl_limiter sl"
  by (simp_all add: reset_timer_def parked_queue_def split: option.splits)

lemma rearm_or_remove_simps [simp]:
  "parked_queue k' (rearm_or_remove clock k sl) = parked_queue k' sl"
  "sl_limiter (rearm_or_remove clock k sl) = sl_limiter sl"
  by (auto simp: rearm_or_remove_def Let_def parked_queue_Some split: option.splits list.splits)

lemma pop_front_simps [simp]:
  "parked_queue k' (snd (pop_front k sl)) = (if k' = k then tl (parked_queue k sl) else parked_queue k' sl)"
  "sl_limiter (snd (pop_front k sl)) = sl_limiter sl"
  "fst (pop_front k sl) = (case parked_queue k sl of [] \<Rightarrow> None | it # _ \<Rightarrow> Some it)"
  by (simp_all add: pop_front_def parked_queue_def split: option.splits list.splits)

text \<open>A poll either serves the head of a key whose timer has fired, or lets it wait on, or drops
  it because its cost no longer fits.\<close>

lemma poll_ready_cases:
  assumes "poll_ready fires order clock sl = (r, sl')"
  obtains (idle) "r = Pending" "sl_limiter sl' = sl_limiter sl"
      "\<And>k. parked_queue k sl' = parked_queue k sl"
  | (served) key item rest where "parked_queue key sl = item # rest"
      "keyed_try_consume_n clock key (it_cost item) (sl_limiter sl) = (Inr (), sl_limiter sl')"
      "r = Ready key (it_value item)"
      "\<And>k. parked_queue k sl' = (if k = key then rest else parked_queue k sl)"
  | (waits) key item rest d where "parked_queue key sl = item # rest"
      "keyed_try_consume_n clock key (it_cost item) (sl_limiter sl) = (Inl (TooSoon d), sl_limiter sl')"
      "r = Pending" "\<And>k. parked_queue k sl' = parked_queue k sl"
  | (dropped) key item rest where "parked_queue key sl = item # rest"
      "keyed_try_consume_n clock key (it_cost item) (sl_limiter sl) = (Inl TooLarge, sl_limiter sl')"
      "r = Pending" "\<And>k. parked_queue k sl' = (if k = key then rest else parked_queue k sl)"
proof (cases "find (timer_ready fires clock sl) order")
  case None
  then show ?thesis using assms idle by (simp add: poll_ready_def)
next
  case (Some key)
  then have "timer_ready fires clock sl key" by (auto simp: find_Some_iff)
  then obtain p where p: "fmlookup (sl_parked sl) key = Some p"
    by (auto simp: timer_ready_def split: option.splits)
  note queue = parked_queue_Some [OF p]
  show ?thesis
  proof (cases "pk_queue p")
    case Nil
    then show ?thesis
      using assms by (intro idle) (auto simp: poll_ready_def Some p queue)
  next
    case (Cons item rest)
    obtain a l where step: "keyed_try_consume_n clock key (it_cost item) (sl_limiter sl) = (a, l)" by force
    let ?popped = "pop_front key (sl\<lparr>sl_limiter := l\<rparr>)"
    have popped: "?popped = (Some item, snd ?popped)" by (rule prod_eqI) (simp_all add: queue Cons)
    show ?thesis
    proof (cases a)
      case (Inr u)
      then have "r = Ready key (it_value item)" "sl' = rearm_or_remove clock key (snd ?popped)"
        using assms popped by (auto simp: poll_ready_def Some p Cons step split: prod.splits option.splits)
      then show ?thesis using step Inr queue Cons by (intro served [of key item rest]) auto
    next
      case (Inl e)
      then show ?thesis
      proof (cases e)
        case TooLarge
        then have "r = Pending" "sl' = rearm_or_remove clock key (snd ?popped)"
          using assms Inl by (auto simp: poll_ready_def Some p Cons step)
        then show ?thesis using step Inl TooLarge queue Cons by (intro dropped [of key item rest]) auto
      next
        case (TooSoon d)
        then have "r = Pending" "sl' = reset_timer clock key d (sl\<lparr>sl_limiter := l\<rparr>)"
          using assms Inl by (auto simp: poll_ready_def Some p Cons step)
        then show ?thesis using step Inl TooSoon queue Cons by (intro waits [of key item rest d]) auto
      qed
    qed
  qed
qed


section \<open>Events\<close>

datatype ('k, 'v) self_event =
    Enqueue 'k nat 'v
  | Send 'k nat
  | Quota 'k quota
  | Disconnect 'k
  | Poll "'k list"

fun self_apply ::
  "timer_fires \<Rightarrow> nat \<Rightarrow> ('k, 'v) self_event \<Rightarrow> ('k, 'v) self_limiter \<Rightarrow> ('k, 'v) self_limiter" where
  "self_apply fires clock (Enqueue key cost v) sl = snd (self_enqueue clock key cost v sl)"
| "self_apply fires clock (Send key cost) sl = snd (try_send clock key cost sl)"
| "self_apply fires clock (Quota key q) sl = set_quota clock key q sl"
| "self_apply fires clock (Disconnect key) sl = self_clear key sl"
| "self_apply fires clock (Poll order) sl = snd (poll_ready fires order clock sl)"

text \<open>What an event accepts for a key, and what it hands back for sending.\<close>

fun accepts :: "timer_fires \<Rightarrow> 'k \<Rightarrow> nat \<Rightarrow> ('k, 'v) self_event \<Rightarrow> ('k, 'v) self_limiter \<Rightarrow> 'v list" where
  "accepts fires k clock (Enqueue key cost v) sl =
     (case fst (self_enqueue clock key cost v sl) of Inr _ \<Rightarrow> if key = k then [v] else [] | Inl _ \<Rightarrow> [])"
| "accepts fires k clock _ sl = []"

fun emits :: "timer_fires \<Rightarrow> 'k \<Rightarrow> nat \<Rightarrow> ('k, 'v) self_event \<Rightarrow> ('k, 'v) self_limiter \<Rightarrow> 'v list" where
  "emits fires k clock (Enqueue key cost v) sl =
     (case fst (self_enqueue clock key cost v sl) of
        Inr (Some w) \<Rightarrow> if key = k then [w] else [] | _ \<Rightarrow> [])"
| "emits fires k clock (Poll order) sl =
     (case fst (poll_ready fires order clock sl) of Ready key v \<Rightarrow> if key = k then [v] else [] | Pending \<Rightarrow> [])"
| "emits fires k clock _ sl = []"

fun collected ::
  "(nat \<Rightarrow> ('k, 'v) self_event \<Rightarrow> ('k, 'v) self_limiter \<Rightarrow> 'v list) \<Rightarrow> timer_fires \<Rightarrow>
     (nat \<times> ('k, 'v) self_event) list \<Rightarrow> ('k, 'v) self_limiter \<Rightarrow> 'v list" where
  "collected out fires [] sl = []"
| "collected out fires ((clock, e) # es) sl = out clock e sl @ collected out fires es (self_apply fires clock e sl)"

fun self_run ::
  "timer_fires \<Rightarrow> (nat \<times> ('k, 'v) self_event) list \<Rightarrow> ('k, 'v) self_limiter \<Rightarrow> ('k, 'v) self_limiter" where
  "self_run fires [] sl = sl"
| "self_run fires ((clock, e) # es) sl = self_run fires es (self_apply fires clock e sl)"

text \<open>The events that leave a key's quota and queue alone, except by using them.\<close>

fun keeps_key :: "'k \<Rightarrow> ('k, 'v) self_event \<Rightarrow> bool" where
  "keeps_key k (Quota key q) = (key \<noteq> k)"
| "keeps_key k (Disconnect key) = (key \<noteq> k)"
| "keeps_key k _ = True"

definition fits :: "cell \<Rightarrow> nat \<Rightarrow> bool" where
  "fits c cost \<longleftrightarrow> u64_saturating_mul (t_nanos c) cost \<le> tau_nanos c"

definition queue_fits :: "'k \<Rightarrow> ('k, 'v) self_limiter \<Rightarrow> bool" where
  "queue_fits k sl \<longleftrightarrow> list_all (\<lambda>it. fits (key_cell k (sl_limiter sl)) (it_cost it)) (parked_queue k sl)"

lemma consume_not_too_large:
  "keyed_try_consume_n clock k n rl = (Inl TooLarge, rl') \<Longrightarrow> \<not> fits (key_cell k rl) n"
  using consume_answers_peek [of clock k n rl]
  by (auto simp: try_peek_cell fits_def gcra_check_too_large split: sum.splits)

lemma cost_fits: "cost_exceeds_capacity clock k n sl \<longleftrightarrow> \<not> fits (key_cell k (sl_limiter sl)) n"
  by (auto simp: cost_exceeds_capacity_def try_peek_cell fits_def split: sum.splits)
    (auto simp: gcra_check_def Let_def split: if_splits)

lemma key_cell_consumed:
  "keyed_try_consume_n clock key n rl = (a, rl') \<Longrightarrow> key_cell k rl' = key_cell k rl"
  using key_view_consume(1) [of k clock key n rl] by simp

lemma self_limiter_simps [simp]:
  "parked_queue k' (set_quota clock k q sl) = parked_queue k' sl"
  "sl_limiter (set_quota clock k q sl) = set_key_quota clock k q (sl_limiter sl)"
  "parked_queue k' (self_clear k sl) = (if k' = k then [] else parked_queue k' sl)"
  "sl_limiter (self_clear k sl) = keyed_clear k (sl_limiter sl)"
  "parked_queue k' (snd (try_send clock k n sl)) = parked_queue k' sl"
  "sl_limiter (snd (try_send clock k n sl)) = snd (keyed_try_consume_n clock k n (sl_limiter sl))"
  by (simp_all add: set_quota_def self_clear_def try_send_def parked_queue_def
      split: prod.splits sum.splits rate_limited_err.splits)

lemma self_enqueue_cases:
  assumes "self_enqueue clock key cost v sl = (r, sl')"
  obtains (refused) "r = Inl v" "\<And>k. parked_queue k sl' = parked_queue k sl"
      "\<not> fits (key_cell key (sl_limiter sl)) cost" "sl' = sl"
  | (behind) "r = Inr None" "fits (key_cell key (sl_limiter sl)) cost" "sl_limiter sl' = sl_limiter sl"
      "\<And>k. parked_queue k sl' =
          (if k = key then parked_queue k sl @ [\<lparr>it_cost = cost, it_value = v\<rparr>] else parked_queue k sl)"
  | (admitted) "r = Inr (Some v)" "parked_queue key sl = []" "\<And>k. parked_queue k sl' = parked_queue k sl"
      "keyed_try_consume_n clock key cost (sl_limiter sl) = (Inr (), sl_limiter sl')"
  | (first) d where "r = Inr None" "fits (key_cell key (sl_limiter sl)) cost"
      "keyed_try_consume_n clock key cost (sl_limiter sl) = (Inl (TooSoon d), sl_limiter sl')"
      "\<And>k. parked_queue k sl' =
          (if k = key then parked_queue k sl @ [\<lparr>it_cost = cost, it_value = v\<rparr>] else parked_queue k sl)"
proof (cases "fits (key_cell key (sl_limiter sl)) cost")
  case False
  then have "cost_exceeds_capacity clock key cost sl" by (simp add: cost_fits)
  then have "r = Inl v" "sl' = sl" using assms by (auto simp: self_enqueue_def)
  then show ?thesis using False by (intro refused) simp_all
next
  case True
  then have ok: "\<not> cost_exceeds_capacity clock key cost sl" by (simp add: cost_fits)
  show ?thesis
  proof (cases "fmlookup (sl_parked sl) key")
    case (Some p)
    then have "r = Inr None" "sl' = sl\<lparr>sl_parked := fmupd key
        (p\<lparr>pk_queue := pk_queue p @ [\<lparr>it_cost = cost, it_value = v\<rparr>]\<rparr>) (sl_parked sl)\<rparr>"
      using assms ok by (auto simp: self_enqueue_def)
    then show ?thesis using True by (intro behind) (simp_all add: parked_queue_Some [OF Some])
  next
    case None
    then have empty: "parked_queue key sl = []" by (simp add: parked_queue_def)
    obtain a l where step: "keyed_try_consume_n clock key cost (sl_limiter sl) = (a, l)" by force
    show ?thesis
    proof (cases a)
      case (Inr u)
      then have "r = Inr (Some v)" "sl' = sl\<lparr>sl_limiter := l\<rparr>"
        using assms ok None step by (simp_all add: self_enqueue_def)
      then show ?thesis using step Inr empty by (intro admitted) simp_all
    next
      case (Inl e)
      then obtain d where e: "e = TooSoon d"
        using consume_not_too_large [of clock key cost "sl_limiter sl" l] True step by (cases e) simp_all
      then have "r = Inr None" "sl' = sl\<lparr>sl_limiter := l, sl_parked :=
          fmupd key \<lparr>pk_queue = [\<lparr>it_cost = cost, it_value = v\<rparr>], pk_timer = (clock, d)\<rparr> (sl_parked sl)\<rparr>"
        using assms ok None step Inl by (simp_all add: self_enqueue_def)
      then show ?thesis using step Inl e empty True by (intro first [of d]) simp_all
    qed
  qed
qed

lemma key_cell_step:
  assumes "keeps_key k e"
  shows "key_cell k (sl_limiter (self_apply fires clock e sl)) = key_cell k (sl_limiter sl)"
proof (cases e)
  case (Enqueue key cost v)
  obtain r sl' where step: "self_enqueue clock key cost v sl = (r, sl')" by force
  then have "self_apply fires clock e sl = sl'" using Enqueue by simp
  with step show ?thesis by (cases rule: self_enqueue_cases) (auto dest: key_cell_consumed)
next
  case (Poll order)
  obtain r sl' where step: "poll_ready fires order clock sl = (r, sl')" by force
  then have "self_apply fires clock e sl = sl'" using Poll by simp
  with step show ?thesis by (cases rule: poll_ready_cases) (auto dest: key_cell_consumed)
qed (use assms in \<open>auto simp: key_view_consume\<close>)

lemma poll_queue_shrinks:
  assumes "poll_ready fires order clock sl = (r, sl')"
  shows "parked_queue k sl' = parked_queue k sl \<or> parked_queue k sl' = tl (parked_queue k sl)"
  using assms
proof (cases rule: poll_ready_cases)
  case (served key item rest)
  then show ?thesis by (cases "k = key") simp_all
next
  case (dropped key item rest)
  then show ?thesis by (cases "k = key") simp_all
qed simp_all

lemma queue_fits_step:
  assumes "queue_fits k sl" and "keeps_key k e"
  shows "queue_fits k (self_apply fires clock e sl)"
proof -
  have "list_all (\<lambda>it. fits (key_cell k (sl_limiter sl)) (it_cost it))
          (parked_queue k (self_apply fires clock e sl))"
  proof (cases e)
    case (Enqueue key cost v)
    obtain r sl' where step: "self_enqueue clock key cost v sl = (r, sl')" by force
    then have "self_apply fires clock e sl = sl'" using Enqueue by simp
    with step show ?thesis
      by (cases rule: self_enqueue_cases) (use assms(1) in \<open>auto simp: queue_fits_def\<close>)
  next
    case (Poll order)
    obtain r sl' where step: "poll_ready fires order clock sl = (r, sl')" by force
    then have "self_apply fires clock e sl = sl'" using Poll by simp
    then have "set (parked_queue k (self_apply fires clock e sl)) \<subseteq> set (parked_queue k sl)"
      using poll_queue_shrinks [OF step, of k] by (cases "parked_queue k sl") auto
    then show ?thesis using assms(1) by (auto simp: queue_fits_def list_all_iff)
  qed (use assms in \<open>auto simp: queue_fits_def\<close>)
  then show ?thesis by (simp only: queue_fits_def key_cell_step [OF assms(2)])
qed

lemma fifo_step:
  assumes "queue_fits k sl" and "keeps_key k e"
  shows "map it_value (parked_queue k sl) @ accepts fires k clock e sl =
         emits fires k clock e sl @ map it_value (parked_queue k (self_apply fires clock e sl))"
proof (cases e)
  case (Enqueue key cost v)
  obtain r sl' where step: "self_enqueue clock key cost v sl = (r, sl')" by force
  then have "self_apply fires clock e sl = sl'" and "fst (self_enqueue clock key cost v sl) = r"
    using Enqueue by simp_all
  with step show ?thesis by (cases rule: self_enqueue_cases) (auto simp: Enqueue)
next
  case (Poll order)
  obtain r sl' where step: "poll_ready fires order clock sl = (r, sl')" by force
  then have poll: "snd (poll_ready fires order clock sl) = sl'" "fst (poll_ready fires order clock sl) = r"
    by simp_all
  from step show ?thesis
  proof (cases rule: poll_ready_cases)
    case (dropped key item rest)
    have "key \<noteq> k"
      using assms(1) dropped(1) consume_not_too_large [OF dropped(2)] by (auto simp: queue_fits_def)
    then show ?thesis using dropped(3,4) by (simp add: Poll poll)
  next
    case (served key item rest)
    show ?thesis using served(1,3,4) by (cases "key = k") (simp_all add: Poll poll)
  next
    case idle
    show ?thesis using idle(1,3) by (simp add: Poll poll)
  next
    case (waits key item rest d)
    show ?thesis using waits(3,4) by (simp add: Poll poll)
  qed
qed (use assms in auto)

lemma fifo_run:
  assumes "queue_fits k sl" and "list_all (keeps_key k \<circ> snd) es"
  shows "map it_value (parked_queue k sl) @ collected (accepts fires k) fires es sl =
         collected (emits fires k) fires es sl @ map it_value (parked_queue k (self_run fires es sl))"
  using assms
proof (induction es arbitrary: sl)
  case (Cons ev es)
  obtain clock e where ev: "ev = (clock, e)" by force
  let ?sl' = "self_apply fires clock e sl"
  let ?queue = "\<lambda>sl. map it_value (parked_queue k sl)"
  have IH: "?queue ?sl' @ collected (accepts fires k) fires es ?sl' =
        collected (emits fires k) fires es ?sl' @ ?queue (self_run fires es ?sl')"
    using Cons.prems ev by (intro Cons.IH queue_fits_step) auto
  have "?queue sl @ collected (accepts fires k) fires (ev # es) sl =
        (?queue sl @ accepts fires k clock e sl) @ collected (accepts fires k) fires es ?sl'"
    by (simp add: ev)
  also have "?queue sl @ accepts fires k clock e sl = emits fires k clock e sl @ ?queue ?sl'"
    using Cons.prems ev by (intro fifo_step) auto
  finally show ?case by (simp add: ev IH)
qed simp

text \<open>Without the proviso a request may be dropped, never overtaken.\<close>

lemma order_step:
  "subseq (emits fires k clock e sl @ map it_value (parked_queue k (self_apply fires clock e sl)))
     (map it_value (parked_queue k sl) @ accepts fires k clock e sl)"
proof (cases e)
  case (Enqueue key cost v)
  obtain r sl' where step: "self_enqueue clock key cost v sl = (r, sl')" by force
  then have "self_apply fires clock e sl = sl'" and "fst (self_enqueue clock key cost v sl) = r"
    using Enqueue by simp_all
  with step show ?thesis by (cases rule: self_enqueue_cases) (auto simp: Enqueue)
next
  case (Poll order)
  obtain r sl' where step: "poll_ready fires order clock sl = (r, sl')" by force
  then have poll: "snd (poll_ready fires order clock sl) = sl'" "fst (poll_ready fires order clock sl) = r"
    by simp_all
  from step show ?thesis
  proof (cases rule: poll_ready_cases)
    case (dropped key item rest)
    show ?thesis using dropped(1,3,4) by (cases "key = k") (simp_all add: Poll poll list_emb_Cons)
  next
    case (served key item rest)
    show ?thesis using served(1,3,4) by (cases "key = k") (simp_all add: Poll poll)
  next
    case idle
    show ?thesis using idle(1,3) by (simp add: Poll poll)
  next
    case (waits key item rest d)
    show ?thesis using waits(3,4) by (simp add: Poll poll)
  qed
qed simp_all

lemma order_run:
  "subseq (collected (emits fires k) fires es sl @ map it_value (parked_queue k (self_run fires es sl)))
     (map it_value (parked_queue k sl) @ collected (accepts fires k) fires es sl)"
proof (induction es arbitrary: sl)
  case (Cons ev es)
  obtain clock e where ev: "ev = (clock, e)" by force
  let ?sl' = "self_apply fires clock e sl"
  let ?queue = "\<lambda>sl. map it_value (parked_queue k sl)"
  have "subseq (emits fires k clock e sl @ collected (emits fires k) fires es ?sl' @ ?queue (self_run fires es ?sl'))
      (emits fires k clock e sl @ ?queue ?sl' @ collected (accepts fires k) fires es ?sl')"
    by (rule list_emb_append_mono [OF subseq_order.order_refl Cons.IH])
  also have "subseq (emits fires k clock e sl @ ?queue ?sl' @ collected (accepts fires k) fires es ?sl')
      ((?queue sl @ accepts fires k clock e sl) @ collected (accepts fires k) fires es ?sl')"
    using list_emb_append_mono [OF order_step subseq_order.order_refl] by simp
  finally show ?case by (simp add: ev)
qed simp

section \<open>What the throttle promises\<close>

text \<open>C33. From a moment when nothing of a key is parked, what is handed back for it, followed by
  what is still parked, is a subsequence of what was accepted, whatever happens: nothing is
  duplicated or overtaken. If neither a disconnect nor a quota change of the key intervenes,
  it is all that was accepted: nothing is lost either.\<close>

theorem parked_requests_fifo:
  assumes "parked_queue k sl = []"
  shows "subseq (collected (emits fires k) fires es sl @ map it_value (parked_queue k (self_run fires es sl)))
           (collected (accepts fires k) fires es sl) \<and>
         (list_all (keeps_key k \<circ> snd) es \<longrightarrow>
            collected (emits fires k) fires es sl @ map it_value (parked_queue k (self_run fires es sl))
              = collected (accepts fires k) fires es sl)"
  using fifo_run [of k sl es fires] order_run [of fires k es sl] assms by (auto simp: queue_fits_def)

definition sample_timer :: timer_fires where
  "sample_timer t clock \<longleftrightarrow> fst t + snd t \<le> clock"

theorem parked_requests_fifo_witness:
  "(let es = [(0, Enqueue (1::nat) 1 ''a''), (0, Enqueue 1 1 ''b''), (1, Enqueue 1 1 ''c''), (150, Poll [1])];
        sl = self_limiter_new 0 (n_every 1 100)
    in collected (emits sample_timer 1) sample_timer es sl
         @ map it_value (parked_queue 1 (self_run sample_timer es sl))
       = collected (accepts sample_timer 1) sample_timer es sl)"
  unfolding Let_def
  by (rule parked_requests_fifo [THEN conjunct2, rule_format]) (simp_all add: self_limiter_new_def parked_queue_def)


text \<open>The tokens an event spends for a key. Seen through its limiter, every event of the throttle
  is at most one event of the keyed limiter.\<close>

fun spends :: "timer_fires \<Rightarrow> 'k \<Rightarrow> nat \<Rightarrow> ('k, 'v) self_event \<Rightarrow> ('k, 'v) self_limiter \<Rightarrow> nat" where
  "spends fires k clock (Enqueue key cost v) sl =
     (case fst (self_enqueue clock key cost v sl) of
        Inr (Some _) \<Rightarrow> if key = k then cost else 0 | _ \<Rightarrow> 0)"
| "spends fires k clock (Send key cost) sl =
     (case fst (try_send clock key cost sl) of Inr _ \<Rightarrow> if key = k then cost else 0 | Inl _ \<Rightarrow> 0)"
| "spends fires k clock (Poll order) sl =
     (case fst (poll_ready fires order clock sl) of
        Ready key v \<Rightarrow> if key = k then it_cost (hd (parked_queue k sl)) else 0 | Pending \<Rightarrow> 0)"
| "spends fires k clock _ sl = 0"

definition self_fire ::
  "timer_fires \<Rightarrow> 'k \<Rightarrow> nat \<Rightarrow> ('k, 'v) self_event \<Rightarrow> ('k, 'v) self_limiter \<Rightarrow> nat \<times> ('k, 'v) self_limiter" where
  "self_fire fires k clock e sl = (spends fires k clock e sl, self_apply fires clock e sl)"

lemma charge_event:
  "keyed_try_consume_n clock key n l = (a, l') \<Longrightarrow>
   limiter_fire k clock (Charge key n) l = (if key = k \<and> a = Inr () then n else 0, l')"
  by simp

lemma self_fire_limiter:
  assumes "self_fire fires k clock e sl = (g, sl')" and "keeps_key k e"
  shows "g = 0 \<and> sl_limiter sl' = sl_limiter sl \<or>
         (\<exists>ev. leaves_bucket k ev \<and> limiter_fire k clock ev (sl_limiter sl) = (g, sl_limiter sl'))"
proof (cases e)
  case (Enqueue key cost v)
  obtain r sl1 where step: "self_enqueue clock key cost v sl = (r, sl1)" by force
  then have sl': "sl' = sl1" and g: "g = spends fires k clock e sl"
    using Enqueue assms(1) by (simp_all add: self_fire_def)
  from step show ?thesis
  proof (cases rule: self_enqueue_cases)
    case admitted
    with charge_event [OF admitted(4), of k] show ?thesis
      by (intro disjI2 exI [of _ "Charge key cost"]) (simp add: sl' g Enqueue step del: limiter_fire.simps)
  next
    case (first d)
    with charge_event [OF first(3), of k] show ?thesis
      by (intro disjI2 exI [of _ "Charge key cost"]) (simp add: sl' g Enqueue step del: limiter_fire.simps)
  qed (simp_all add: sl' g Enqueue step)
next
  case (Send key cost)
  obtain a l where step: "keyed_try_consume_n clock key cost (sl_limiter sl) = (a, l)" by force
  have "sl_limiter sl' = l" "g = (if key = k \<and> a = Inr () then cost else 0)"
    using assms(1) Send step
    by (auto simp: self_fire_def try_send_def split: sum.splits rate_limited_err.splits)
  with charge_event [OF step, of k] show ?thesis
    by (intro disjI2 exI [of _ "Charge key cost"]) (simp del: limiter_fire.simps)
next
  case (Quota key q)
  then show ?thesis using assms by (intro disjI2 exI [of _ "SetQuota key q"]) (auto simp: self_fire_def)
next
  case (Disconnect key)
  then show ?thesis using assms by (intro disjI2 exI [of _ "Clear key"]) (auto simp: self_fire_def)
next
  case (Poll order)
  obtain r sl1 where step: "poll_ready fires order clock sl = (r, sl1)" by force
  then have sl': "sl' = sl1" and g: "g = spends fires k clock e sl"
    using Poll assms(1) by (simp_all add: self_fire_def)
  from step show ?thesis
  proof (cases rule: poll_ready_cases)
    case (served key item rest)
    with charge_event [OF served(2), of k] show ?thesis
      by (intro disjI2 exI [of _ "Charge key (it_cost item)"])
        (auto simp: sl' g Poll step simp del: limiter_fire.simps)
  next
    case (waits key item rest d)
    with charge_event [OF waits(2), of k] show ?thesis
      by (intro disjI2 exI [of _ "Charge key (it_cost item)"])
        (simp add: sl' g Poll step del: limiter_fire.simps)
  next
    case (dropped key item rest)
    with charge_event [OF dropped(2), of k] show ?thesis
      by (intro disjI2 exI [of _ "Charge key (it_cost item)"])
        (simp add: sl' g Poll step del: limiter_fire.simps)
  qed (simp add: sl' g Poll step)
qed

interpretation self: gcra_bucket "self_fire fires k" "keeps_key k"
  "\<lambda>sl. default_bucket k c init (sl_limiter sl)" "\<lambda>sl. key_tat k (sl_limiter sl)" "elapsed_nanos init" c
  for fires k c init
proof (unfold_locales, goal_cases)
  case 1 then show ?case by (rule elapsed_nanos_mono)
next
  case (2 s e clock g s')
  from self_fire_limiter [OF this(3,2)] show ?case
    using 2(1) by (auto simp del: limiter_fire.simps dest: keyed.fire_ok [OF 2(1)])
next
  case (3 s e clock g s')
  from self_fire_limiter [OF this(3,2)] show ?case
    by (auto simp del: limiter_fire.simps dest: keyed.fire_check [OF 3(1)])
qed

fun disconnects :: "'k \<Rightarrow> ('k, 'v) self_event \<Rightarrow> bool" where
  "disconnects k (Disconnect key) = (key = k)"
| "disconnects k _ = False"

fun keeps_quota :: "'k \<Rightarrow> ('k, 'v) self_event \<Rightarrow> bool" where
  "keeps_quota k (Quota key q) = (key \<noteq> k)"
| "keeps_quota k _ = True"

lemma keeps_quota_iff: "keeps_quota k e \<longleftrightarrow> keeps_key k e \<or> disconnects k e"
  by (cases e) auto

interpretation self_resets: gcra_reset_bucket "self_fire fires k" "keeps_key k"
  "\<lambda>sl. default_bucket k c init (sl_limiter sl)" "\<lambda>sl. key_tat k (sl_limiter sl)" "elapsed_nanos init" c
  "disconnects k"
  for fires k c init
proof (unfold_locales, goal_cases)
  case (1 s e clock g s')
  then show ?case by (cases e) (auto simp: self_fire_def default_bucket_cleared)
qed

text \<open>C34. The throttle never sends faster than the quota: over any window, the requests it lets
  through for one key, at once or after parking, cost at most the capacity of the bucket plus
  what is replenished during the window, and one more capacity for each disconnect of the
  key, as long as the key is on the throttle's own quota and that is not changed, and the
  clock is below its 64-bit range by a capacity.\<close>

theorem send_rate_bounded:
  assumes "key_cell k (sl_limiter sl) = krl_cell (sl_limiter sl)"
    and "timed_within a b (keeps_quota k) es"
    and "elapsed_nanos (krl_init (sl_limiter sl)) b + tau_nanos (krl_cell (sl_limiter sl)) < u64_max"
  shows "t_nanos (krl_cell (sl_limiter sl)) * granted (self_fire fires k) es sl
           \<le> (1 + length (filter (disconnects k \<circ> snd) es)) * tau_nanos (krl_cell (sl_limiter sl)) + (b - a)"
proof -
  have "default_bucket k (krl_cell (sl_limiter sl)) (krl_init (sl_limiter sl)) (sl_limiter sl)"
    using assms(1) by (simp add: default_bucket_def)
  from self_resets.granted_with_resets [OF this _ assms(3)] assms(2) show ?thesis
    using elapsed_nanos_diff [of "krl_init (sl_limiter sl)" b a] unfolding keeps_quota_iff [abs_def]
    by (meson add_left_mono le_trans)
qed

theorem send_rate_bounded_witness:
  "(let es = [(0, Enqueue (1::nat) 1 ''a''), (0, Enqueue 1 1 ''b''), (1, Disconnect 1), (150, Send 1 1)];
        sl = self_limiter_new 0 (n_every 1 100)
    in 100 * granted (self_fire sample_timer 1) es sl \<le> 2 * 100 + 200)"
  using send_rate_bounded [of "1::nat" "self_limiter_new 0 (n_every 1 100)" 0 200
      "[(0, Enqueue 1 1 ''a''), (0, Enqueue 1 1 ''b''), (1, Disconnect 1), (150, Send 1 1)]" sample_timer]
  by (simp add: self_limiter_new_def keyed_new_view timed_within_def cell_from_quota_def n_every_def
      elapsed_nanos_def Let_def del: granted.simps)

text \<open>Seen through its limiter, every event is at most one event of the limiter.\<close>

lemma self_apply_limiter:
  "sl_limiter (self_apply fires clock e sl) = sl_limiter sl \<or>
   (\<exists>ev. sl_limiter (self_apply fires clock e sl) = limiter_apply clock ev (sl_limiter sl))"
proof (cases "\<exists>key. e = Disconnect key \<or> (\<exists>q. e = Quota key q)")
  case True
  then show ?thesis
  proof (elim exE disjE)
    fix key assume "e = Disconnect key"
    then show ?thesis by (intro disjI2 exI [of _ "Clear key"]) simp
  next
    fix key q assume "e = Quota key q"
    then show ?thesis by (intro disjI2 exI [of _ "SetQuota key q"]) simp
  qed
next
  case False
  then have "keeps_key undefined e" by (cases e) auto
  from self_fire_limiter [OF self_fire_def [of fires undefined clock e sl] this]
  show ?thesis by (auto dest: sym)
qed

lemma tat_bounded_run:
  assumes "tat_bounded a (sl_limiter sl)" and "timed_within a b (\<lambda>_. True) es" and "a \<le> b"
  shows "tat_bounded b (sl_limiter (self_run fires es sl)) \<and>
         krl_init (sl_limiter (self_run fires es sl)) = krl_init (sl_limiter sl)"
  using assms
proof (induction es arbitrary: a sl)
  case (Cons ev es)
  obtain c e where ev: "ev = (c, e)" by force
  let ?sl = "self_apply fires c e sl"
  have c: "a \<le> c" "c \<le> b" "timed_within c b (\<lambda>_. True) es"
    using Cons.prems(2) by (auto simp: ev timed_within_Cons)
  have here: "tat_bounded c (sl_limiter sl)" by (rule tat_bounded_later [OF Cons.prems(1) c(1)])
  have step: "tat_bounded c (sl_limiter ?sl) \<and> krl_init (sl_limiter ?sl) = krl_init (sl_limiter sl)"
    using self_apply_limiter [of fires c e sl] here tat_bounded_apply [OF here] by auto
  then show ?case using Cons.IH [OF _ c(3,2), of ?sl] by (simp add: ev)
qed (auto intro: tat_bounded_later)

lemma tat_bounded_new: "tat_bounded clock (keyed_new init q)"
  by (simp add: tat_bounded_def keyed_new_view)

lemma first_parked:
  assumes "self_enqueue clock k cost v sl = (Inr None, sl')" and "fmlookup (sl_parked sl) k = None"
  obtains d l where "keyed_try_consume_n clock k cost (sl_limiter sl) = (Inl (TooSoon d), l)"
    "sl' = sl\<lparr>sl_limiter := l, sl_parked :=
       fmupd k \<lparr>pk_queue = [\<lparr>it_cost = cost, it_value = v\<rparr>], pk_timer = (clock, d)\<rparr> (sl_parked sl)\<rparr>"
proof -
  have "\<not> cost_exceeds_capacity clock k cost sl" using assms(1) by (auto simp: self_enqueue_def)
  then show ?thesis
    using assms that by (auto simp: self_enqueue_def split: prod.splits sum.splits rate_limited_err.splits)
qed

text \<open>A poll never hands back a request that its bucket refuses.\<close>

lemma refused_not_ready:
  assumes "parked_queue k sl = [item]" and "fst (keyed_try_consume_n clock k (it_cost item) (sl_limiter sl)) \<noteq> Inr ()"
  shows "fst (poll_ready fires order clock sl) \<noteq> Ready k w"
proof -
  obtain r sl' where step: "poll_ready fires order clock sl = (r, sl')" by force
  then show ?thesis by (cases rule: poll_ready_cases) (use assms step in auto)
qed

text \<open>C35. A parked request comes out when its tokens are there. In any history from a new throttle,
  when a request is the first parked for its key, the wait the limiter gave with the refusal is
  at most the replenishment time of the request's own cost. If nothing else happens to the
  throttle, a poll that visits the key first hands the request back exactly from the end of
  that wait on, and charges it then. The timer must fire once its time is up, and the clock
  stay within 64 bits since the throttle's start.\<close>

theorem parked_request_surfaces:
  assumes "timed_within init clock (\<lambda>_. True) es" and "init \<le> clock"
    and "sl = self_run fires es (self_limiter_new init q)"
    and "self_enqueue clock k cost v sl = (Inr None, sl')" and "fmlookup (sl_parked sl) k = None"
    and "\<And>t c. fst t + snd t \<le> c \<Longrightarrow> fires t c"
  shows "\<exists>d. fst (keyed_try_consume_n clock k cost (sl_limiter sl)) = Inl (TooSoon d) \<and>
             d \<le> t_nanos (key_cell k (sl_limiter sl)) * cost \<and>
             (\<forall>later. clock \<le> later \<longrightarrow> later - init \<le> u64_max \<longrightarrow>
                (fst (poll_ready fires (k # order) later sl') = Ready k v \<longleftrightarrow> clock + d \<le> later) \<and>
                (clock + d \<le> later \<longrightarrow>
                   keyed_try_consume_n later k cost (sl_limiter sl') =
                     (Inr (), sl_limiter (snd (poll_ready fires (k # order) later sl')))))"
proof -
  have run: "tat_bounded clock (sl_limiter sl)" "krl_init (sl_limiter sl) = init"
    using tat_bounded_run [OF _ assms(1,2), of "self_limiter_new init q" fires] assms(3)
    by (simp_all add: self_limiter_new_def tat_bounded_new keyed_new_view)
  obtain d l where refused: "keyed_try_consume_n clock k cost (sl_limiter sl) = (Inl (TooSoon d), l)"
    and sl': "sl' = sl\<lparr>sl_limiter := l, sl_parked :=
       fmupd k \<lparr>pk_queue = [\<lparr>it_cost = cost, it_value = v\<rparr>], pk_timer = (clock, d)\<rparr> (sl_parked sl)\<rparr>"
    using first_parked [OF assms(4,5)] by blast
  have exact: "fst (keyed_try_consume_n later k cost l) = Inr () \<longleftrightarrow> clock + d \<le> later"
    if "clock \<le> later" "later - init \<le> u64_max" for later
    using wait_hint_exact_run [OF refused, of "[]" later] that assms(2) run(2) by (simp add: limiter_run_def)
  have "(fst (poll_ready fires (k # order) later sl') = Ready k v \<longleftrightarrow> clock + d \<le> later) \<and>
        (clock + d \<le> later \<longrightarrow> keyed_try_consume_n later k cost (sl_limiter sl') =
           (Inr (), sl_limiter (snd (poll_ready fires (k # order) later sl'))))"
    if at: "clock \<le> later" "later - init \<le> u64_max" for later
  proof (cases "clock + d \<le> later")
    case True
    then obtain l' where "keyed_try_consume_n later k cost l = (Inr (), l')"
      using exact [OF at] by (metis prod.collapse)
    moreover have "timer_ready fires later sl' k" using assms(6) True by (simp add: timer_ready_def sl')
    ultimately show ?thesis using True by (simp add: poll_ready_def sl' pop_front_def)
  next
    case False
    have "parked_queue k sl' = [\<lparr>it_cost = cost, it_value = v\<rparr>]" by (simp add: sl')
    from refused_not_ready [OF this, of later fires "k # order" v] show ?thesis
      using False exact [OF at] by (simp add: sl')
  qed
  then show ?thesis using refused tat_bounded_refusal [OF run(1), of k cost d] by (intro exI [of _ d]) simp
qed

lemmas limiter_eval = self_limiter_new_def keyed_new_def cell_from_quota_def n_every_def elapsed_nanos_def
  keyed_try_consume_n_def gcra_check_def u64_saturating_mul_def u64_saturating_add_def

theorem parked_request_surfaces_witness:
  "(let sl = self_run sample_timer [(0, Enqueue (1::nat) 1 ''a'')] (self_limiter_new 0 (n_every 1 100));
        sl' = snd (self_enqueue 0 1 1 ''b'' sl)
    in \<exists>d. fst (keyed_try_consume_n 0 1 1 (sl_limiter sl)) = Inl (TooSoon d) \<and>
         (\<forall>later. later \<le> u64_max \<longrightarrow>
            (fst (poll_ready sample_timer [1] later sl') = Ready 1 ''b'' \<longleftrightarrow> d \<le> later)))"
proof -
  let ?sl = "self_run sample_timer [(0, Enqueue (1::nat) 1 ''a'')] (self_limiter_new 0 (n_every 1 100))"
  have within: "timed_within 0 0 (\<lambda>_. True) [(0, Enqueue (1::nat) 1 ''a'')]" by (simp add: timed_within_def)
  have first: "self_enqueue 0 (1::nat) 1 ''b'' ?sl = (Inr None, snd (self_enqueue 0 1 1 ''b'' ?sl))"
    by (simp add: self_enqueue_def cost_exceeds_capacity_def try_peek_def limiter_eval)
  have none: "fmlookup (sl_parked ?sl) 1 = None"
    by (simp add: self_enqueue_def cost_exceeds_capacity_def try_peek_def limiter_eval)
  have "sample_timer t c" if "fst t + snd t \<le> c" for t c using that by (simp add: sample_timer_def)
  from parked_request_surfaces [OF within le_refl refl first none this, of "[]"] show ?thesis
    unfolding Let_def by auto
qed

text \<open>A shrunk quota loses a parked request whose cost no longer fits the bucket.\<close>

lemma shrink_drops_parked:
  "(let sl = snd (self_enqueue 0 (1::nat) 4 ''a'' (self_limiter_new 0 (n_every 4 2000)));
        sl' = snd (self_enqueue 0 1 4 ''b'' sl);
        polled = poll_ready sample_timer [1] 5000 (set_quota 10 1 (n_every 2 1000) sl')
    in map it_value (parked_queue 1 sl') = [''b''] \<and>
       fst polled = Pending \<and> parked_queue 1 (snd polled) = [])"
  by (simp add: self_enqueue_def cost_exceeds_capacity_def try_peek_def limiter_eval poll_ready_def
      timer_ready_def sample_timer_def set_quota_def set_key_quota_def parked_queue_def pop_front_def
      rearm_or_remove_def)

end
