(* ===== verification/Peer_Registry.thy ===== *)
theory Peer_Registry
  imports Vertex_Prelude "HOL-Library.Finite_Map"
begin

text \<open>
  The connection registry of \<^verbatim>\<open>crates/net/peer/registry\<close>: a peer is tracked from the moment a
  connection exists, first under a pending key or the identity it was dialled for, then
  under the identity its handshake confirmed. Peers, connections, identities and reasons
  are types of the caller; an instant is a reading of the clock, taken as an argument.

  The two counters live beside the maps and are updated outside their lock; one call of
  an operation is one step here.
\<close>

section \<open>States and keys\<close>

datatype connection_direction = Outbound | Inbound

datatype ('i, 'p, 'c, 'r) connection_state =
    Connected 'p 'c "'i option" connection_direction nat 'r
  | Active 'p 'i 'c nat 'r

fun cs_reason :: "('i, 'p, 'c, 'r) connection_state \<Rightarrow> 'r" where
  "cs_reason (Connected _ _ _ _ _ reason) = reason"
| "cs_reason (Active _ _ _ _ reason) = reason"

fun cs_direction :: "('i, 'p, 'c, 'r) connection_state \<Rightarrow> connection_direction option" where
  "cs_direction (Connected _ _ _ direction _ _) = Some direction"
| "cs_direction (Active _ _ _ _ _) = None"

fun cs_id :: "('i, 'p, 'c, 'r) connection_state \<Rightarrow> 'i option" where
  "cs_id (Connected _ _ i _ _ _) = i"
| "cs_id (Active _ i _ _ _) = Some i"

fun cs_started_at :: "('i, 'p, 'c, 'r) connection_state \<Rightarrow> nat option" where
  "cs_started_at (Connected _ _ _ _ started_at _) = Some started_at"
| "cs_started_at (Active _ _ _ _ _) = None"

fun cs_peer_id :: "('i, 'p, 'c, 'r) connection_state \<Rightarrow> 'p" where
  "cs_peer_id (Connected peer_id _ _ _ _ _) = peer_id"
| "cs_peer_id (Active peer_id _ _ _ _) = peer_id"

fun cs_connection_id :: "('i, 'p, 'c, 'r) connection_state \<Rightarrow> 'c option" where
  "cs_connection_id (Connected _ connection_id _ _ _ _) = Some connection_id"
| "cs_connection_id (Active _ _ connection_id _ _) = Some connection_id"

fun cs_connected_at :: "('i, 'p, 'c, 'r) connection_state \<Rightarrow> nat option" where
  "cs_connected_at (Active _ _ _ connected_at _) = Some connected_at"
| "cs_connected_at (Connected _ _ _ _ _ _) = None"

fun is_active :: "('i, 'p, 'c, 'r) connection_state \<Rightarrow> bool" where
  "is_active (Active _ _ _ _ _) = True"
| "is_active (Connected _ _ _ _ _ _) = False"

fun is_pending :: "('i, 'p, 'c, 'r) connection_state \<Rightarrow> bool" where
  "is_pending (Connected _ _ _ _ _ _) = True"
| "is_pending (Active _ _ _ _ _) = False"

datatype ('i, 'p) registry_key = Known 'i | PendingKey 'p

datatype ('i, 'p, 'c) activate_result =
    Accepted
  | Replaced 'p 'c "'i option"

fun is_replaced :: "('i, 'p, 'c) activate_result \<Rightarrow> bool" where
  "is_replaced (Replaced _ _ _) = True"
| "is_replaced Accepted = False"

fun old_connection_id :: "('i, 'p, 'c) activate_result \<Rightarrow> 'c option" where
  "old_connection_id (Replaced _ c _) = Some c"
| "old_connection_id Accepted = None"

datatype ('i, 'p, 'c) replacement =
    ById 'p 'c "('i, 'p) registry_key option"
  | ByPeerId 'i 'c
  | NoReplacement "('i, 'p) registry_key option"

section \<open>The maps\<close>

record ('i, 'p, 'c, 'r) registry_maps =
  by_key :: "(('i, 'p) registry_key, ('i, 'p, 'c, 'r) connection_state) fmap"
  peer_to_key :: "('p, ('i, 'p) registry_key) fmap"
  conn_to_key :: "('c, ('i, 'p) registry_key) fmap"
  pending_by_time :: "(nat, ('i, 'p) registry_key fset) fmap"

definition maps_default :: "('i, 'p, 'c, 'r) registry_maps" where
  "maps_default =
     \<lparr>by_key = fmempty, peer_to_key = fmempty, conn_to_key = fmempty, pending_by_time = fmempty\<rparr>"

definition add_pending ::
  "nat \<Rightarrow> ('i, 'p) registry_key \<Rightarrow> ('i, 'p, 'c, 'r) registry_maps \<Rightarrow> ('i, 'p, 'c, 'r) registry_maps" where
  "add_pending started_at key m =
     (let keys = (case fmlookup (pending_by_time m) started_at of Some s \<Rightarrow> s | None \<Rightarrow> {||})
      in m\<lparr>pending_by_time := fmupd started_at (finsert key keys) (pending_by_time m)\<rparr>)"

definition remove_pending ::
  "nat \<Rightarrow> ('i, 'p) registry_key \<Rightarrow> ('i, 'p, 'c, 'r) registry_maps \<Rightarrow> ('i, 'p, 'c, 'r) registry_maps" where
  "remove_pending started_at key m =
     (case fmlookup (pending_by_time m) started_at of
        None \<Rightarrow> m
      | Some keys \<Rightarrow>
          (let keys' = keys |-| {|key|}
           in if keys' = {||} then m\<lparr>pending_by_time := fmdrop started_at (pending_by_time m)\<rparr>
              else m\<lparr>pending_by_time := fmupd started_at keys' (pending_by_time m)\<rparr>))"

definition maps_insert ::
  "('i, 'p) registry_key \<Rightarrow> ('i, 'p, 'c, 'r) connection_state \<Rightarrow>
     ('i, 'p, 'c, 'r) registry_maps \<Rightarrow> ('i, 'p, 'c, 'r) registry_maps" where
  "maps_insert key state m =
     (let m1 = m\<lparr>peer_to_key := fmupd (cs_peer_id state) key (peer_to_key m)\<rparr>;
          m2 = (case cs_connection_id state of
                  Some conn_id \<Rightarrow> m1\<lparr>conn_to_key := fmupd conn_id key (conn_to_key m1)\<rparr>
                | None \<Rightarrow> m1);
          m3 = (case cs_started_at state of
                  Some started_at \<Rightarrow> add_pending started_at key m2
                | None \<Rightarrow> m2)
      in m3\<lparr>by_key := fmupd key state (by_key m3)\<rparr>)"

definition remove_by_key ::
  "('i, 'p) registry_key \<Rightarrow> ('i, 'p, 'c, 'r) registry_maps \<Rightarrow>
     ('i, 'p, 'c, 'r) connection_state option \<times> ('i, 'p, 'c, 'r) registry_maps" where
  "remove_by_key key m =
     (case fmlookup (by_key m) key of
        None \<Rightarrow> (None, m)
      | Some state \<Rightarrow>
          (let m1 = m\<lparr>by_key := fmdrop key (by_key m)\<rparr>;
               m2 = (if fmlookup (peer_to_key m1) (cs_peer_id state) = Some key
                     then m1\<lparr>peer_to_key := fmdrop (cs_peer_id state) (peer_to_key m1)\<rparr> else m1);
               m3 = (case cs_connection_id state of
                       Some conn_id \<Rightarrow>
                         (if fmlookup (conn_to_key m2) conn_id = Some key
                          then m2\<lparr>conn_to_key := fmdrop conn_id (conn_to_key m2)\<rparr> else m2)
                     | None \<Rightarrow> m2);
               m4 = (case cs_started_at state of
                       Some started_at \<Rightarrow> remove_pending started_at key m3
                     | None \<Rightarrow> m3)
           in (Some state, m4)))"

definition remove_by_peer ::
  "'p \<Rightarrow> ('i, 'p, 'c, 'r) registry_maps \<Rightarrow>
     ('i, 'p, 'c, 'r) connection_state option \<times> ('i, 'p, 'c, 'r) registry_maps" where
  "remove_by_peer peer_id m =
     (case fmlookup (peer_to_key m) peer_id of
        None \<Rightarrow> (None, m)
      | Some key \<Rightarrow>
          (let m1 = m\<lparr>peer_to_key := fmdrop peer_id (peer_to_key m)\<rparr>
           in case fmlookup (by_key m1) key of
                None \<Rightarrow> (None, m1)
              | Some state \<Rightarrow>
                  (let m2 = m1\<lparr>by_key := fmdrop key (by_key m1)\<rparr>;
                       m3 = (case cs_connection_id state of
                               Some conn_id \<Rightarrow> m2\<lparr>conn_to_key := fmdrop conn_id (conn_to_key m2)\<rparr>
                             | None \<Rightarrow> m2);
                       m4 = (case cs_started_at state of
                               Some started_at \<Rightarrow> remove_pending started_at key m3
                             | None \<Rightarrow> m3)
                   in (Some state, m4))))"

section \<open>The registry\<close>

record ('i, 'p, 'c, 'r) peer_registry =
  reg_maps :: "('i, 'p, 'c, 'r) registry_maps"
  num_active :: nat
  num_pending :: nat

definition registry_new :: "('i, 'p, 'c, 'r) peer_registry" where
  "registry_new = \<lparr>reg_maps = maps_default, num_active = 0, num_pending = 0\<rparr>"

definition registry_get :: "('i, 'p, 'c, 'r) peer_registry \<Rightarrow> 'i \<Rightarrow> ('i, 'p, 'c, 'r) connection_state option" where
  "registry_get r i = fmlookup (by_key (reg_maps r)) (Known i)"

definition active_connection_id :: "('i, 'p, 'c, 'r) peer_registry \<Rightarrow> 'i \<Rightarrow> 'c option" where
  "active_connection_id r i =
     (case fmlookup (by_key (reg_maps r)) (Known i) of
        Some (Active _ _ connection_id _ _) \<Rightarrow> Some connection_id
      | _ \<Rightarrow> None)"

definition resolve_id :: "('i, 'p, 'c, 'r) peer_registry \<Rightarrow> 'p \<Rightarrow> 'i option" where
  "resolve_id r peer_id =
     (case fmlookup (peer_to_key (reg_maps r)) peer_id of
        Some (Known i) \<Rightarrow> Some i
      | _ \<Rightarrow> None)"

definition contains_peer :: "('i, 'p, 'c, 'r) peer_registry \<Rightarrow> 'p \<Rightarrow> bool" where
  "contains_peer r peer_id \<longleftrightarrow> fmlookup (peer_to_key (reg_maps r)) peer_id \<noteq> None"

definition resolve_peer_id :: "('i, 'p, 'c, 'r) peer_registry \<Rightarrow> 'i \<Rightarrow> 'p option" where
  "resolve_peer_id r i = map_option cs_peer_id (fmlookup (by_key (reg_maps r)) (Known i))"

definition get_by_peer_id :: "('i, 'p, 'c, 'r) peer_registry \<Rightarrow> 'p \<Rightarrow> ('i, 'p, 'c, 'r) connection_state option" where
  "get_by_peer_id r peer_id =
     (case fmlookup (peer_to_key (reg_maps r)) peer_id of
        None \<Rightarrow> None
      | Some key \<Rightarrow> fmlookup (by_key (reg_maps r)) key)"

definition connected_outbound ::
  "'p \<Rightarrow> 'c \<Rightarrow> 'i option \<Rightarrow> nat \<Rightarrow> 'r \<Rightarrow> ('i, 'p, 'c, 'r) peer_registry \<Rightarrow>
     ('i, 'p, 'c, 'r) connection_state option \<times> ('i, 'p, 'c, 'r) peer_registry" where
  "connected_outbound peer_id connection_id i started_at reason r =
     (let m = reg_maps r;
          key = (case i of Some known_id \<Rightarrow> Known known_id | None \<Rightarrow> PendingKey peer_id);
          state = Connected peer_id connection_id i Outbound started_at reason
      in if fmlookup (peer_to_key m) peer_id \<noteq> None then (None, r)
         else if i \<noteq> None \<and> fmlookup (by_key m) key \<noteq> None then (None, r)
         else (Some state,
               r\<lparr>reg_maps := maps_insert key state m,
                 num_pending := u64_wrapping_add (num_pending r) 1\<rparr>))"

definition connected_inbound ::
  "'r \<Rightarrow> nat \<Rightarrow> 'p \<Rightarrow> 'c \<Rightarrow> ('i, 'p, 'c, 'r) peer_registry \<Rightarrow>
     ('i, 'p, 'c, 'r) connection_state \<times> ('i, 'p, 'c, 'r) peer_registry" where
  "connected_inbound default_reason clock peer_id connection_id r =
     (let key = PendingKey peer_id;
          state = Connected peer_id connection_id None Inbound clock default_reason
      in (state,
          r\<lparr>reg_maps := maps_insert key state (reg_maps r),
            num_pending := u64_wrapping_add (num_pending r) 1\<rparr>))"

definition is_pending_key ::
  "('i, 'p, 'c, 'r) registry_maps \<Rightarrow> ('i, 'p) registry_key \<Rightarrow> ('i, 'p) registry_key option" where
  "is_pending_key m key =
     (case fmlookup (by_key m) key of
        Some state \<Rightarrow> if is_pending state then Some key else None
      | None \<Rightarrow> None)"

definition find_replacement ::
  "('i, 'p, 'c, 'r) registry_maps \<Rightarrow> 'i \<Rightarrow> 'p \<Rightarrow> ('i, 'p, 'c) replacement" where
  "find_replacement m i peer_id =
     (case fmlookup (by_key m) (Known i) of
        Some (Active active_peer_id _ active_conn_id _ _) \<Rightarrow>
          ById active_peer_id active_conn_id
            (case fmlookup (peer_to_key m) peer_id of
               Some k \<Rightarrow> if k \<noteq> Known i then is_pending_key m k else None
             | None \<Rightarrow> None)
      | _ \<Rightarrow>
          (case fmlookup (peer_to_key m) peer_id of
             Some (Known existing_id) \<Rightarrow>
               (if existing_id \<noteq> i then
                  (case fmlookup (by_key m) (Known existing_id) of
                     Some (Active _ _ connection_id _ _) \<Rightarrow> ByPeerId existing_id connection_id
                   | _ \<Rightarrow> NoReplacement (is_pending_key m (PendingKey peer_id)))
                else NoReplacement (is_pending_key m (PendingKey peer_id)))
           | _ \<Rightarrow> NoReplacement (is_pending_key m (PendingKey peer_id))))"

text \<open>Removing a key only if it is given; how many entries went, zero or one.\<close>

definition remove_opt ::
  "('i, 'p) registry_key option \<Rightarrow> ('i, 'p, 'c, 'r) registry_maps \<Rightarrow> nat \<times> ('i, 'p, 'c, 'r) registry_maps" where
  "remove_opt key m =
     (case key of
        None \<Rightarrow> (0, m)
      | Some k \<Rightarrow> (case remove_by_key k m of (Some _, m') \<Rightarrow> (1, m') | (None, m') \<Rightarrow> (0, m')))"

definition activate_maps ::
  "'r \<Rightarrow> nat \<Rightarrow> 'p \<Rightarrow> 'c \<Rightarrow> 'i \<Rightarrow> ('i, 'p, 'c, 'r) registry_maps \<Rightarrow>
     ('i, 'p, 'c) activate_result \<times> nat \<times> nat \<times> ('i, 'p, 'c, 'r) registry_maps" where
  "activate_maps default_reason clock peer_id connection_id i m =
     (let known_key = Known i;
          reason = (case Option.bind (fmlookup (peer_to_key m) peer_id) (fmlookup (by_key m)) of
                      Some state \<Rightarrow> cs_reason state
                    | None \<Rightarrow> default_reason);
          replacement = find_replacement m i peer_id;
          (old, m1) = remove_by_key known_key m;
          active0 = (case old of Some s \<Rightarrow> if is_active s then 1 else 0 | None \<Rightarrow> 0);
          pending0 = (case old of Some s \<Rightarrow> if is_active s then 0 else 1 | None \<Rightarrow> 0);
          (result, pending1, active1, m2) =
            (case replacement of
               ById old_peer_id old_conn_id pending_key \<Rightarrow>
                 (let (n, m') = remove_opt pending_key m1
                  in (Replaced old_peer_id old_conn_id None, n, 0, m'))
             | ByPeerId existing_id old_conn_id \<Rightarrow>
                 (let (n, m') = remove_opt (Some (Known existing_id)) m1
                  in (Replaced peer_id old_conn_id (Some existing_id), 0, n, m'))
             | NoReplacement pending_key \<Rightarrow>
                 (let (n, m') = remove_opt pending_key m1
                  in (Accepted, n, 0, m')));
          new_state = Active peer_id i connection_id clock reason
      in (result, pending0 + pending1, active0 + active1, maps_insert known_key new_state m2))"

definition activate ::
  "'r \<Rightarrow> nat \<Rightarrow> 'p \<Rightarrow> 'c \<Rightarrow> 'i \<Rightarrow> ('i, 'p, 'c, 'r) peer_registry \<Rightarrow>
     ('i, 'p, 'c) activate_result \<times> ('i, 'p, 'c, 'r) peer_registry" where
  "activate default_reason clock peer_id connection_id i r =
     (let (result, pending_removed, active_removed, m) =
            activate_maps default_reason clock peer_id connection_id i (reg_maps r);
          active' = u64_wrapping_add (num_active r) 1
      in (result,
          r\<lparr>reg_maps := m,
            num_active := (if 0 < active_removed then u64_wrapping_sub active' active_removed else active'),
            num_pending := (if 0 < pending_removed then u64_wrapping_sub (num_pending r) pending_removed
                            else num_pending r)\<rparr>))"

text \<open>\<open>visit\<close> is the order in which a hash map or a hash set is iterated.\<close>

definition active_ids ::
  "(('i, 'p) registry_key fset \<Rightarrow> ('i, 'p) registry_key list) \<Rightarrow> ('i, 'p, 'c, 'r) peer_registry \<Rightarrow> 'i list" where
  "active_ids visit r =
     List.map_filter
       (\<lambda>key. case key of
                Known i \<Rightarrow> (case fmlookup (by_key (reg_maps r)) key of
                              Some state \<Rightarrow> if is_active state then Some i else None
                            | None \<Rightarrow> None)
              | PendingKey _ \<Rightarrow> None)
       (visit (fmdom (by_key (reg_maps r))))"

definition active_count :: "('i, 'p, 'c, 'r) peer_registry \<Rightarrow> nat" where
  "active_count r = num_active r"

definition pending_count :: "('i, 'p, 'c, 'r) peer_registry \<Rightarrow> nat" where
  "pending_count r = num_pending r"

definition stale_pending ::
  "(('i, 'p) registry_key fset \<Rightarrow> ('i, 'p) registry_key list) \<Rightarrow> nat \<Rightarrow> nat \<Rightarrow>
     ('i, 'p, 'c, 'r) peer_registry \<Rightarrow> 'p list" where
  "stale_pending visit clock timeout r =
     (if clock < timeout then []
      else
        (let cutoff = clock - timeout;
             m = reg_maps r;
             times = filter (\<lambda>t. t \<le> cutoff) (sorted_list_of_fset (fmdom (pending_by_time m)));
             keys = concat (map (\<lambda>t. case fmlookup (pending_by_time m) t of Some ks \<Rightarrow> visit ks | None \<Rightarrow> []) times)
         in List.map_filter (\<lambda>key. map_option cs_peer_id (fmlookup (by_key m) key)) keys))"

definition disconnected ::
  "'p \<Rightarrow> ('i, 'p, 'c, 'r) peer_registry \<Rightarrow>
     ('i, 'p, 'c, 'r) connection_state option \<times> ('i, 'p, 'c, 'r) peer_registry" where
  "disconnected peer_id r =
     (let (state, m) = remove_by_peer peer_id (reg_maps r);
          r' = r\<lparr>reg_maps := m\<rparr>
      in (state,
          case state of
            Some (Active _ _ _ _ _) \<Rightarrow> r'\<lparr>num_active := u64_wrapping_sub (num_active r) 1\<rparr>
          | Some (Connected _ _ _ _ _ _) \<Rightarrow> r'\<lparr>num_pending := u64_wrapping_sub (num_pending r) 1\<rparr>
          | None \<Rightarrow> r'))"


section \<open>The maps agree\<close>

text \<open>The secondary maps hold exactly what the states under \<^const>\<open>by_key\<close> say, no two states share
  a peer or a connection, and each state fits its key.\<close>

definition pending_at :: "('i, 'p, 'c, 'r) registry_maps \<Rightarrow> nat \<Rightarrow> ('i, 'p) registry_key fset" where
  "pending_at m t = (case fmlookup (pending_by_time m) t of Some ks \<Rightarrow> ks | None \<Rightarrow> {||})"

fun fits_key :: "('i, 'p) registry_key \<Rightarrow> ('i, 'p, 'c, 'r) connection_state \<Rightarrow> bool" where
  "fits_key (Known i) s \<longleftrightarrow> cs_id s = Some i"
| "fits_key (PendingKey p) s \<longleftrightarrow> is_pending s \<and> cs_id s = None \<and> cs_peer_id s = p"

definition maps_ok :: "('i, 'p, 'c, 'r) registry_maps \<Rightarrow> bool" where
  "maps_ok m \<longleftrightarrow>
     (\<forall>p k. fmlookup (peer_to_key m) p = Some k \<longleftrightarrow>
        (\<exists>s. fmlookup (by_key m) k = Some s \<and> cs_peer_id s = p)) \<and>
     (\<forall>c k. fmlookup (conn_to_key m) c = Some k \<longleftrightarrow>
        (\<exists>s. fmlookup (by_key m) k = Some s \<and> cs_connection_id s = Some c)) \<and>
     (\<forall>t k. k |\<in>| pending_at m t \<longleftrightarrow>
        (\<exists>s. fmlookup (by_key m) k = Some s \<and> cs_started_at s = Some t)) \<and>
     (\<forall>t. fmlookup (pending_by_time m) t \<noteq> Some {||}) \<and>
     (\<forall>k s. fmlookup (by_key m) k = Some s \<longrightarrow> fits_key k s)"

lemma maps_okI:
  assumes "\<And>p k. fmlookup (peer_to_key m) p = Some k \<longleftrightarrow>
        (\<exists>s. fmlookup (by_key m) k = Some s \<and> cs_peer_id s = p)"
    and "\<And>c k. fmlookup (conn_to_key m) c = Some k \<longleftrightarrow>
        (\<exists>s. fmlookup (by_key m) k = Some s \<and> cs_connection_id s = Some c)"
    and "\<And>t k. k |\<in>| pending_at m t \<longleftrightarrow>
        (\<exists>s. fmlookup (by_key m) k = Some s \<and> cs_started_at s = Some t)"
    and "\<And>t. fmlookup (pending_by_time m) t \<noteq> Some {||}"
    and "\<And>k s. fmlookup (by_key m) k = Some s \<Longrightarrow> fits_key k s"
  shows "maps_ok m"
  using assms unfolding maps_ok_def by blast

lemma maps_okD:
  assumes "maps_ok m"
  shows "fmlookup (peer_to_key m) p = Some k \<longleftrightarrow> (\<exists>s. fmlookup (by_key m) k = Some s \<and> cs_peer_id s = p)"
    and "fmlookup (conn_to_key m) c = Some k \<longleftrightarrow>
           (\<exists>s. fmlookup (by_key m) k = Some s \<and> cs_connection_id s = Some c)"
    and "k |\<in>| pending_at m t \<longleftrightarrow> (\<exists>s. fmlookup (by_key m) k = Some s \<and> cs_started_at s = Some t)"
    and "fmlookup (pending_by_time m) t \<noteq> Some {||}"
    and "fmlookup (by_key m) k = Some s \<Longrightarrow> fits_key k s"
  using assms unfolding maps_ok_def by blast+

lemma maps_ok_default: "maps_ok maps_default"
  by (simp add: maps_ok_def maps_default_def pending_at_def)

lemma cs_connection_id_Some: "\<exists>c. cs_connection_id s = Some c"
  by (cases s) auto

lemma pending_simps [simp]:
  "by_key (add_pending t k m) = by_key m" "peer_to_key (add_pending t k m) = peer_to_key m"
  "conn_to_key (add_pending t k m) = conn_to_key m"
  "by_key (remove_pending t k m) = by_key m" "peer_to_key (remove_pending t k m) = peer_to_key m"
  "conn_to_key (remove_pending t k m) = conn_to_key m"
  by (simp_all add: add_pending_def remove_pending_def Let_def split: option.splits)

lemma pending_at_upd [simp]:
  "pending_at (m\<lparr>by_key := a\<rparr>) t = pending_at m t" "pending_at (m\<lparr>peer_to_key := b\<rparr>) t = pending_at m t"
  "pending_at (m\<lparr>conn_to_key := c\<rparr>) t = pending_at m t"
  by (simp_all add: pending_at_def)

lemma pending_at_add [simp]:
  "pending_at (add_pending t k m) t' = (if t' = t then finsert k (pending_at m t) else pending_at m t')"
  by (simp add: add_pending_def pending_at_def Let_def)

lemma pending_at_remove [simp]:
  "pending_at (remove_pending t k m) t' = (if t' = t then pending_at m t |-| {|k|} else pending_at m t')"
  by (auto simp: remove_pending_def pending_at_def Let_def split: option.splits)

lemma no_empty_add:
  "\<forall>t. fmlookup (pending_by_time m) t \<noteq> Some {||} \<Longrightarrow>
   fmlookup (pending_by_time (add_pending t k m)) t' \<noteq> Some {||}"
  by (simp add: add_pending_def Let_def)

lemma no_empty_remove:
  "\<forall>t. fmlookup (pending_by_time m) t \<noteq> Some {||} \<Longrightarrow>
   fmlookup (pending_by_time (remove_pending t k m)) t' \<noteq> Some {||}"
  by (auto simp: remove_pending_def Let_def split: option.splits if_splits)

lemma by_key_insert [simp]: "by_key (maps_insert k s m) = fmupd k s (by_key m)"
  by (simp add: maps_insert_def Let_def split: option.splits)

lemma peer_to_key_insert [simp]: "peer_to_key (maps_insert k s m) = fmupd (cs_peer_id s) k (peer_to_key m)"
  by (simp add: maps_insert_def Let_def split: option.splits)

lemma maps_ok_insert:
  assumes ok: "maps_ok m" and fresh: "fmlookup (by_key m) k = None"
    and p: "fmlookup (peer_to_key m) (cs_peer_id s) = None"
    and c: "\<And>c. cs_connection_id s = Some c \<Longrightarrow> fmlookup (conn_to_key m) c = None"
    and fits: "fits_key k s"
  shows "maps_ok (maps_insert k s m)"
proof -
  obtain conn where conn: "cs_connection_id s = Some conn" using cs_connection_id_Some [of s] by auto
  have peers: "cs_peer_id s' \<noteq> cs_peer_id s" if "fmlookup (by_key m) k' = Some s'" for k' s'
    using p that maps_okD(1) [OF ok, of "cs_peer_id s" k'] by auto
  have conns: "cs_connection_id s' \<noteq> Some conn" if "fmlookup (by_key m) k' = Some s'" for k' s'
    using c [OF conn] that maps_okD(2) [OF ok, of conn k'] by auto
  show ?thesis
  proof (rule maps_okI)
    fix p k'
    show "fmlookup (peer_to_key (maps_insert k s m)) p = Some k' \<longleftrightarrow>
        (\<exists>s'. fmlookup (by_key (maps_insert k s m)) k' = Some s' \<and> cs_peer_id s' = p)"
      using peers [of k'] fresh maps_okD(1) [OF ok, of p k']
      by (cases "k' = k"; cases "p = cs_peer_id s") auto
  next
    fix c' k'
    have "conn_to_key (maps_insert k s m) = fmupd conn k (conn_to_key m)"
      by (simp add: maps_insert_def Let_def conn split: option.splits)
    then show "fmlookup (conn_to_key (maps_insert k s m)) c' = Some k' \<longleftrightarrow>
        (\<exists>s'. fmlookup (by_key (maps_insert k s m)) k' = Some s' \<and> cs_connection_id s' = Some c')"
      using conns [of k'] conn fresh maps_okD(2) [OF ok, of c' k']
      by (cases "k' = k"; cases "c' = conn") auto
  next
    fix t k'
    have "pending_at (maps_insert k s m) t =
        (if cs_started_at s = Some t then finsert k (pending_at m t) else pending_at m t)"
      by (auto simp: maps_insert_def Let_def conn split: option.splits)
    then show "k' |\<in>| pending_at (maps_insert k s m) t \<longleftrightarrow>
        (\<exists>s'. fmlookup (by_key (maps_insert k s m)) k' = Some s' \<and> cs_started_at s' = Some t)"
      using fresh maps_okD(3) [OF ok, of k' t] by (cases "k' = k") auto
  next
    fix t
    have "\<forall>t. fmlookup (pending_by_time m) t \<noteq> Some {||}" using maps_okD(4) [OF ok] by blast
    then show "fmlookup (pending_by_time (maps_insert k s m)) t \<noteq> Some {||}"
      by (auto simp: maps_insert_def Let_def conn no_empty_add split: option.splits)
  next
    fix k' s'
    show "fmlookup (by_key (maps_insert k s m)) k' = Some s' \<Longrightarrow> fits_key k' s'"
      using fits maps_okD(5) [OF ok, of k' s'] by (cases "k' = k") auto
  qed
qed


lemma remove_by_key_ok:
  assumes ok: "maps_ok m" and rm: "remove_by_key k m = (old, m')"
  shows "maps_ok m'" and "old = fmlookup (by_key m) k"
    and "fmlookup (by_key m') k' = (if k' = k then None else fmlookup (by_key m) k')"
proof -
  have all: "maps_ok m' \<and> old = fmlookup (by_key m) k \<and> by_key m' = fmdrop k (by_key m)"
  proof (cases "fmlookup (by_key m) k")
    case None
    moreover have "fmdrop k (by_key m) = by_key m" by (rule fmap_ext) (simp add: None)
    ultimately show ?thesis using rm ok by (auto simp: remove_by_key_def)
  next
    case (Some s)
    obtain conn where conn: "cs_connection_id s = Some conn" using cs_connection_id_Some [of s] by auto
    have p: "fmlookup (peer_to_key m) (cs_peer_id s) = Some k" using maps_okD(1) [OF ok] Some by blast
    have c: "fmlookup (conn_to_key m) conn = Some k" using maps_okD(2) [OF ok] Some conn by blast
    let ?m3 = "m\<lparr>by_key := fmdrop k (by_key m), peer_to_key := fmdrop (cs_peer_id s) (peer_to_key m),
                 conn_to_key := fmdrop conn (conn_to_key m)\<rparr>"
    have res: "old = Some s" "m' = (case cs_started_at s of Some t \<Rightarrow> remove_pending t k ?m3 | None \<Rightarrow> ?m3)"
      using rm p c by (cases "cs_started_at s"; simp add: remove_by_key_def Let_def Some conn)+
    have eqs: "by_key m' = fmdrop k (by_key m)" "peer_to_key m' = fmdrop (cs_peer_id s) (peer_to_key m)"
      "conn_to_key m' = fmdrop conn (conn_to_key m)"
      by (simp_all add: res(2) split: option.splits)
    have times: "pending_at m' t = (if cs_started_at s = Some t then pending_at m t |-| {|k|} else pending_at m t)" for t
      by (auto simp: res(2) split: option.splits)
    have "maps_ok m'"
    proof (rule maps_okI)
      fix p' k'
      show "fmlookup (peer_to_key m') p' = Some k' \<longleftrightarrow>
          (\<exists>s'. fmlookup (by_key m') k' = Some s' \<and> cs_peer_id s' = p')"
        using maps_okD(1) [OF ok, of p' k'] maps_okD(1) [OF ok, of "cs_peer_id s" k'] p Some
        by (cases "k' = k"; cases "p' = cs_peer_id s") (auto simp: eqs)
    next
      fix c' k'
      show "fmlookup (conn_to_key m') c' = Some k' \<longleftrightarrow>
          (\<exists>s'. fmlookup (by_key m') k' = Some s' \<and> cs_connection_id s' = Some c')"
        using maps_okD(2) [OF ok, of c' k'] maps_okD(2) [OF ok, of conn k'] c conn Some
        by (cases "k' = k"; cases "c' = conn") (auto simp: eqs)
    next
      fix t k'
      show "k' |\<in>| pending_at m' t \<longleftrightarrow>
          (\<exists>s'. fmlookup (by_key m') k' = Some s' \<and> cs_started_at s' = Some t)"
        using maps_okD(3) [OF ok, of k' t] Some by (cases "k' = k") (auto simp: eqs times)
    next
      fix t
      have "\<forall>t. fmlookup (pending_by_time ?m3) t \<noteq> Some {||}" using maps_okD(4) [OF ok] by simp
      then show "fmlookup (pending_by_time m') t \<noteq> Some {||}"
        using no_empty_remove [of ?m3 _ k t] by (auto simp: res(2) split: option.splits)
    next
      fix k' s'
      show "fmlookup (by_key m') k' = Some s' \<Longrightarrow> fits_key k' s'"
        using maps_okD(5) [OF ok, of k' s'] by (auto simp: eqs split: if_splits)
    qed
    then show ?thesis using res eqs Some by simp
  qed
  then show "maps_ok m'" and "old = fmlookup (by_key m) k"
    and "fmlookup (by_key m') k' = (if k' = k then None else fmlookup (by_key m) k')"
    by auto
qed

text \<open>In consistent maps, removing by peer is removing by the peer's key.\<close>

lemma remove_by_peer_key:
  assumes ok: "maps_ok m" and k: "fmlookup (peer_to_key m) p = Some k"
  shows "remove_by_peer p m = remove_by_key k m"
proof -
  obtain s where s: "fmlookup (by_key m) k = Some s" "cs_peer_id s = p" using maps_okD(1) [OF ok] k by blast
  obtain conn where conn: "cs_connection_id s = Some conn" using cs_connection_id_Some [of s] by auto
  have "fmlookup (conn_to_key m) conn = Some k" using maps_okD(2) [OF ok] s conn by blast
  then show ?thesis
    using s k conn
    by (cases m; cases "cs_started_at s") (simp_all add: remove_by_peer_def remove_by_key_def Let_def)
qed

section \<open>Counting\<close>

definition count_states :: "(('i, 'p, 'c, 'r) connection_state \<Rightarrow> bool) \<Rightarrow> ('i, 'p, 'c, 'r) registry_maps \<Rightarrow> nat" where
  "count_states P m = card {k. \<exists>s. fmlookup (by_key m) k = Some s \<and> P s}"

lemma finite_states: "finite {k. \<exists>s. fmlookup (by_key m) k = Some s \<and> P s}"
  by (rule finite_subset [of _ "fset (fmdom (by_key m))"]) (auto intro: fmdomI)

lemma count_states_split:
  assumes "fmlookup (by_key m) k = Some s"
    and "\<And>k'. fmlookup (by_key m') k' = (if k' = k then None else fmlookup (by_key m) k')"
  shows "count_states P m = count_states P m' + (if P s then 1 else 0)"
proof -
  let ?S = "\<lambda>m. {k. \<exists>s. fmlookup (by_key m) k = Some s \<and> P s}"
  have "?S m = (if P s then insert k (?S m') else ?S m')" and "k \<notin> ?S m'"
    using assms by (auto split: if_splits)
  then show ?thesis
    using finite_states [of m' P] unfolding count_states_def by (simp del: mem_Collect_eq)
qed

lemma count_states_insert:
  assumes "fmlookup (by_key m) k = None"
  shows "count_states P (maps_insert k s m) = count_states P m + (if P s then 1 else 0)"
  using assms by (intro count_states_split [of _ k s]) auto

lemma count_states_remove:
  assumes "maps_ok m" and "remove_by_key k m = (old, m')"
  shows "count_states P m = count_states P m' + (case old of Some s \<Rightarrow> if P s then 1 else 0 | None \<Rightarrow> 0)"
proof (cases old)
  case None
  then have "m' = m" using assms by (auto simp: remove_by_key_def Let_def split: option.splits)
  then show ?thesis using None by simp
next
  case (Some s)
  then show ?thesis
    using count_states_split [of m k s m' P] remove_by_key_ok [OF assms] by simp
qed


section \<open>Every operation keeps the registry consistent\<close>

definition registry_ok :: "('i, 'p, 'c, 'r) peer_registry \<Rightarrow> bool" where
  "registry_ok r \<longleftrightarrow>
     maps_ok (reg_maps r) \<and>
     num_active r = count_states is_active (reg_maps r) mod u64_modulus \<and>
     num_pending r = count_states is_pending (reg_maps r) mod u64_modulus"

definition conn_fresh :: "'c \<Rightarrow> ('i, 'p, 'c, 'r) peer_registry \<Rightarrow> bool" where
  "conn_fresh c r \<longleftrightarrow> fmlookup (conn_to_key (reg_maps r)) c = None"

lemma registry_ok_new: "registry_ok registry_new"
  using maps_ok_default by (simp add: registry_ok_def registry_new_def count_states_def maps_default_def)

lemma registry_ok_connected:
  assumes "registry_ok r" and "conn_fresh c r" and "\<not> contains_peer r p"
    and "fmlookup (by_key (reg_maps r)) k = None"
    and "fits_key k (Connected p c i d t x)"
  shows "registry_ok (r\<lparr>reg_maps := maps_insert k (Connected p c i d t x) (reg_maps r),
           num_pending := u64_wrapping_add (num_pending r) 1\<rparr>)"
proof -
  have "maps_ok (maps_insert k (Connected p c i d t x) (reg_maps r))"
    using assms by (intro maps_ok_insert) (simp_all add: registry_ok_def conn_fresh_def contains_peer_def)
  then show ?thesis
    using assms u64_wrapping_add_mod [of _ 1] by (simp add: registry_ok_def count_states_insert)
qed

lemma pending_key_of_peer:
  assumes "maps_ok m" and "fmlookup (peer_to_key m) p = None"
  shows "fmlookup (by_key m) (PendingKey p) = None"
proof (rule ccontr)
  assume "\<not> ?thesis"
  then obtain s where s: "fmlookup (by_key m) (PendingKey p) = Some s" by auto
  from maps_okD(5) [OF assms(1) s] have "cs_peer_id s = p" by simp
  then show False using maps_okD(1) [OF assms(1), of p "PendingKey p"] s assms(2) by auto
qed

lemma registry_ok_outbound:
  assumes "registry_ok r" and "conn_fresh c r"
  shows "registry_ok (snd (connected_outbound p c i t x r))"
proof -
  let ?key = "case i of Some known_id \<Rightarrow> Known known_id | None \<Rightarrow> PendingKey p"
  let ?state = "Connected p c i Outbound t x"
  have "registry_ok (r\<lparr>reg_maps := maps_insert ?key ?state (reg_maps r),
           num_pending := u64_wrapping_add (num_pending r) 1\<rparr>)"
    if "fmlookup (peer_to_key (reg_maps r)) p = None" "i \<noteq> None \<Longrightarrow> fmlookup (by_key (reg_maps r)) ?key = None"
  proof (rule registry_ok_connected [OF assms])
    show "fmlookup (by_key (reg_maps r)) ?key = None"
      using that assms(1) by (cases i) (auto simp: registry_ok_def pending_key_of_peer)
    show "fits_key ?key ?state" by (cases i) auto
  qed (simp add: contains_peer_def that)
  then show ?thesis using assms(1) by (cases i) (auto simp: connected_outbound_def Let_def)
qed

lemma registry_ok_inbound:
  assumes "registry_ok r" and "conn_fresh c r" and "\<not> contains_peer r p"
  shows "registry_ok (snd (connected_inbound x clock p c r))"
  using registry_ok_connected [OF assms, of "PendingKey p" None Inbound clock x] assms
  by (simp add: connected_inbound_def Let_def pending_key_of_peer registry_ok_def contains_peer_def)

lemma registry_ok_disconnected:
  assumes "registry_ok r"
  shows "registry_ok (snd (disconnected p r))"
proof (cases "fmlookup (peer_to_key (reg_maps r)) p")
  case None
  then show ?thesis using assms by (simp add: disconnected_def remove_by_peer_def)
next
  case (Some k)
  have ok: "maps_ok (reg_maps r)" using assms by (simp add: registry_ok_def)
  obtain old m' where rm: "remove_by_key k (reg_maps r) = (old, m')" by force
  obtain s where "old = Some s"
    using maps_okD(1) [OF ok, of p k] Some remove_by_key_ok(2) [OF ok rm] by auto
  then show ?thesis
    using assms remove_by_key_ok(1) [OF ok rm] count_states_remove [OF ok rm, of is_active]
      count_states_remove [OF ok rm, of is_pending]
    by (cases s)
      (simp_all add: registry_ok_def disconnected_def remove_by_peer_key [OF ok Some] rm u64_wrapping_sub_mod)
qed

text \<open>When a handshake may be activated: the peer's own entry, if it has one under another
  identity, is pending exactly when the confirmed identity is already active, and the
  connection is not that of a third entry.\<close>

definition id_active :: "('i, 'p, 'c, 'r) registry_maps \<Rightarrow> 'i \<Rightarrow> bool" where
  "id_active m i = (case fmlookup (by_key m) (Known i) of Some s \<Rightarrow> is_active s | None \<Rightarrow> False)"

definition activate_ok :: "'p \<Rightarrow> 'c \<Rightarrow> 'i \<Rightarrow> ('i, 'p, 'c, 'r) peer_registry \<Rightarrow> bool" where
  "activate_ok p c i r =
     (let m = reg_maps r
      in (case fmlookup (peer_to_key m) p of
            Some (Known j) \<Rightarrow>
              j = i \<or> (case fmlookup (by_key m) (Known j) of
                         Some s \<Rightarrow> is_active s \<noteq> id_active m i | None \<Rightarrow> True)
          | _ \<Rightarrow> True) \<and>
         (case fmlookup (conn_to_key m) c of
            None \<Rightarrow> True
          | Some k \<Rightarrow> k = Known i \<or> fmlookup (peer_to_key m) p = Some k))"

lemma remove_opt_ok:
  assumes ok: "maps_ok m" and rm: "remove_opt ko m = (n, m')"
  shows "maps_ok m'"
    and "fmlookup (by_key m') k = (if ko = Some k then None else fmlookup (by_key m) k)"
    and "count_states P m = count_states P m' +
           (case ko of None \<Rightarrow> 0 | Some k \<Rightarrow>
              (case fmlookup (by_key m) k of Some s \<Rightarrow> if P s then 1 else 0 | None \<Rightarrow> 0))"
    and "n = (case ko of None \<Rightarrow> 0 | Some k \<Rightarrow> if fmlookup (by_key m) k = None then 0 else 1)"
proof -
  have "maps_ok m' \<and> fmlookup (by_key m') k = (if ko = Some k then None else fmlookup (by_key m) k) \<and>
    count_states P m = count_states P m' +
           (case ko of None \<Rightarrow> 0 | Some k \<Rightarrow>
              (case fmlookup (by_key m) k of Some s \<Rightarrow> if P s then 1 else 0 | None \<Rightarrow> 0)) \<and>
    n = (case ko of None \<Rightarrow> 0 | Some k \<Rightarrow> if fmlookup (by_key m) k = None then 0 else 1)"
  proof (cases ko)
    case None
    then show ?thesis using ok rm by (simp add: remove_opt_def)
  next
    case (Some k')
    obtain old m1 where step: "remove_by_key k' m = (old, m1)" by force
    then have "m' = m1" "n = (if old = None then 0 else 1)"
      using rm Some by (auto simp: remove_opt_def split: option.splits)
    then show ?thesis
      using Some remove_by_key_ok [OF ok step] count_states_remove [OF ok step, of P] by auto
  qed
  then show "maps_ok m'"
    and "fmlookup (by_key m') k = (if ko = Some k then None else fmlookup (by_key m) k)"
    and "count_states P m = count_states P m' +
           (case ko of None \<Rightarrow> 0 | Some k \<Rightarrow>
              (case fmlookup (by_key m) k of Some s \<Rightarrow> if P s then 1 else 0 | None \<Rightarrow> 0))"
    and "n = (case ko of None \<Rightarrow> 0 | Some k \<Rightarrow> if fmlookup (by_key m) k = None then 0 else 1)"
    by simp_all
qed


text \<open>What activation takes away: the entry of the confirmed identity and the peer's own entry,
  nothing else.\<close>

definition own_key :: "('i, 'p, 'c, 'r) registry_maps \<Rightarrow> 'p \<Rightarrow> 'i \<Rightarrow> ('i, 'p) registry_key option" where
  "own_key m p i =
     (case fmlookup (peer_to_key m) p of Some k \<Rightarrow> if k = Known i then None else Some k | None \<Rightarrow> None)"

lemma own_key_state:
  assumes ok: "maps_ok (reg_maps r)" and act: "activate_ok p c i r" and k: "own_key (reg_maps r) p i = Some k"
  obtains s where "fmlookup (by_key (reg_maps r)) k = Some s" "cs_peer_id s = p"
    "is_pending s \<longleftrightarrow> k = PendingKey p \<or> id_active (reg_maps r) i"
proof -
  have kp: "fmlookup (peer_to_key (reg_maps r)) p = Some k" "k \<noteq> Known i"
    using k by (auto simp: own_key_def split: option.splits if_splits)
  then obtain s where s: "fmlookup (by_key (reg_maps r)) k = Some s" "cs_peer_id s = p"
    using maps_okD(1) [OF ok, of p k] by auto
  have "fits_key k s" by (rule maps_okD(5) [OF ok s(1)])
  then have "is_pending s \<longleftrightarrow> k = PendingKey p \<or> id_active (reg_maps r) i"
    using act kp s by (cases k; cases s) (auto simp: activate_ok_def Let_def)
  with s show ?thesis by (rule that)
qed

lemma is_pending_not_active: "is_pending s \<longleftrightarrow> \<not> is_active s"
  by (cases s) auto

lemma find_replacement_inactive:
  "\<not> id_active m i \<Longrightarrow> find_replacement m i p =
     (case fmlookup (peer_to_key m) p of
        Some (Known existing_id) \<Rightarrow>
          (if existing_id \<noteq> i then
             (case fmlookup (by_key m) (Known existing_id) of
                Some (Active _ _ connection_id _ _) \<Rightarrow> ByPeerId existing_id connection_id
              | _ \<Rightarrow> NoReplacement (is_pending_key m (PendingKey p)))
           else NoReplacement (is_pending_key m (PendingKey p)))
      | _ \<Rightarrow> NoReplacement (is_pending_key m (PendingKey p)))"
  by (cases "fmlookup (by_key m) (Known i)")
    (auto simp: find_replacement_def id_active_def split: connection_state.splits)

lemma replacement_cases:
  assumes ok: "maps_ok (reg_maps r)" and act: "activate_ok p c i r"
  obtains (by_id) q d where "find_replacement (reg_maps r) i p = ById q d (own_key (reg_maps r) p i)"
      "id_active (reg_maps r) i"
  | (by_peer) j d where "find_replacement (reg_maps r) i p = ByPeerId j d"
      "own_key (reg_maps r) p i = Some (Known j)" "\<not> id_active (reg_maps r) i"
  | (none) "find_replacement (reg_maps r) i p = NoReplacement (own_key (reg_maps r) p i)"
      "\<not> id_active (reg_maps r) i" "\<And>k. own_key (reg_maps r) p i = Some k \<Longrightarrow> k = PendingKey p"
proof (cases "id_active (reg_maps r) i")
  case True
  then obtain q i' d t x where a: "fmlookup (by_key (reg_maps r)) (Known i) = Some (Active q i' d t x)"
    unfolding id_active_def by (auto split: option.splits elim: is_active.elims)
  have "find_replacement (reg_maps r) i p = ById q d (own_key (reg_maps r) p i)"
  proof (cases "own_key (reg_maps r) p i")
    case None
    then show ?thesis by (auto simp: find_replacement_def a own_key_def split: option.splits if_splits)
  next
    case (Some k)
    obtain s where "fmlookup (by_key (reg_maps r)) k = Some s" "is_pending s"
      using own_key_state [OF ok act Some] True by blast
    then show ?thesis
      using Some by (auto simp: find_replacement_def a own_key_def is_pending_key_def split: option.splits if_splits)
  qed
  then show ?thesis using True by (rule by_id)
next
  case False
  note fr = find_replacement_inactive [OF False]
  have pk: "is_pending_key (reg_maps r) (PendingKey p) =
      (if fmlookup (peer_to_key (reg_maps r)) p = Some (PendingKey p) then Some (PendingKey p) else None)"
  proof (cases "fmlookup (by_key (reg_maps r)) (PendingKey p)")
    case None
    then show ?thesis using maps_okD(1) [OF ok, of p "PendingKey p"] by (simp add: is_pending_key_def)
  next
    case (Some s)
    then show ?thesis
      using maps_okD(1) [OF ok, of p "PendingKey p"] maps_okD(5) [OF ok Some] by (simp add: is_pending_key_def)
  qed
  consider (other) j where "own_key (reg_maps r) p i = Some (Known j)"
    | (pend) q where "own_key (reg_maps r) p i = Some (PendingKey q)" | (no) "own_key (reg_maps r) p i = None"
    by (metis not_None_eq registry_key.exhaust)
  then show ?thesis
  proof cases
    case other
    then have j: "fmlookup (peer_to_key (reg_maps r)) p = Some (Known j)" "j \<noteq> i"
      by (auto simp: own_key_def split: option.splits if_splits)
    obtain s where s: "fmlookup (by_key (reg_maps r)) (Known j) = Some s" "is_active s"
      using own_key_state [OF ok act other] False by (auto simp: is_pending_not_active)
    then obtain q i' d t x where "s = Active q i' d t x" by (cases s) auto
    then have "find_replacement (reg_maps r) i p = ByPeerId j d" using j s by (simp add: fr)
    then show ?thesis using other False by (rule by_peer)
  next
    case pend
    obtain s where "fmlookup (by_key (reg_maps r)) (PendingKey q) = Some s" "cs_peer_id s = p"
      using own_key_state [OF ok act pend] by blast
    then have "q = p" using maps_okD(5) [OF ok] by fastforce
    then have "fmlookup (peer_to_key (reg_maps r)) p = Some (PendingKey p)"
      using pend by (auto simp: own_key_def split: option.splits if_splits)
    then show ?thesis
      using pend \<open>q = p\<close> False by (intro none) (simp_all add: fr pk)
  next
    case no
    then have "fmlookup (peer_to_key (reg_maps r)) p \<in> {None, Some (Known i)}"
      by (auto simp: own_key_def split: option.splits if_splits)
    then show ?thesis
      using no False by (intro none) (auto simp: fr pk)
  qed
qed


lemma count_entry:
  assumes "maps_ok m" and "remove_by_key (Known i) m = (old, m1)" and "k \<noteq> Some (Known i)"
    and "remove_opt k m1 = (n, m2)"
  shows "maps_ok m2"
    and "fmlookup (by_key m2) k' = (if k' = Known i \<or> k = Some k' then None else fmlookup (by_key m) k')"
    and "count_states P m = count_states P m2 +
           (case old of Some s \<Rightarrow> if P s then 1 else 0 | None \<Rightarrow> 0) +
           (case k of None \<Rightarrow> 0 | Some k \<Rightarrow>
              (case fmlookup (by_key m) k of Some s \<Rightarrow> if P s then 1 else 0 | None \<Rightarrow> 0))"
    and "n = (case k of None \<Rightarrow> 0 | Some k \<Rightarrow> if fmlookup (by_key m) k = None then 0 else 1)"
proof -
  note r1 = remove_by_key_ok [OF assms(1,2)]
  note r2 = remove_opt_ok [OF r1(1) assms(4)]
  show "maps_ok m2" by (rule r2(1))
  show "fmlookup (by_key m2) k' = (if k' = Known i \<or> k = Some k' then None else fmlookup (by_key m) k')"
    using r1(3) r2(2) [of k'] by simp
  show "count_states P m = count_states P m2 +
           (case old of Some s \<Rightarrow> if P s then 1 else 0 | None \<Rightarrow> 0) +
           (case k of None \<Rightarrow> 0 | Some k \<Rightarrow>
              (case fmlookup (by_key m) k of Some s \<Rightarrow> if P s then 1 else 0 | None \<Rightarrow> 0))"
    using count_states_remove [OF assms(1,2), of P] r2(3) [of P] assms(3) r1(3) by (cases k) auto
  show "n = (case k of None \<Rightarrow> 0 | Some k \<Rightarrow> if fmlookup (by_key m) k = None then 0 else 1)"
    using r2(4) r1(3) assms(3) by (cases k) auto
qed

definition activation_reason :: "'r \<Rightarrow> 'p \<Rightarrow> ('i, 'p, 'c, 'r) registry_maps \<Rightarrow> 'r" where
  "activation_reason default_reason p m =
     (case Option.bind (fmlookup (peer_to_key m) p) (fmlookup (by_key m)) of
        Some state \<Rightarrow> cs_reason state | None \<Rightarrow> default_reason)"

lemma activate_maps_spec:
  assumes ok: "maps_ok (reg_maps r)" and act: "activate_ok p c i r"
  obtains result np na m2 where
    "activate_maps x clock p c i (reg_maps r) =
       (result, np, na, maps_insert (Known i) (Active p i c clock (activation_reason x p (reg_maps r))) m2)"
    "maps_ok m2"
    "\<And>k. fmlookup (by_key m2) k =
       (if k = Known i \<or> own_key (reg_maps r) p i = Some k then None else fmlookup (by_key (reg_maps r)) k)"
    "count_states is_active (reg_maps r) = count_states is_active m2 + na"
    "count_states is_pending (reg_maps r) = count_states is_pending m2 + np"
    "is_replaced result \<longleftrightarrow> id_active (reg_maps r) i \<or> (\<exists>j. own_key (reg_maps r) p i = Some (Known j))"
proof -
  let ?m = "reg_maps r" and ?own = "own_key (reg_maps r) p i"
  obtain old m1 where r1: "remove_by_key (Known i) ?m = (old, m1)" by force
  obtain n m2 where r2: "remove_opt ?own m1 = (n, m2)" by force
  have "?own \<noteq> Some (Known i)" by (auto simp: own_key_def split: option.splits if_splits)
  note spec = count_entry [OF ok r1 this r2]
  have old: "old = fmlookup (by_key ?m) (Known i)" by (rule remove_by_key_ok(2) [OF ok r1])
  define oa where "oa = (case old of Some s \<Rightarrow> if is_active s then 1 else (0::nat) | None \<Rightarrow> 0)"
  define op where "op = (case old of Some s \<Rightarrow> if is_active s then 0 else (1::nat) | None \<Rightarrow> 0)"
  have own_counts: "count_states is_active ?m = count_states is_active m2 + oa + (if a then n else 0) \<and>
      count_states is_pending ?m = count_states is_pending m2 + op + (if a then 0 else n)"
    if "\<And>k. ?own = Some k \<Longrightarrow> \<exists>s. fmlookup (by_key ?m) k = Some s \<and> is_active s = a" for a
    using spec(3) [of is_active] spec(3) [of is_pending] spec(4) that
    by (cases ?own; cases old) (auto simp: oa_def op_def is_pending_not_active)
  have state: "\<exists>s. fmlookup (by_key ?m) k = Some s \<and> (is_active s \<longleftrightarrow> k \<noteq> PendingKey p \<and> \<not> id_active ?m i)"
    if "?own = Some k" for k
    using own_key_state [OF ok act that] by (auto simp: is_pending_not_active)
  show ?thesis
    using ok act
  proof (cases rule: replacement_cases)
    case (by_id q d)
    have "count_states is_active ?m = count_states is_active m2 + oa \<and>
        count_states is_pending ?m = count_states is_pending m2 + (op + n)"
      using own_counts [of False] state by_id(2) by auto
    moreover have "activate_maps x clock p c i ?m = (Replaced q d None, op + n, oa,
        maps_insert (Known i) (Active p i c clock (activation_reason x p ?m)) m2)"
      by (simp add: activate_maps_def Let_def r1 r2 by_id(1) oa_def op_def activation_reason_def)
    ultimately show ?thesis using spec(1,2) by_id(2) by (intro that) auto
  next
    case (by_peer j d)
    have "count_states is_active ?m = count_states is_active m2 + (oa + n) \<and>
        count_states is_pending ?m = count_states is_pending m2 + op"
      using own_counts [of True] state by_peer(2,3) by auto
    moreover have "activate_maps x clock p c i ?m = (Replaced p d (Some j), op, oa + n,
        maps_insert (Known i) (Active p i c clock (activation_reason x p ?m)) m2)"
      using r2 by_peer(2)
      by (simp add: activate_maps_def Let_def r1 by_peer(1) oa_def op_def activation_reason_def)
    ultimately show ?thesis using spec(1,2) by_peer(2) by (intro that) auto
  next
    case none
    have "count_states is_active ?m = count_states is_active m2 + oa \<and>
        count_states is_pending ?m = count_states is_pending m2 + (op + n)"
      using own_counts [of False] state none(3) by auto
    moreover have "activate_maps x clock p c i ?m = (Accepted, op + n, oa,
        maps_insert (Known i) (Active p i c clock (activation_reason x p ?m)) m2)"
      by (simp add: activate_maps_def Let_def r1 r2 none(1) oa_def op_def activation_reason_def)
    ultimately show ?thesis using spec(1,2) none(2,3) by (intro that) auto
  qed
qed


lemma activated_maps_ok:
  assumes ok: "maps_ok (reg_maps r)" and act: "activate_ok p c i r" and m2: "maps_ok m2"
    and kept: "\<And>k. fmlookup (by_key m2) k =
       (if k = Known i \<or> own_key (reg_maps r) p i = Some k then None else fmlookup (by_key (reg_maps r)) k)"
  shows "maps_ok (maps_insert (Known i) (Active p i c clock x) m2)"
proof (rule maps_ok_insert [OF m2])
  show "fmlookup (by_key m2) (Known i) = None" using kept by simp
  show "fmlookup (peer_to_key m2) (cs_peer_id (Active p i c clock x)) = None"
  proof (rule ccontr)
    assume "\<not> ?thesis"
    then obtain k s where "fmlookup (by_key m2) k = Some s" "cs_peer_id s = p"
      using maps_okD(1) [OF m2, of p] by auto
    then have "k \<noteq> Known i" "own_key (reg_maps r) p i \<noteq> Some k" "fmlookup (by_key (reg_maps r)) k = Some s"
      using kept [of k] by (auto split: if_splits)
    then show False
      using maps_okD(1) [OF ok, of p k] \<open>cs_peer_id s = p\<close> by (auto simp: own_key_def)
  qed
  fix c'
  assume "cs_connection_id (Active p i c clock x) = Some c'"
  then have c': "c' = c" by simp
  show "fmlookup (conn_to_key m2) c' = None"
  proof (rule ccontr)
    assume "\<not> ?thesis"
    then obtain k s where "fmlookup (by_key m2) k = Some s" "cs_connection_id s = Some c"
      using maps_okD(2) [OF m2, of c] c' by auto
    then have "k \<noteq> Known i" "own_key (reg_maps r) p i \<noteq> Some k" "fmlookup (by_key (reg_maps r)) k = Some s"
      using kept [of k] by (auto split: if_splits)
    then show False
      using maps_okD(2) [OF ok, of c k] \<open>cs_connection_id s = Some c\<close> act
      by (auto simp: own_key_def activate_ok_def Let_def)
  qed
qed simp

lemma wrapping_sub_if:
  "b \<le> a \<Longrightarrow> (if 0 < b then u64_wrapping_sub (a mod u64_modulus) b else a mod u64_modulus)
     = (a - b) mod u64_modulus"
  by (cases "b = 0") (simp_all only: u64_wrapping_sub_mod, simp_all)

lemma registry_ok_activate:
  assumes "registry_ok r" and act: "activate_ok p c i r"
  shows "registry_ok (snd (activate x clock p c i r))"
proof -
  have ok: "maps_ok (reg_maps r)" using assms(1) by (simp add: registry_ok_def)
  obtain result np na m2 where spec:
    "activate_maps x clock p c i (reg_maps r) =
       (result, np, na, maps_insert (Known i) (Active p i c clock (activation_reason x p (reg_maps r))) m2)"
    "maps_ok m2"
    "\<And>k. fmlookup (by_key m2) k =
       (if k = Known i \<or> own_key (reg_maps r) p i = Some k then None else fmlookup (by_key (reg_maps r)) k)"
    "count_states is_active (reg_maps r) = count_states is_active m2 + na"
    "count_states is_pending (reg_maps r) = count_states is_pending m2 + np"
    "is_replaced result \<longleftrightarrow> id_active (reg_maps r) i \<or> (\<exists>j. own_key (reg_maps r) p i = Some (Known j))"
    by (rule activate_maps_spec [OF ok act, where x = x and clock = clock]) (rule that)
  have fresh: "fmlookup (by_key m2) (Known i) = None" using spec(3) by simp
  have nums: "num_active r = (count_states is_active m2 + na) mod u64_modulus"
    "num_pending r = (count_states is_pending m2 + np) mod u64_modulus"
    using assms(1) spec(4,5) by (simp_all only: registry_ok_def)
  have active: "(if 0 < na then u64_wrapping_sub (u64_wrapping_add (num_active r) 1) na
        else u64_wrapping_add (num_active r) 1) = (count_states is_active m2 + 1) mod u64_modulus"
    using wrapping_sub_if [of na "count_states is_active m2 + na + 1"]
    by (simp only: nums u64_wrapping_add_mod) simp
  have pending: "(if 0 < np then u64_wrapping_sub (num_pending r) np else num_pending r)
        = count_states is_pending m2 mod u64_modulus"
    using wrapping_sub_if [of np "count_states is_pending m2 + np"] by (simp only: nums) simp
  have "maps_ok (maps_insert (Known i) (Active p i c clock (activation_reason x p (reg_maps r))) m2)"
    by (rule activated_maps_ok [OF ok act spec(2,3)])
  then show ?thesis
    unfolding activate_def spec(1) Let_def case_prod_conv active pending
    by (simp add: registry_ok_def count_states_insert [OF fresh])
qed

section \<open>What every history keeps\<close>

text \<open>Without any order among the calls, an inbound connection of a tracked peer or a handshake
  under another identity than the dialled one leaves an entry behind that no peer points to.
  The links that remain: a peer points to an entry of that peer, an entry under a pending key is
  pointed to, and each state fits its key.\<close>

definition linked :: "('i, 'p, 'c, 'r) registry_maps \<Rightarrow> bool" where
  "linked m \<longleftrightarrow>
     (\<forall>p k. fmlookup (peer_to_key m) p = Some k \<longrightarrow> (\<exists>s. fmlookup (by_key m) k = Some s \<and> cs_peer_id s = p)) \<and>
     (\<forall>p s. fmlookup (by_key m) (PendingKey p) = Some s \<longrightarrow> fmlookup (peer_to_key m) p = Some (PendingKey p)) \<and>
     (\<forall>k s. fmlookup (by_key m) k = Some s \<longrightarrow> fits_key k s)"

lemma linkedI:
  assumes "\<And>p k. fmlookup (peer_to_key m) p = Some k \<Longrightarrow> \<exists>s. fmlookup (by_key m) k = Some s \<and> cs_peer_id s = p"
    and "\<And>p s. fmlookup (by_key m) (PendingKey p) = Some s \<Longrightarrow> fmlookup (peer_to_key m) p = Some (PendingKey p)"
    and "\<And>k s. fmlookup (by_key m) k = Some s \<Longrightarrow> fits_key k s"
  shows "linked m"
  using assms unfolding linked_def by blast

lemma linkedD:
  assumes "linked m"
  shows "fmlookup (peer_to_key m) p = Some k \<Longrightarrow> \<exists>s. fmlookup (by_key m) k = Some s \<and> cs_peer_id s = p"
    and "fmlookup (by_key m) (PendingKey p) = Some s \<Longrightarrow> fmlookup (peer_to_key m) p = Some (PendingKey p)"
    and "fmlookup (by_key m) k = Some s \<Longrightarrow> fits_key k s"
  using assms unfolding linked_def by blast+

lemma remove_by_key_by_key:
  assumes "remove_by_key k m = (old, m')"
  shows "old = fmlookup (by_key m) k" and "by_key m' = fmdrop k (by_key m)"
proof -
  have "fmdrop k (by_key m) = by_key m" if "fmlookup (by_key m) k = None"
    by (rule fmap_ext) (simp add: that)
  then show "old = fmlookup (by_key m) k" and "by_key m' = fmdrop k (by_key m)"
    using assms by (auto simp: remove_by_key_def Let_def split: option.splits if_splits)
qed

lemma remove_by_key_peers:
  assumes ok: "linked m" and rm: "remove_by_key k m = (old, m')"
  shows "fmlookup (peer_to_key m') p = (if fmlookup (peer_to_key m) p = Some k then None else fmlookup (peer_to_key m) p)"
proof (cases "fmlookup (by_key m) k")
  case None
  then have "fmlookup (peer_to_key m) p \<noteq> Some k" using linkedD(1) [OF ok, of p k] by auto
  then show ?thesis using rm None by (simp add: remove_by_key_def)
next
  case (Some s)
  have "peer_to_key m' = (if fmlookup (peer_to_key m) (cs_peer_id s) = Some k
      then fmdrop (cs_peer_id s) (peer_to_key m) else peer_to_key m)"
  proof -
    have "m' = snd (remove_by_key k m)" by (simp add: rm)
    then show ?thesis
      by (cases "cs_connection_id s"; cases "cs_started_at s") (simp_all add: remove_by_key_def Some Let_def)
  qed
  moreover have "p \<noteq> cs_peer_id s \<Longrightarrow> fmlookup (peer_to_key m) p \<noteq> Some k"
    using linkedD(1) [OF ok, of p k] Some by auto
  ultimately show ?thesis by (cases "p = cs_peer_id s") simp_all
qed

lemma linked_remove:
  assumes ok: "linked m" and rm: "remove_by_key k m = (old, m')"
  shows "linked m'"
proof (rule linkedI)
  note b = remove_by_key_by_key(2) [OF rm] and q = remove_by_key_peers [OF ok rm]
  show "\<exists>s. fmlookup (by_key m') k' = Some s \<and> cs_peer_id s = p" if "fmlookup (peer_to_key m') p = Some k'" for p k'
    using that linkedD(1) [OF ok, of p k'] by (auto simp: b q split: if_splits)
  show "fmlookup (peer_to_key m') p = Some (PendingKey p)" if "fmlookup (by_key m') (PendingKey p) = Some s" for p s
    using that linkedD(2) [OF ok, of p s] by (auto simp: b q split: if_splits)
  show "fits_key k' s" if "fmlookup (by_key m') k' = Some s" for k' s
    using that linkedD(3) [OF ok, of k' s] by (auto simp: b split: if_splits)
qed

lemma linked_insert:
  assumes ok: "linked m" and k: "k = PendingKey (cs_peer_id s) \<or> fmlookup (by_key m) (PendingKey (cs_peer_id s)) = None"
    and free: "\<And>p. p \<noteq> cs_peer_id s \<Longrightarrow> fmlookup (peer_to_key m) p \<noteq> Some k" and fits: "fits_key k s"
  shows "linked (maps_insert k s m)"
proof (rule linkedI)
  show "\<exists>s'. fmlookup (by_key (maps_insert k s m)) k' = Some s' \<and> cs_peer_id s' = p"
    if "fmlookup (peer_to_key (maps_insert k s m)) p = Some k'" for p k'
    using that linkedD(1) [OF ok, of p k'] free [of p] by (auto split: if_splits)
  show "fmlookup (peer_to_key (maps_insert k s m)) p = Some (PendingKey p)"
    if "fmlookup (by_key (maps_insert k s m)) (PendingKey p) = Some s'" for p s'
    using that linkedD(2) [OF ok, of p s'] k fits by (auto split: if_splits)
  show "fits_key k' s'" if "fmlookup (by_key (maps_insert k s m)) k' = Some s'" for k' s'
    using that linkedD(3) [OF ok, of k' s'] fits by (auto split: if_splits)
qed

lemma count_states_drop:
  assumes "remove_by_key k m = (old, m')"
  shows "count_states P m = count_states P m' + (case old of Some s \<Rightarrow> if P s then 1 else 0 | None \<Rightarrow> 0)"
proof (cases old)
  case None
  then have "m' = m" using assms by (auto simp: remove_by_key_def Let_def split: option.splits)
  then show ?thesis using None by simp
next
  case (Some s)
  then show ?thesis
    using count_states_split [of m k s m' P] remove_by_key_by_key [OF assms] by simp
qed

lemma count_states_overwrite:
  "count_states P (maps_insert k s m)
    + (case fmlookup (by_key m) k of Some s' \<Rightarrow> if P s' then 1 else 0 | None \<Rightarrow> 0)
   = count_states P m + (if P s then 1 else 0)"
proof -
  define m0 where "m0 = m\<lparr>by_key := fmdrop k (by_key m)\<rparr>"
  have "count_states P (maps_insert k s m) = count_states P m0 + (if P s then 1 else 0)"
    by (rule count_states_split) (auto simp: m0_def)
  moreover have "count_states P m = count_states P m0
      + (case fmlookup (by_key m) k of Some s' \<Rightarrow> if P s' then 1 else 0 | None \<Rightarrow> 0)"
  proof (cases "fmlookup (by_key m) k")
    case None
    then have "fmdrop k (by_key m) = by_key m" by (intro fmap_ext) simp
    then show ?thesis using None by (simp add: m0_def)
  next
    case (Some s')
    then show ?thesis using count_states_split [of m k s' m0 P] by (simp add: m0_def)
  qed
  ultimately show ?thesis by simp
qed

text \<open>The entry of the peer that an activation takes away besides that of the confirmed identity:
  the peer's own if it is under the pending key, or if exactly one of it and the entry of the
  confirmed identity is active.\<close>

definition taken_key :: "('i, 'p, 'c, 'r) registry_maps \<Rightarrow> 'p \<Rightarrow> 'i \<Rightarrow> ('i, 'p) registry_key option" where
  "taken_key m p i =
     (case own_key m p i of
        None \<Rightarrow> None
      | Some k \<Rightarrow>
          (case fmlookup (by_key m) k of
             None \<Rightarrow> None
           | Some s \<Rightarrow> if k = PendingKey p \<or> is_active s \<noteq> id_active m i then Some k else None))"

lemma pending_key_iff:
  assumes "linked m"
  shows "is_pending_key m (PendingKey p)
    = (if fmlookup (peer_to_key m) p = Some (PendingKey p) then Some (PendingKey p) else None)"
  using linkedD(1) [OF assms, of p "PendingKey p"] linkedD(2,3) [OF assms]
  by (cases "fmlookup (by_key m) (PendingKey p)") (fastforce simp: is_pending_key_def)+

lemma own_pending:
  assumes "linked m" and "fmlookup (peer_to_key m) p = Some (PendingKey q)"
  shows "q = p"
  using linkedD(1) [OF assms] linkedD(3) [OF assms(1)] by fastforce

lemma find_replacement_taken:
  assumes ok: "linked m"
  obtains (by_id) q d where "find_replacement m i p = ById q d (taken_key m p i)" "id_active m i"
      "\<And>k s. taken_key m p i = Some k \<Longrightarrow> fmlookup (by_key m) k = Some s \<Longrightarrow> is_pending s"
  | (by_peer) j d where "find_replacement m i p = ByPeerId j d" "taken_key m p i = Some (Known j)" "\<not> id_active m i"
      "\<And>s. fmlookup (by_key m) (Known j) = Some s \<Longrightarrow> is_active s"
  | (none) "find_replacement m i p = NoReplacement (taken_key m p i)" "\<not> id_active m i"
      "\<And>k. taken_key m p i = Some k \<Longrightarrow> k = PendingKey p"
proof (cases "id_active m i")
  case True
  then obtain q i' d t x where a: "fmlookup (by_key m) (Known i) = Some (Active q i' d t x)"
    unfolding id_active_def by (auto split: option.splits elim: is_active.elims)
  have pend: "is_pending s" if "fmlookup (by_key m) (PendingKey q) = Some s" for q s
    using linkedD(3) [OF ok that] by simp
  have "find_replacement m i p = ById q d (taken_key m p i)"
    using True pend own_pending [OF ok]
    by (auto simp: find_replacement_def a taken_key_def own_key_def is_pending_key_def is_pending_not_active
        split: option.splits registry_key.splits)
  moreover have "is_pending s" if "taken_key m p i = Some k" "fmlookup (by_key m) k = Some s" for k s
    using that True pend by (auto simp: taken_key_def is_pending_not_active split: option.splits if_splits)
  ultimately show thesis using True by (intro by_id)
next
  case False
  note fr = find_replacement_inactive [OF False]
  note pk = pending_key_iff [OF ok, of p]
  consider (other) j where "fmlookup (peer_to_key m) p = Some (Known j)" "j \<noteq> i"
    | (pend) "fmlookup (peer_to_key m) p = Some (PendingKey p)"
    | (no) "fmlookup (peer_to_key m) p \<in> {None, Some (Known i)}"
    using own_pending [OF ok] by (metis insertCI not_None_eq registry_key.exhaust)
  then show thesis
  proof cases
    case other
    then obtain s where s: "fmlookup (by_key m) (Known j) = Some s" using linkedD(1) [OF ok] by blast
    show thesis
    proof (cases s)
      case (Connected a b e f g h)
      then show thesis using other s False by (intro none) (simp_all add: fr pk taken_key_def own_key_def)
    next
      case (Active a b e f g)
      then show thesis using other s False by (intro by_peer) (auto simp: fr taken_key_def own_key_def)
    qed
  next
    case pend
    then show thesis
      using False linkedD(1) [OF ok pend] by (intro none) (auto simp: fr pk taken_key_def own_key_def)
  next
    case no
    then show thesis using False by (intro none) (auto simp: fr pk taken_key_def own_key_def)
  qed
qed


lemma remove_opt_any:
  assumes ok: "linked m" and rm: "remove_opt ko m = (n, m')"
  shows "linked m'" and "fmlookup (by_key m') k = (if ko = Some k then None else fmlookup (by_key m) k)"
    and "fmlookup (peer_to_key m') p
      = (if ko \<noteq> None \<and> fmlookup (peer_to_key m) p = ko then None else fmlookup (peer_to_key m) p)"
    and "count_states P m = count_states P m' +
           (case ko of None \<Rightarrow> 0 | Some k \<Rightarrow>
              (case fmlookup (by_key m) k of Some s \<Rightarrow> if P s then 1 else 0 | None \<Rightarrow> 0))"
    and "n = (case ko of None \<Rightarrow> 0 | Some k \<Rightarrow> if fmlookup (by_key m) k = None then 0 else 1)"
proof -
  have all: "linked m' \<and> fmlookup (by_key m') k = (if ko = Some k then None else fmlookup (by_key m) k)
    \<and> fmlookup (peer_to_key m') p
      = (if ko \<noteq> None \<and> fmlookup (peer_to_key m) p = ko then None else fmlookup (peer_to_key m) p)
    \<and> count_states P m = count_states P m' +
           (case ko of None \<Rightarrow> 0 | Some k \<Rightarrow>
              (case fmlookup (by_key m) k of Some s \<Rightarrow> if P s then 1 else 0 | None \<Rightarrow> 0))
    \<and> n = (case ko of None \<Rightarrow> 0 | Some k \<Rightarrow> if fmlookup (by_key m) k = None then 0 else 1)"
  proof (cases ko)
    case None
    then show ?thesis using ok rm by (simp add: remove_opt_def)
  next
    case (Some k')
    obtain old m1 where step: "remove_by_key k' m = (old, m1)" by force
    then have "m' = m1" "n = (if old = None then 0 else 1)"
      using rm Some by (auto simp: remove_opt_def split: option.splits)
    then show ?thesis
      using Some linked_remove [OF ok step] remove_by_key_by_key [OF step] remove_by_key_peers [OF ok step, of p]
        count_states_drop [OF step, of P] by simp
  qed
  then show "linked m'" and "fmlookup (by_key m') k = (if ko = Some k then None else fmlookup (by_key m) k)"
    and "fmlookup (peer_to_key m') p
      = (if ko \<noteq> None \<and> fmlookup (peer_to_key m) p = ko then None else fmlookup (peer_to_key m) p)"
    and "count_states P m = count_states P m' +
           (case ko of None \<Rightarrow> 0 | Some k \<Rightarrow>
              (case fmlookup (by_key m) k of Some s \<Rightarrow> if P s then 1 else 0 | None \<Rightarrow> 0))"
    and "n = (case ko of None \<Rightarrow> 0 | Some k \<Rightarrow> if fmlookup (by_key m) k = None then 0 else 1)"
    by simp_all
qed

lemma taken_key_own:
  assumes "taken_key m p i = Some k"
  shows "own_key m p i = Some k" and "k \<noteq> Known i" and "fmlookup (by_key m) k \<noteq> None"
  using assms by (auto simp: taken_key_def own_key_def split: option.splits if_splits)

text \<open>What an activation does to the maps, in every history.\<close>

lemma activate_maps_any:
  assumes ok: "linked m"
  obtains result np na m2 where
    "activate_maps x clock p c i m =
       (result, np, na, maps_insert (Known i) (Active p i c clock (activation_reason x p m)) m2)"
    "linked m2"
    "\<And>k. fmlookup (by_key m2) k =
       (if k = Known i \<or> taken_key m p i = Some k then None else fmlookup (by_key m) k)"
    "\<And>q. fmlookup (peer_to_key m2) q \<noteq> Some (Known i)"
    "fmlookup (by_key m2) (PendingKey p) = None"
    "count_states is_active m = count_states is_active m2 + na"
    "count_states is_pending m = count_states is_pending m2 + np"
    "is_replaced result \<longleftrightarrow> id_active m i \<or> (\<exists>j. taken_key m p i = Some (Known j))"
proof -
  let ?t = "taken_key m p i"
  obtain old m1 where r1: "remove_by_key (Known i) m = (old, m1)" by force
  obtain n m2 where r2: "remove_opt ?t m1 = (n, m2)" by force
  have l1: "linked m1" by (rule linked_remove [OF ok r1])
  note b1 = remove_by_key_by_key [OF r1] and o = remove_opt_any [OF l1 r2]
  have ti: "?t \<noteq> Some (Known i)" using taken_key_own(2) by metis
  have keys: "fmlookup (by_key m2) k = (if k = Known i \<or> ?t = Some k then None else fmlookup (by_key m) k)" for k
    using o(2) [of k] b1(2) by simp
  have peers: "fmlookup (peer_to_key m2) q \<noteq> Some (Known i)" for q
    using o(3) [of q] remove_by_key_peers [OF ok r1, of q] by (auto split: if_splits)
  have pend: "fmlookup (by_key m2) (PendingKey p) = None"
  proof (cases "fmlookup (by_key m) (PendingKey p)")
    case (Some s)
    then have "?t = Some (PendingKey p)" using linkedD(2) [OF ok Some] by (simp add: taken_key_def own_key_def)
    then show ?thesis by (simp add: keys)
  qed (simp add: keys)
  define oa where "oa = (case old of Some s \<Rightarrow> if is_active s then 1 else (0::nat) | None \<Rightarrow> 0)"
  define op where "op = (case old of Some s \<Rightarrow> if is_active s then 0 else (1::nat) | None \<Rightarrow> 0)"
  have cnt: "count_states is_active m = count_states is_active m2 + oa + (if a then n else 0) \<and>
      count_states is_pending m = count_states is_pending m2 + op + (if a then 0 else n)"
    if "\<And>k s. ?t = Some k \<Longrightarrow> fmlookup (by_key m) k = Some s \<Longrightarrow> is_active s = a" for a
  proof (cases ?t)
    case None
    then show ?thesis
      using count_states_drop [OF r1, of is_active] count_states_drop [OF r1, of is_pending] o(4) [of is_active]
        o(4) [of is_pending] o(5) by (cases old) (auto simp: oa_def op_def is_pending_not_active)
  next
    case (Some k)
    then obtain s where s: "fmlookup (by_key m) k = Some s" "k \<noteq> Known i" using taken_key_own [OF Some] by auto
    then have "is_active s = a" "fmlookup (by_key m1) k = Some s" using that Some b1(2) by simp_all
    then show ?thesis
      using Some count_states_drop [OF r1, of is_active] count_states_drop [OF r1, of is_pending] o(4) [of is_active]
        o(4) [of is_pending] o(5) by (cases old) (auto simp: oa_def op_def is_pending_not_active)
  qed
  show thesis
    using ok
  proof (cases rule: find_replacement_taken [of m i p])
    case (by_id q d)
    have "count_states is_active m = count_states is_active m2 + oa \<and>
        count_states is_pending m = count_states is_pending m2 + (op + n)"
      using cnt [of False] by_id(3) by (simp add: is_pending_not_active)
    moreover have "activate_maps x clock p c i m = (Replaced q d None, op + n, oa,
        maps_insert (Known i) (Active p i c clock (activation_reason x p m)) m2)"
      by (simp add: activate_maps_def Let_def r1 r2 by_id(1) oa_def op_def activation_reason_def)
    ultimately show ?thesis using o(1) keys peers pend by_id(2) by (intro that) auto
  next
    case (by_peer j d)
    have "count_states is_active m = count_states is_active m2 + (oa + n) \<and>
        count_states is_pending m = count_states is_pending m2 + op"
      using cnt [of True] by_peer(2,4) by simp
    moreover have "activate_maps x clock p c i m = (Replaced p d (Some j), op, oa + n,
        maps_insert (Known i) (Active p i c clock (activation_reason x p m)) m2)"
      using r2 by_peer(2)
      by (simp add: activate_maps_def Let_def r1 by_peer(1) oa_def op_def activation_reason_def)
    ultimately show ?thesis using o(1) keys peers pend by_peer(2) by (intro that) auto
  next
    case none
    have "is_active s = False" if "?t = Some k" "fmlookup (by_key m) k = Some s" for k s
      using linkedD(3) [OF ok that(2)] none(3) [OF that(1)] by (simp add: is_pending_not_active)
    then have "count_states is_active m = count_states is_active m2 + oa \<and>
        count_states is_pending m = count_states is_pending m2 + (op + n)"
      using cnt [of False] by simp
    moreover have "activate_maps x clock p c i m = (Accepted, op + n, oa,
        maps_insert (Known i) (Active p i c clock (activation_reason x p m)) m2)"
      by (simp add: activate_maps_def Let_def r1 r2 none(1) oa_def op_def activation_reason_def)
    ultimately show ?thesis using o(1) keys peers pend none(2,3) by (intro that) auto
  qed
qed

text \<open>The counters: that of the active entries is exact; that of the pending ones is ahead by the
  number of pending entries an inbound connection of the same peer overwrote.\<close>

definition registry_linked :: "nat \<Rightarrow> ('i, 'p, 'c, 'r) peer_registry \<Rightarrow> bool" where
  "registry_linked lost r \<longleftrightarrow>
     linked (reg_maps r) \<and>
     num_active r = count_states is_active (reg_maps r) mod u64_modulus \<and>
     num_pending r = (count_states is_pending (reg_maps r) + lost) mod u64_modulus"

definition overwrites :: "'p \<Rightarrow> ('i, 'p, 'c, 'r) peer_registry \<Rightarrow> bool" where
  "overwrites p r \<longleftrightarrow> fmlookup (by_key (reg_maps r)) (PendingKey p) \<noteq> None"

lemma linked_new: "registry_linked 0 registry_new"
  by (simp add: registry_linked_def registry_new_def linked_def count_states_def maps_default_def)

lemma linked_outbound:
  assumes "registry_linked lost r"
  shows "registry_linked lost (snd (connected_outbound p c i t x r))"
proof -
  let ?m = "reg_maps r" and ?key = "case i of Some known_id \<Rightarrow> Known known_id | None \<Rightarrow> PendingKey p"
  let ?state = "Connected p c i Outbound t x"
  have ok: "linked ?m" using assms by (simp add: registry_linked_def)
  have "registry_linked lost (r\<lparr>reg_maps := maps_insert ?key ?state ?m, num_pending := u64_wrapping_add (num_pending r) 1\<rparr>)"
    if new: "fmlookup (peer_to_key ?m) p = None" "i \<noteq> None \<Longrightarrow> fmlookup (by_key ?m) ?key = None"
  proof -
    have pk: "fmlookup (by_key ?m) (PendingKey p) = None"
      using linkedD(2) [OF ok, of p] new(1) by (cases "fmlookup (by_key ?m) (PendingKey p)") auto
    then have free: "fmlookup (by_key ?m) ?key = None" using new(2) by (cases i) auto
    then have "fmlookup (peer_to_key ?m) q \<noteq> Some ?key" for q using linkedD(1) [OF ok, of q ?key] by auto
    then have "linked (maps_insert ?key ?state ?m)" using pk by (intro linked_insert [OF ok]) (auto split: option.splits)
    then show ?thesis
      using assms u64_wrapping_add_mod [of "count_states is_pending ?m + lost" 1]
      by (simp add: registry_linked_def count_states_insert [OF free] ac_simps)
  qed
  then show ?thesis using assms by (cases i) (auto simp: connected_outbound_def Let_def)
qed

lemma linked_inbound:
  assumes "registry_linked lost r"
  shows "registry_linked (if overwrites p r then Suc lost else lost) (snd (connected_inbound x clock p c r))"
proof -
  let ?m = "reg_maps r" and ?state = "Connected p c None Inbound clock x"
  have ok: "linked ?m" using assms by (simp add: registry_linked_def)
  have "fmlookup (peer_to_key ?m) q \<noteq> Some (PendingKey p)" if "q \<noteq> p" for q
    using own_pending [OF ok, of q p] that by auto
  then have lk: "linked (maps_insert (PendingKey p) ?state ?m)" by (intro linked_insert [OF ok]) auto
  have pend: "fmlookup (by_key ?m) (PendingKey p) = Some s \<Longrightarrow> is_pending s \<and> \<not> is_active s" for s
    using linkedD(3) [OF ok, of "PendingKey p" s] by (simp add: is_pending_not_active)
  have "count_states is_active (maps_insert (PendingKey p) ?state ?m) = count_states is_active ?m"
    using count_states_overwrite [of is_active "PendingKey p" ?state ?m] pend by (auto split: option.splits)
  moreover have "count_states is_pending (maps_insert (PendingKey p) ?state ?m) + (if overwrites p r then 1 else 0)
      = count_states is_pending ?m + 1"
    using count_states_overwrite [of is_pending "PendingKey p" ?state ?m] pend
    by (cases "fmlookup (by_key ?m) (PendingKey p)") (auto simp: overwrites_def)
  ultimately show ?thesis
    using assms lk u64_wrapping_add_mod [of "count_states is_pending ?m + lost" 1]
    by (auto simp: registry_linked_def connected_inbound_def Let_def algebra_simps split: if_splits)
qed

lemma linked_disconnected:
  assumes "registry_linked lost r"
  shows "registry_linked lost (snd (disconnected p r))"
proof (cases "fmlookup (peer_to_key (reg_maps r)) p")
  case None
  then show ?thesis using assms by (simp add: disconnected_def remove_by_peer_def)
next
  case (Some k)
  let ?m = "reg_maps r"
  have ok: "linked ?m" using assms by (simp add: registry_linked_def)
  obtain s where s: "fmlookup (by_key ?m) k = Some s" "cs_peer_id s = p" using linkedD(1) [OF ok Some] by blast
  obtain old m1 where rm: "remove_by_key k ?m = (old, m1)" by force
  obtain m' where rp: "remove_by_peer p ?m = (Some s, m')" "by_key m' = fmdrop k (by_key ?m)"
    "peer_to_key m' = fmdrop p (peer_to_key ?m)"
    using Some s by (cases "cs_connection_id s"; cases "cs_started_at s") (auto simp: remove_by_peer_def Let_def)
  note b1 = remove_by_key_by_key [OF rm]
  have "fmlookup (peer_to_key m1) q = fmlookup (peer_to_key m') q" for q
  proof -
    have "q \<noteq> p \<Longrightarrow> fmlookup (peer_to_key ?m) q \<noteq> Some k" using linkedD(1) [OF ok, of q k] s by auto
    then show ?thesis using remove_by_key_peers [OF ok rm, of q] Some rp(3) by (cases "q = p") simp_all
  qed
  then have "linked m'" using linked_remove [OF ok rm] b1(2) rp(2) by (simp add: linked_def)
  moreover have "count_states P ?m = count_states P m' + (if P s then 1 else 0)" for P
    by (rule count_states_split [OF s(1)]) (simp add: rp(2))
  ultimately show ?thesis
    using assms by (cases s) (simp_all add: registry_linked_def disconnected_def rp(1) u64_wrapping_sub_mod)
qed

lemma linked_activate:
  assumes "registry_linked lost r"
  shows "registry_linked lost (snd (activate x clock p c i r))"
proof -
  let ?m = "reg_maps r"
  have ok: "linked ?m" using assms by (simp add: registry_linked_def)
  obtain result np na m2 where spec:
    "activate_maps x clock p c i ?m =
       (result, np, na, maps_insert (Known i) (Active p i c clock (activation_reason x p ?m)) m2)"
    "linked m2"
    "\<And>k. fmlookup (by_key m2) k = (if k = Known i \<or> taken_key ?m p i = Some k then None else fmlookup (by_key ?m) k)"
    "\<And>q. fmlookup (peer_to_key m2) q \<noteq> Some (Known i)"
    "fmlookup (by_key m2) (PendingKey p) = None"
    "count_states is_active ?m = count_states is_active m2 + na"
    "count_states is_pending ?m = count_states is_pending m2 + np"
    "is_replaced result \<longleftrightarrow> id_active ?m i \<or> (\<exists>j. taken_key ?m p i = Some (Known j))"
    by (rule activate_maps_any [OF ok, where x = x and clock = clock]) (rule that)
  have fresh: "fmlookup (by_key m2) (Known i) = None" using spec(3) by simp
  have nums: "num_active r = (count_states is_active m2 + na) mod u64_modulus"
    "num_pending r = (count_states is_pending m2 + lost + np) mod u64_modulus"
    using assms spec(6,7) by (simp_all only: registry_linked_def ac_simps)
  have active: "(if 0 < na then u64_wrapping_sub (u64_wrapping_add (num_active r) 1) na
        else u64_wrapping_add (num_active r) 1) = (count_states is_active m2 + 1) mod u64_modulus"
    using wrapping_sub_if [of na "count_states is_active m2 + na + 1"]
    by (simp only: nums u64_wrapping_add_mod) simp
  have pending: "(if 0 < np then u64_wrapping_sub (num_pending r) np else num_pending r)
        = (count_states is_pending m2 + lost) mod u64_modulus"
    using wrapping_sub_if [of np "count_states is_pending m2 + lost + np"] by (simp only: nums) simp
  have "linked (maps_insert (Known i) (Active p i c clock (activation_reason x p ?m)) m2)"
    using spec(4,5) by (intro linked_insert [OF spec(2)]) auto
  then show ?thesis
    unfolding activate_def spec(1) Let_def case_prod_conv active pending
    by (simp add: registry_linked_def count_states_insert [OF fresh])
qed

section \<open>Histories\<close>

text \<open>A history is any sequence of calls. It is orderly when a connection is new, an inbound
  peer is not yet tracked, and a handshake may be activated in the sense above; \<open>lost\<close> counts
  the pending entries that inbound connections overwrote.\<close>

inductive registry_run :: "bool \<Rightarrow> nat \<Rightarrow> ('i, 'p, 'c, 'r) peer_registry \<Rightarrow> bool" for orderly :: bool where
  start: "registry_run orderly 0 registry_new"
| outbound: "registry_run orderly lost r \<Longrightarrow> (orderly \<Longrightarrow> conn_fresh c r) \<Longrightarrow>
    registry_run orderly lost (snd (connected_outbound p c i t x r))"
| inbound: "registry_run orderly lost r \<Longrightarrow> (orderly \<Longrightarrow> conn_fresh c r \<and> \<not> contains_peer r p) \<Longrightarrow>
    registry_run orderly (if overwrites p r then Suc lost else lost) (snd (connected_inbound x clock p c r))"
| handshake: "registry_run orderly lost r \<Longrightarrow> (orderly \<Longrightarrow> activate_ok p c i r) \<Longrightarrow>
    registry_run orderly lost (snd (activate x clock p c i r))"
| closed: "registry_run orderly lost r \<Longrightarrow> registry_run orderly lost (snd (disconnected p r))"

lemma run_linked: "registry_run orderly lost r \<Longrightarrow> registry_linked lost r"
  by (induction rule: registry_run.induct)
    (rule linked_new linked_outbound linked_inbound linked_activate linked_disconnected; assumption?)+

lemma orderly_ok: "registry_run True lost r \<Longrightarrow> registry_ok r \<and> lost = 0"
proof (induction rule: registry_run.induct)
  case (inbound lost r c p x clock)
  then have "\<not> overwrites p r"
    using pending_key_of_peer [of "reg_maps r" p] by (simp add: overwrites_def registry_ok_def contains_peer_def)
  then show ?case using inbound by (simp add: registry_ok_inbound)
qed (simp_all add: registry_ok_new registry_ok_outbound registry_ok_activate registry_ok_disconnected)

lemma one_to_one:
  assumes "maps_ok (reg_maps r)"
  shows "resolve_id r p = Some i \<longleftrightarrow> resolve_peer_id r i = Some p"
  using maps_okD(1) [OF assms, of p "Known i"]
  by (auto simp: resolve_id_def resolve_peer_id_def split: option.splits registry_key.splits)

lemma linked_resolve:
  assumes "linked (reg_maps r)" and "resolve_id r p = Some i"
  shows "resolve_peer_id r i = Some p"
  using linkedD(1) [OF assms(1), of p "Known i"] assms(2)
  by (auto simp: resolve_id_def resolve_peer_id_def split: option.splits registry_key.splits)

text \<open>C30. After any sequence of calls the identity a peer resolves to resolves back to that peer,
  the active counter is the number of active connections held, and the pending counter is
  that of the pending ones plus the pending entries that an inbound connection of the same
  peer overwrote. In an orderly history nothing is overwritten, and an identity also resolves
  only to a peer that resolves back to it.\<close>

theorem registry_consistent:
  assumes "registry_run orderly lost r"
  shows "(resolve_id r p = Some i \<longrightarrow> resolve_peer_id r i = Some p) \<and>
         active_count r = card {k. \<exists>s. fmlookup (by_key (reg_maps r)) k = Some s \<and> is_active s} mod u64_modulus \<and>
         pending_count r =
           (card {k. \<exists>s. fmlookup (by_key (reg_maps r)) k = Some s \<and> is_pending s} + lost) mod u64_modulus \<and>
         (orderly \<longrightarrow> lost = 0 \<and> (resolve_peer_id r i = Some p \<longrightarrow> resolve_id r p = Some i))"
proof -
  have lk: "registry_linked lost r" by (rule run_linked [OF assms])
  have "orderly \<longrightarrow> lost = 0 \<and> (resolve_peer_id r i = Some p \<longrightarrow> resolve_id r p = Some i)"
    using orderly_ok [of lost r] one_to_one [of r p i] assms by (auto simp: registry_ok_def)
  then show ?thesis
    using lk linked_resolve [of r p i]
    by (simp add: registry_linked_def active_count_def pending_count_def count_states_def)
qed


text \<open>A dialled peer that answers as the identity it was dialled for.\<close>

definition sample_dialled :: "(nat, nat, nat, unit) peer_registry" where
  "sample_dialled = snd (connected_outbound 1 10 (Some 7) 0 () registry_new)"

lemmas registry_eval = connected_outbound_def registry_new_def maps_default_def maps_insert_def add_pending_def
  conn_fresh_def activate_ok_def Let_def

lemma sample_dialled_run:
  "registry_run True 0 sample_dialled" "activate_ok 1 10 7 sample_dialled"
  unfolding sample_dialled_def
  by (rule registry_run.outbound [OF registry_run.start]; simp add: registry_eval)
    (simp add: registry_eval)

theorem registry_consistent_witness:
  "(let r = snd (activate () 5 1 10 7 sample_dialled)
    in (resolve_peer_id r 7 = Some 1 \<longrightarrow> resolve_id r 1 = Some 7) \<and>
       active_count r = card {k. \<exists>s. fmlookup (by_key (reg_maps r)) k = Some s \<and> is_active s} mod u64_modulus \<and>
       pending_count r = card {k. \<exists>s. fmlookup (by_key (reg_maps r)) k = Some s \<and> is_pending s} mod u64_modulus)"
  using registry_consistent [OF registry_run.handshake [OF sample_dialled_run], of "()" 5 1 7]
  unfolding Let_def by simp


section \<open>Stale connections\<close>

lemma set_map_filter: "set (List.map_filter f xs) = {y. \<exists>x \<in> set xs. f x = Some y}"
  by (induction xs) (auto simp: List.map_filter_simps split: option.splits)

lemma stale_keys:
  assumes "\<And>ks. set (visit ks) = fset ks"
  shows "set (concat (map (\<lambda>t. case fmlookup (pending_by_time m) t of Some ks \<Rightarrow> visit ks | None \<Rightarrow> [])
           (filter (\<lambda>t. t \<le> cutoff) (sorted_list_of_fset (fmdom (pending_by_time m)))))) =
         {k. \<exists>t \<le> cutoff. k |\<in>| pending_at m t}" (is "?keys = _")
proof (intro set_eqI iffI)
  fix k assume "k \<in> ?keys"
  then obtain t where "t \<le> cutoff"
    and "k \<in> set (case fmlookup (pending_by_time m) t of Some ks \<Rightarrow> visit ks | None \<Rightarrow> [])" by auto
  then show "k \<in> {k. \<exists>t \<le> cutoff. k |\<in>| pending_at m t}"
    using assms by (cases "fmlookup (pending_by_time m) t") (auto simp: pending_at_def intro!: exI [of _ t])
next
  fix k assume "k \<in> {k. \<exists>t \<le> cutoff. k |\<in>| pending_at m t}"
  then obtain t ks where "t \<le> cutoff" "fmlookup (pending_by_time m) t = Some ks" "k |\<in>| ks"
    by (auto simp: pending_at_def split: option.splits)
  then show "k \<in> ?keys" using assms by (auto intro!: bexI [of _ t] fmdomI)
qed

text \<open>What is reported as stale is exactly the peers whose handshake has been pending for the
  timeout or longer, in an orderly history.\<close>

lemma stale_pending_exact:
  assumes "registry_run True lost r" and "\<And>ks. set (visit ks) = fset ks" and "timeout \<le> clock"
  shows "p \<in> set (stale_pending visit clock timeout r) \<longleftrightarrow>
         (\<exists>s t. get_by_peer_id r p = Some s \<and> cs_started_at s = Some t \<and> t + timeout \<le> clock)"
proof -
  let ?m = "reg_maps r"
  have ok: "maps_ok ?m" using orderly_ok [OF assms(1)] by (simp add: registry_ok_def)
  let ?keys = "concat (map (\<lambda>t. case fmlookup (pending_by_time ?m) t of Some ks \<Rightarrow> visit ks | None \<Rightarrow> [])
      (filter (\<lambda>t. t \<le> clock - timeout) (sorted_list_of_fset (fmdom (pending_by_time ?m)))))"
  have "stale_pending visit clock timeout r =
      List.map_filter (\<lambda>key. map_option cs_peer_id (fmlookup (by_key ?m) key)) ?keys"
    using assms(3) by (simp add: stale_pending_def Let_def)
  then have "p \<in> set (stale_pending visit clock timeout r) \<longleftrightarrow>
      (\<exists>k t. t \<le> clock - timeout \<and> k |\<in>| pending_at ?m t \<and> map_option cs_peer_id (fmlookup (by_key ?m) k) = Some p)"
    by (simp only: set_map_filter stale_keys [of visit, OF assms(2)]) auto
  also have "\<dots> \<longleftrightarrow> (\<exists>k s t. t \<le> clock - timeout \<and> fmlookup (by_key ?m) k = Some s \<and>
      cs_started_at s = Some t \<and> cs_peer_id s = p)"
    unfolding maps_okD(3) [OF ok] by fastforce
  also have "\<dots> \<longleftrightarrow> (\<exists>k s t. t \<le> clock - timeout \<and> fmlookup (by_key ?m) k = Some s \<and>
      cs_started_at s = Some t \<and> fmlookup (peer_to_key ?m) p = Some k)"
    unfolding maps_okD(1) [OF ok] by fastforce
  also have "\<dots> \<longleftrightarrow> (\<exists>s t. get_by_peer_id r p = Some s \<and> cs_started_at s = Some t \<and> t + timeout \<le> clock)"
    using assms(3) by (auto simp: get_by_peer_id_def le_diff_conv2 split: option.splits)
  finally show ?thesis .
qed

definition sample_visit :: "(nat, nat) registry_key fset \<Rightarrow> (nat, nat) registry_key list" where
  "sample_visit ks =
     (let number = (\<lambda>k. case k of Known n \<Rightarrow> n | PendingKey n \<Rightarrow> n);
          known = (\<lambda>k. case k of Known _ \<Rightarrow> True | PendingKey _ \<Rightarrow> False)
      in map Known (sorted_list_of_fset (number |`| ffilter known ks)) @
         map PendingKey (sorted_list_of_fset (number |`| ffilter (\<lambda>k. \<not> known k) ks)))"

lemma sample_visit_set: "set (sample_visit ks) = fset ks"
proof (intro set_eqI)
  fix k
  show "k \<in> set (sample_visit ks) \<longleftrightarrow> k \<in> fset ks"
    by (cases k) (force simp: sample_visit_def Let_def split: registry_key.splits)+
qed

section \<open>Where consistency is lost\<close>

text \<open>A peer dialled for one identity answers with another. The entry of the dialled identity
  stays behind as a pending one, and once it is stale the cleanup removes the peer, that is
  the live connection, while the stale entry remains.\<close>

lemma answering_as_another_identity:
  assumes "i \<noteq> j" and "\<And>ks. set (visit ks) = fset ks \<and> distinct (visit ks)" and "t + timeout \<le> clock"
    and r: "r = snd (activate x now p c j (snd (connected_outbound p c (Some i) t x registry_new)))"
  shows "active_connection_id r j = Some c" and "registry_get r i = Some (Connected p c (Some i) Outbound t x)"
    and "stale_pending visit clock timeout r = [p]"
    and "registry_get (snd (disconnected p r)) j = None"
    and "stale_pending visit clock timeout (snd (disconnected p r)) = [p]"
    and "pending_count (snd (disconnected p r)) = 1"
proof -
  have one: "visit {|k|} = [k]" for k
    using assms(2) [of "{|k|}"] by (cases "visit {|k|}"; cases "tl (visit {|k|})") auto
  note eval = r registry_eval activate_def activate_maps_def find_replacement_def remove_by_key_def
    is_pending_key_def remove_opt_def disconnected_def remove_by_peer_def
  show "active_connection_id r j = Some c" and "registry_get r i = Some (Connected p c (Some i) Outbound t x)"
    and "registry_get (snd (disconnected p r)) j = None" and "pending_count (snd (disconnected p r)) = 1"
    using assms(1) by (simp_all add: eval active_connection_id_def registry_get_def pending_count_def)
  show "stale_pending visit clock timeout r = [p]"
    and "stale_pending visit clock timeout (snd (disconnected p r)) = [p]"
    using assms(1,3)
    by (simp_all add: eval stale_pending_def one sorted_list_of_fset.rep_eq List.map_filter_simps)
qed

text \<open>Both sides dial each other: the inbound registration overwrites the outbound one of the same
  peer, and the pending counter stays above zero after the peer is gone.\<close>

lemma simultaneous_open:
  assumes r: "r = snd (connected_inbound x now p d (snd (connected_outbound p c (Some i) t x registry_new)))"
  shows "pending_count (snd (disconnected p r)) = 1" and "\<not> contains_peer (snd (disconnected p r)) p"
    and "registry_get (snd (disconnected p r)) i = Some (Connected p c (Some i) Outbound t x)"
  by (simp_all add: r registry_eval connected_inbound_def disconnected_def remove_by_peer_def
      pending_count_def contains_peer_def registry_get_def u64_wrapping_sub_def)

end
