(* ===== verification/Peer_Entry.thy ===== *)
theory Peer_Entry
  imports Vertex_Prelude Peer_Registry
begin

unbundle bit_operations_syntax

text \<open>
  What is kept of one peer: the dial backoff of \<^verbatim>\<open>net/peer/backoff\<close>, the score of
  \<^verbatim>\<open>net/peer/score\<close> and \<^verbatim>\<open>swarm/peers/peer-score\<close>, the timestamp policy of
  \<^verbatim>\<open>swarm/peers/peer\<close> and the entry of \<^verbatim>\<open>swarm/peers/peer-manager/src/entry.rs\<close>.

  A score is a double. Doubles are a linearly ordered type with the operations the
  sources use as the record \<open>float_ops\<close>; no NaN arises, since weights and literals are
  numbers and every update is clamped. Clock readings are arguments, in seconds, and one
  operation reads one value.
\<close>

section \<open>Dial backoff\<close>

record peer_backoff =
  pb_last_attempt :: nat
  pb_consecutive_failures :: nat

abbreviation u32_modulus :: nat where "u32_modulus \<equiv> 4294967296"

definition backoff_new :: peer_backoff where
  "backoff_new = \<lparr>pb_last_attempt = 0, pb_consecutive_failures = 0\<rparr>"

definition backoff_from_persisted :: "nat \<Rightarrow> nat \<Rightarrow> peer_backoff" where
  "backoff_from_persisted last_attempt failures =
    \<lparr>pb_last_attempt = last_attempt, pb_consecutive_failures = failures\<rparr>"

definition backoff_record_failure :: "nat \<Rightarrow> peer_backoff \<Rightarrow> peer_backoff" where
  "backoff_record_failure now b =
    b\<lparr>pb_consecutive_failures := (pb_consecutive_failures b + 1) mod u32_modulus,
      pb_last_attempt := now\<rparr>"

definition backoff_reset :: "peer_backoff \<Rightarrow> peer_backoff" where
  "backoff_reset b = b\<lparr>pb_consecutive_failures := 0\<rparr>"

text \<open>The upper 16 bits of the mixed seed; the factor of the jitter is \<open>3/4\<close> plus this
  value over \<open>2 ^ 17\<close>.\<close>

definition jitter_frac :: "nat \<Rightarrow> nat \<Rightarrow> nat" where
  "jitter_frac seed failures =
    ((seed * 0x517cc1b727220a95 mod u64_modulus + failures) mod u64_modulus) div 2 ^ 48"

text \<open>For a base below \<open>2 ^ 35\<close> the product of the base and the factor is a double without
  rounding, and the cast keeps its integral part.\<close>

definition jittered :: "nat \<Rightarrow> nat \<Rightarrow> nat" where
  "jittered base fr = base * (98304 + fr) div 131072"

definition base_backoff :: "nat \<Rightarrow> nat \<Rightarrow> nat \<Rightarrow> nat" where
  "base_backoff failures base_secs max_secs =
    min (u64_saturating_mul base_secs (2 ^ min (failures - 1) 10)) max_secs"

definition remaining_inner ::
  "nat \<Rightarrow> nat \<Rightarrow> nat \<Rightarrow> nat \<Rightarrow> nat \<Rightarrow> nat option \<Rightarrow> nat option" where
  "remaining_inner failures last_attempt now base_secs max_secs jitter_seed =
    (if failures = 0 then None
     else
       let base = base_backoff failures base_secs max_secs;
           backoff_secs = (case jitter_seed of
              Some seed \<Rightarrow> jittered base (jitter_frac seed failures) | None \<Rightarrow> base);
           backoff_until = u64_saturating_add last_attempt backoff_secs
       in if backoff_until \<le> now then None else Some (backoff_until - now))"

definition remaining_jittered_with :: "peer_backoff \<Rightarrow> nat \<Rightarrow> nat \<Rightarrow> nat \<Rightarrow> nat \<Rightarrow> nat option" where
  "remaining_jittered_with b now base_secs max_secs jitter_seed =
    remaining_inner (pb_consecutive_failures b) (pb_last_attempt b) now base_secs max_secs
      (Some jitter_seed)"

definition remaining_with :: "peer_backoff \<Rightarrow> nat \<Rightarrow> nat \<Rightarrow> nat \<Rightarrow> nat option" where
  "remaining_with b now base_secs max_secs =
    remaining_inner (pb_consecutive_failures b) (pb_last_attempt b) now base_secs max_secs None"

definition remaining_jittered :: "peer_backoff \<Rightarrow> nat \<Rightarrow> nat \<Rightarrow> nat option" where
  "remaining_jittered b now jitter_seed = remaining_jittered_with b now 30 3600 jitter_seed"

definition remaining :: "peer_backoff \<Rightarrow> nat \<Rightarrow> nat option" where
  "remaining b now = remaining_with b now 30 3600"

section \<open>Score\<close>

text \<open>\<open>fo_lit n\<close> is the double of the literal \<open>n / 10\<close>, and \<open>fo_decay h e s\<close> is
  the double \<open>s\<close> times a half to the power \<open>e / h\<close>.\<close>

record 'f float_ops =
  fo_add :: "'f \<Rightarrow> 'f \<Rightarrow> 'f"
  fo_decay :: "nat \<Rightarrow> nat \<Rightarrow> 'f \<Rightarrow> 'f"
  fo_lit :: "int \<Rightarrow> 'f"

record 'f peer_score =
  ps_score :: 'f
  ps_latency_sum_nanos :: nat
  ps_latency_samples :: nat

definition score_new :: "'f float_ops \<Rightarrow> 'f peer_score" where
  "score_new fo = \<lparr>ps_score = fo_lit fo 0, ps_latency_sum_nanos = 0, ps_latency_samples = 0\<rparr>"

definition clamp_score :: "('f :: linorder) float_ops \<Rightarrow> 'f \<Rightarrow> 'f" where
  "clamp_score fo x = max (fo_lit fo (- 1000)) (min (fo_lit fo 1000) x)"

definition add_score ::
  "('f :: linorder) float_ops \<Rightarrow> 'f \<Rightarrow> 'f peer_score \<Rightarrow> 'f peer_score \<times> 'f \<times> 'f" where
  "add_score fo delta s =
    (let new_val = clamp_score fo (fo_add fo (ps_score s) delta)
     in (s\<lparr>ps_score := new_val\<rparr>, ps_score s, new_val))"

definition score_decay ::
  "'f float_ops \<Rightarrow> nat \<Rightarrow> nat \<Rightarrow> 'f peer_score \<Rightarrow> 'f peer_score \<times> 'f \<times> 'f" where
  "score_decay fo half_life elapsed s =
    (if elapsed = 0 then (s, ps_score s, ps_score s)
     else if half_life = 0 then (s\<lparr>ps_score := fo_lit fo 0\<rparr>, ps_score s, fo_lit fo 0)
     else let new_val = fo_decay fo half_life elapsed (ps_score s)
          in (s\<lparr>ps_score := new_val\<rparr>, ps_score s, new_val))"

definition set_score ::
  "('f :: linorder) float_ops \<Rightarrow> 'f \<Rightarrow> 'f peer_score \<Rightarrow> 'f peer_score \<times> 'f \<times> 'f" where
  "set_score fo x s =
    (let clamped = clamp_score fo x in (s\<lparr>ps_score := clamped\<rparr>, ps_score s, clamped))"

definition score_record_latency :: "nat \<Rightarrow> 'f peer_score \<Rightarrow> 'f peer_score" where
  "score_record_latency nanos s =
    s\<lparr>ps_latency_sum_nanos := u64_wrapping_add (ps_latency_sum_nanos s) nanos,
      ps_latency_samples := (ps_latency_samples s + 1) mod u32_modulus\<rparr>"

definition avg_latency_nanos :: "'f peer_score \<Rightarrow> nat option" where
  "avg_latency_nanos s =
    (if ps_latency_samples s = 0 then None
     else Some (ps_latency_sum_nanos s div ps_latency_samples s))"

datatype swarm_scoring_event =
    ConnectionSuccess "nat option"
  | ConnectionTimeout
  | ConnectionRefused
  | HandshakeFailure
  | ProtocolError
  | EarlyDisconnect nat
  | RetrievalSuccess nat
  | RetrievalFailure
  | PushSuccess nat
  | PushFailure
  | InvalidData
  | MaliciousBehavior
  | AccountingViolation
  | RateLimitExceeded
  | PingSuccess nat
  | PingTimeout
  | GossipUseful
  | GossipStale

fun event_latency :: "swarm_scoring_event \<Rightarrow> nat option" where
  "event_latency (ConnectionSuccess latency) = latency"
| "event_latency (RetrievalSuccess latency) = Some latency"
| "event_latency (PushSuccess latency) = Some latency"
| "event_latency (PingSuccess latency) = Some latency"
| "event_latency _ = None"

text \<open>The weights, in tenths.\<close>

fun default_weight :: "swarm_scoring_event \<Rightarrow> int" where
  "default_weight (ConnectionSuccess _) = 10"
| "default_weight ConnectionTimeout = - 15"
| "default_weight ConnectionRefused = - 10"
| "default_weight HandshakeFailure = - 50"
| "default_weight ProtocolError = - 30"
| "default_weight (EarlyDisconnect _) = - 30"
| "default_weight (RetrievalSuccess _) = 5"
| "default_weight RetrievalFailure = - 20"
| "default_weight (PushSuccess _) = 5"
| "default_weight PushFailure = - 20"
| "default_weight InvalidData = - 100"
| "default_weight MaliciousBehavior = - 500"
| "default_weight AccountingViolation = - 200"
| "default_weight RateLimitExceeded = - 50"
| "default_weight (PingSuccess _) = 1"
| "default_weight PingTimeout = - 5"
| "default_weight GossipUseful = 2"
| "default_weight GossipStale = - 1"

text \<open>The configuration holds one weight per event and the three thresholds; the weights
  are the function of the event that \<^verbatim>\<open>weight_for\<close> computes.\<close>

record 'f swarm_scoring_config =
  ssc_weight_for :: "swarm_scoring_event \<Rightarrow> 'f"
  ssc_ban_threshold :: 'f
  ssc_warn_threshold :: 'f
  ssc_disconnect_threshold :: 'f

definition scoring_config_default :: "'f float_ops \<Rightarrow> 'f swarm_scoring_config" where
  "scoring_config_default fo =
    \<lparr>ssc_weight_for = (\<lambda>e. fo_lit fo (default_weight e)),
     ssc_ban_threshold = fo_lit fo (- 1000), ssc_warn_threshold = fo_lit fo (- 500),
     ssc_disconnect_threshold = fo_lit fo (- 750)\<rparr>"

definition should_ban :: "('f :: linorder) swarm_scoring_config \<Rightarrow> 'f \<Rightarrow> bool" where
  "should_ban c score \<longleftrightarrow> score \<le> ssc_ban_threshold c"

definition should_warn :: "('f :: linorder) swarm_scoring_config \<Rightarrow> 'f \<Rightarrow> bool" where
  "should_warn c score \<longleftrightarrow> score < ssc_warn_threshold c \<and> \<not> should_ban c score"

definition should_disconnect :: "('f :: linorder) swarm_scoring_config \<Rightarrow> 'f \<Rightarrow> bool" where
  "should_disconnect c score \<longleftrightarrow> score \<le> ssc_disconnect_threshold c \<and> \<not> should_ban c score"

definition scoring_config_lenient :: "'f float_ops \<Rightarrow> 'f swarm_scoring_config" where
  "scoring_config_lenient fo = (scoring_config_default fo)
    \<lparr>ssc_weight_for := (\<lambda>e. fo_lit fo (case e of
         ConnectionTimeout \<Rightarrow> - 5 | ConnectionRefused \<Rightarrow> - 3 | HandshakeFailure \<Rightarrow> - 20
       | ProtocolError \<Rightarrow> - 10 | EarlyDisconnect _ \<Rightarrow> - 15 | RetrievalFailure \<Rightarrow> - 5
       | PushFailure \<Rightarrow> - 5 | _ \<Rightarrow> default_weight e)),
     ssc_ban_threshold := fo_lit fo (- 2000)\<rparr>"

definition scoring_config_strict :: "'f float_ops \<Rightarrow> 'f swarm_scoring_config" where
  "scoring_config_strict fo = (scoring_config_default fo)
    \<lparr>ssc_weight_for := (\<lambda>e. fo_lit fo (case e of
         ConnectionTimeout \<Rightarrow> - 30 | ConnectionRefused \<Rightarrow> - 20 | HandshakeFailure \<Rightarrow> - 100
       | ProtocolError \<Rightarrow> - 50 | EarlyDisconnect _ \<Rightarrow> - 50 | InvalidData \<Rightarrow> - 250
       | MaliciousBehavior \<Rightarrow> - 1000 | _ \<Rightarrow> default_weight e)),
     ssc_ban_threshold := fo_lit fo (- 500)\<rparr>"

datatype score_outcome = OutcomeOk | Warn | Disconnect | Ban

record 'f score_change =
  sch_outcome :: score_outcome
  sch_old_score :: 'f
  sch_new_score :: 'f

record 'f swarm_peer_score =
  sps_score :: "'f peer_score"
  sps_config :: "'f swarm_scoring_config"
  sps_warned :: bool

definition check_thresholds ::
  "'f \<Rightarrow> 'f \<Rightarrow> ('f :: linorder) swarm_peer_score \<Rightarrow> 'f swarm_peer_score \<times> score_outcome" where
  "check_thresholds old_score new_score s =
    (if should_ban (sps_config s) new_score then (s, Ban)
     else
       let warn = should_warn (sps_config s) new_score;
           warned_now = (warn \<and> \<not> sps_warned s);
           s' = s\<lparr>sps_warned := warn\<rparr>;
           threshold = ssc_disconnect_threshold (sps_config s)
       in if threshold < old_score \<and> new_score \<le> threshold then (s', Disconnect)
          else if warned_now then (s', Warn)
          else (s', OutcomeOk))"

definition record_event_change ::
  "('f :: linorder) float_ops \<Rightarrow> swarm_scoring_event \<Rightarrow> 'f swarm_peer_score
    \<Rightarrow> 'f swarm_peer_score \<times> 'f score_change" where
  "record_event_change fo event s =
    (let weight = ssc_weight_for (sps_config s) event;
         sc = (case event_latency event of
                 Some latency \<Rightarrow> score_record_latency (min latency u64_max) (sps_score s)
               | None \<Rightarrow> sps_score s);
         (sc', old_score, new_score) = add_score fo weight sc;
         (s', outcome) = check_thresholds old_score new_score (s\<lparr>sps_score := sc'\<rparr>)
     in (s', \<lparr>sch_outcome = outcome, sch_old_score = old_score, sch_new_score = new_score\<rparr>))"

definition swarm_score_decay ::
  "('f :: linorder) float_ops \<Rightarrow> nat \<Rightarrow> nat \<Rightarrow> 'f swarm_peer_score
    \<Rightarrow> 'f swarm_peer_score \<times> 'f \<times> 'f" where
  "swarm_score_decay fo half_life elapsed s =
    (let (sc, old_score, new_score) = score_decay fo half_life elapsed (sps_score s)
     in (s\<lparr>sps_score := sc,
           sps_warned := (if should_warn (sps_config s) new_score then sps_warned s else False)\<rparr>,
         old_score, new_score))"

definition swarm_score_reset ::
  "('f :: linorder) float_ops \<Rightarrow> 'f \<Rightarrow> 'f swarm_peer_score \<Rightarrow> 'f swarm_peer_score \<times> 'f \<times> 'f" where
  "swarm_score_reset fo score s =
    (let (sc, old_score, new_score) = set_score fo score (sps_score s)
     in (s\<lparr>sps_score := sc, sps_warned := should_warn (sps_config s) new_score\<rparr>,
         old_score, new_score))"

section \<open>Timestamps of peer records\<close>

datatype timestamp_rejection = TsInvalid | TsInFuture | TsStale | TsTooSoon

definition check_timestamp :: "int \<Rightarrow> int option \<Rightarrow> int \<Rightarrow> timestamp_rejection + unit" where
  "check_timestamp candidate existing now =
    (if candidate \<le> 0 then Inl TsInvalid
     else if i64_clamp (now + 60) < candidate then Inl TsInFuture
     else
       case existing of
         Some ts \<Rightarrow>
           if ts \<le> 0 then Inr ()
           else if candidate \<le> ts then Inl TsStale
           else if candidate \<le> i64_clamp (ts + 300) then Inl TsTooSoon
           else Inr ()
       | None \<Rightarrow> Inr ())"

section \<open>Node types and packed bytes\<close>

datatype swarm_node_type = Bootnode | Client | Storer

fun node_type_repr :: "swarm_node_type \<Rightarrow> 8 word" where
  "node_type_repr Bootnode = 0"
| "node_type_repr Client = 1"
| "node_type_repr Storer = 2"

definition node_type_from_repr :: "8 word \<Rightarrow> swarm_node_type option" where
  "node_type_from_repr w =
    (if w = 0 then Some Bootnode else if w = 1 then Some Client
     else if w = 2 then Some Storer else None)"

fun requires_storage :: "swarm_node_type \<Rightarrow> bool" where
  "requires_storage Storer = True"
| "requires_storage _ = False"

text \<open>The high bit of the cell marks a type that a handshake has confirmed.\<close>

type_synonym node_type_cell = "8 word"

definition cell_provisional :: "swarm_node_type \<Rightarrow> node_type_cell" where
  "cell_provisional node_type = node_type_repr node_type"

definition cell_get :: "node_type_cell \<Rightarrow> swarm_node_type" where
  "cell_get c = (case node_type_from_repr (c AND NOT 0x80) of Some t \<Rightarrow> t | None \<Rightarrow> Client)"

definition cell_set_provisional ::
  "swarm_node_type \<Rightarrow> node_type_cell \<Rightarrow> node_type_cell \<times> bool" where
  "cell_set_provisional node_type c =
    (if c AND 0x80 = 0 then (node_type_repr node_type, True) else (c, False))"

definition cell_confirm :: "swarm_node_type \<Rightarrow> node_type_cell" where
  "cell_confirm node_type = node_type_repr node_type OR 0x80"

fun direction_to_repr :: "connection_direction \<Rightarrow> nat" where
  "direction_to_repr Outbound = 1"
| "direction_to_repr Inbound = 2"

definition direction_from_repr :: "nat \<Rightarrow> connection_direction option" where
  "direction_from_repr r = (if r = 1 then Some Outbound else if r = 2 then Some Inbound else None)"

datatype trust_level = Normal | LocalSubnet | Trusted

fun trust_repr :: "trust_level \<Rightarrow> nat" where
  "trust_repr Normal = 0"
| "trust_repr LocalSubnet = 1"
| "trust_repr Trusted = 2"

definition trust_from_repr :: "nat \<Rightarrow> trust_level" where
  "trust_from_repr r = (if r = 1 then LocalSubnet else if r = 2 then Trusted else Normal)"

datatype health_state = Healthy | Failing | Stale | BannedState

section \<open>The entry of a peer\<close>

text \<open>\<open>'m\<close> is the type of a network address, which belongs to a library.\<close>

record 'm swarm_peer =
  sp_multiaddrs :: "'m list"
  sp_signature :: bytes
  sp_overlay :: overlay_address
  sp_nonce :: b256
  sp_timestamp :: int
  sp_chequebook :: "eth_address option"
  sp_ethereum_address :: eth_address

record 'm peer_snapshot =
  psn_peer :: "'m swarm_peer"
  psn_node_type :: swarm_node_type
  psn_last_seen :: nat

record ('f, 'm) peer_entry =
  pe_peer :: "'m swarm_peer"
  pe_node_type :: node_type_cell
  pe_scoring :: "'f swarm_peer_score"
  pe_last_seen :: nat
  pe_backoff :: peer_backoff
  pe_ban_info :: "(nat \<times> string) option"
  pe_last_decay :: nat
  pe_jitter_seed :: nat
  pe_connected_since :: nat
  pe_last_productive :: nat
  pe_direction :: nat
  pe_trust :: nat
  pe_verified :: bool

text \<open>The first eight bytes of the address, the first of them the lowest.\<close>

definition overlay_byte :: "overlay_address \<Rightarrow> nat \<Rightarrow> nat" where
  "overlay_byte overlay i = unat (drop_bit (8 * (31 - i)) overlay AND 0xff)"

definition jitter_seed_from_overlay :: "overlay_address \<Rightarrow> nat" where
  "jitter_seed_from_overlay overlay = (\<Sum>i\<leftarrow>[0..<8]. overlay_byte overlay i * 256 ^ i)"

definition entry_with_config ::
  "'f float_ops \<Rightarrow> nat \<Rightarrow> 'm swarm_peer \<Rightarrow> swarm_node_type \<Rightarrow> overlay_address
    \<Rightarrow> 'f swarm_scoring_config \<Rightarrow> ('f, 'm) peer_entry" where
  "entry_with_config fo now peer node_type overlay config =
    \<lparr>pe_peer = peer, pe_node_type = cell_provisional node_type,
     pe_scoring = \<lparr>sps_score = score_new fo, sps_config = config, sps_warned = False\<rparr>,
     pe_last_seen = now, pe_backoff = backoff_new, pe_ban_info = None, pe_last_decay = now,
     pe_jitter_seed = jitter_seed_from_overlay overlay, pe_connected_since = 0,
     pe_last_productive = 0, pe_direction = 0, pe_trust = trust_repr Normal,
     pe_verified = False\<rparr>"

definition entry_from_snapshot ::
  "'f float_ops \<Rightarrow> nat \<Rightarrow> 'm peer_snapshot \<Rightarrow> 'f swarm_scoring_config \<Rightarrow> ('f, 'm) peer_entry" where
  "entry_from_snapshot fo now sn config =
    \<lparr>pe_peer = psn_peer sn, pe_node_type = cell_provisional (psn_node_type sn),
     pe_scoring = \<lparr>sps_score = score_new fo, sps_config = config, sps_warned = False\<rparr>,
     pe_last_seen = psn_last_seen sn, pe_backoff = backoff_new, pe_ban_info = None,
     pe_last_decay = now, pe_jitter_seed = jitter_seed_from_overlay (sp_overlay (psn_peer sn)),
     pe_connected_since = 0, pe_last_productive = 0, pe_direction = 0,
     pe_trust = trust_repr Normal, pe_verified = False\<rparr>"

definition entry_score :: "('f, 'm) peer_entry \<Rightarrow> 'f" where
  "entry_score e = ps_score (sps_score (pe_scoring e))"

definition entry_failures :: "('f, 'm) peer_entry \<Rightarrow> nat" where
  "entry_failures e = pb_consecutive_failures (pe_backoff e)"

definition touch :: "nat \<Rightarrow> ('f, 'm) peer_entry \<Rightarrow> ('f, 'm) peer_entry" where
  "touch now e = e\<lparr>pe_last_seen := now\<rparr>"

definition update_addresses ::
  "nat \<Rightarrow> 'm swarm_peer \<Rightarrow> ('f, 'm) peer_entry \<Rightarrow> ('f, 'm) peer_entry" where
  "update_addresses now peer e =
    (let e' = e\<lparr>pe_peer := peer\<rparr> in if entry_failures e' = 0 then touch now e' else e')"

definition set_provisional_node_type ::
  "swarm_node_type \<Rightarrow> ('f, 'm) peer_entry \<Rightarrow> ('f, 'm) peer_entry" where
  "set_provisional_node_type node_type e =
    e\<lparr>pe_node_type := fst (cell_set_provisional node_type (pe_node_type e))\<rparr>"

definition confirm_node_type ::
  "swarm_node_type \<Rightarrow> ('f, 'm) peer_entry \<Rightarrow> ('f, 'm) peer_entry" where
  "confirm_node_type node_type e = e\<lparr>pe_node_type := cell_confirm node_type\<rparr>"

definition mark_verified :: "('f, 'm) peer_entry \<Rightarrow> ('f, 'm) peer_entry \<times> bool" where
  "mark_verified e = (e\<lparr>pe_verified := True\<rparr>, \<not> pe_verified e)"

definition entry_record_event ::
  "('f :: linorder) float_ops \<Rightarrow> swarm_scoring_event \<Rightarrow> ('f, 'm) peer_entry
    \<Rightarrow> ('f, 'm) peer_entry \<times> 'f score_change" where
  "entry_record_event fo event e =
    (let (s, change) = record_event_change fo event (pe_scoring e)
     in (e\<lparr>pe_scoring := s\<rparr>, change))"

definition entry_is_banned :: "('f, 'm) peer_entry \<Rightarrow> bool" where
  "entry_is_banned e \<longleftrightarrow> pe_ban_info e \<noteq> None"

definition entry_is_connected :: "('f, 'm) peer_entry \<Rightarrow> bool" where
  "entry_is_connected e \<longleftrightarrow> pe_connected_since e \<noteq> 0"

definition decay_score ::
  "('f :: linorder) float_ops \<Rightarrow> nat \<Rightarrow> ('f, 'm) peer_entry
    \<Rightarrow> ('f, 'm) peer_entry \<times> ('f \<times> 'f) option" where
  "decay_score fo now e0 =
    (let elapsed = now - pe_last_decay e0; e = e0\<lparr>pe_last_decay := now\<rparr> in
     if elapsed = 0 \<or> entry_is_banned e \<or> entry_score e = fo_lit fo 0 then (e, None)
     else
       let half_life = (if entry_is_connected e then 300 else 600);
           (s, old_score, new_score) = swarm_score_decay fo half_life elapsed (pe_scoring e)
       in (e\<lparr>pe_scoring := s\<rparr>, Some (old_score, new_score)))"

definition reset_score ::
  "('f :: linorder) float_ops \<Rightarrow> 'f \<Rightarrow> ('f, 'm) peer_entry \<Rightarrow> ('f, 'm) peer_entry \<times> 'f \<times> 'f" where
  "reset_score fo score e =
    (let (s, old_score, new_score) = swarm_score_reset fo score (pe_scoring e)
     in (e\<lparr>pe_scoring := s\<rparr>, old_score, new_score))"

definition set_connected ::
  "nat \<Rightarrow> connection_direction \<Rightarrow> trust_level \<Rightarrow> ('f, 'm) peer_entry \<Rightarrow> ('f, 'm) peer_entry" where
  "set_connected now direction trust e =
    touch now (e\<lparr>pe_last_productive := 0, pe_connected_since := now,
      pe_direction := direction_to_repr direction, pe_trust := trust_repr trust,
      pe_backoff := backoff_reset (pe_backoff e)\<rparr>)"

definition clear_connected :: "('f, 'm) peer_entry \<Rightarrow> ('f, 'm) peer_entry" where
  "clear_connected e = e\<lparr>pe_connected_since := 0, pe_direction := 0\<rparr>"

definition record_useful_activity :: "nat \<Rightarrow> ('f, 'm) peer_entry \<Rightarrow> ('f, 'm) peer_entry" where
  "record_useful_activity now e = e\<lparr>pe_last_productive := now\<rparr>"

definition entry_productive :: "('f, 'm) peer_entry \<Rightarrow> bool" where
  "entry_productive e \<longleftrightarrow>
    pe_connected_since e \<noteq> 0 \<and> pe_connected_since e \<le> pe_last_productive e"

definition entry_connected_since :: "('f, 'm) peer_entry \<Rightarrow> nat option" where
  "entry_connected_since e = (if pe_connected_since e = 0 then None else Some (pe_connected_since e))"

definition entry_record_latency :: "nat \<Rightarrow> ('f, 'm) peer_entry \<Rightarrow> ('f, 'm) peer_entry" where
  "entry_record_latency nanos e =
    e\<lparr>pe_scoring := (pe_scoring e)\<lparr>sps_score :=
        score_record_latency (nanos mod u64_modulus) (sps_score (pe_scoring e))\<rparr>\<rparr>"

definition entry_ban :: "nat \<Rightarrow> string option \<Rightarrow> ('f, 'm) peer_entry \<Rightarrow> ('f, 'm) peer_entry" where
  "entry_ban now reason e =
    e\<lparr>pe_ban_info := Some (now, case reason of Some r \<Rightarrow> r | None \<Rightarrow> [])\<rparr>"

definition clear_ban :: "('f, 'm) peer_entry \<Rightarrow> ('f, 'm) peer_entry" where
  "clear_ban e = e\<lparr>pe_ban_info := None\<rparr>"

definition entry_dial_failure :: "nat \<Rightarrow> ('f, 'm) peer_entry \<Rightarrow> ('f, 'm) peer_entry" where
  "entry_dial_failure now e = e\<lparr>pe_backoff := backoff_record_failure now (pe_backoff e)\<rparr>"

definition backoff_remaining :: "nat \<Rightarrow> ('f, 'm) peer_entry \<Rightarrow> nat option" where
  "backoff_remaining now e = remaining_jittered (pe_backoff e) now (pe_jitter_seed e)"

definition is_in_backoff :: "nat \<Rightarrow> ('f, 'm) peer_entry \<Rightarrow> bool" where
  "is_in_backoff now e \<longleftrightarrow> backoff_remaining now e \<noteq> None"

definition is_dialable :: "nat \<Rightarrow> ('f, 'm) peer_entry \<Rightarrow> bool" where
  "is_dialable now e \<longleftrightarrow> \<not> entry_is_banned e \<and> \<not> is_in_backoff now e"

definition is_stale :: "nat \<Rightarrow> ('f, 'm) peer_entry \<Rightarrow> bool" where
  "is_stale now e =
    (let failures = entry_failures e; budget = (if pe_verified e then 48 else 3) in
     if failures = 0 then False
     else if budget \<le> failures then True
     else 24 * 3600 < now - pe_last_seen e)"

definition entry_health :: "nat \<Rightarrow> ('f, 'm) peer_entry \<Rightarrow> health_state" where
  "entry_health now e =
    (if entry_is_banned e then BannedState else if is_stale now e then Stale
     else if 0 < entry_failures e then Failing else Healthy)"

definition snapshot_of_entry :: "('f, 'm) peer_entry \<Rightarrow> 'm peer_snapshot" where
  "snapshot_of_entry e =
    \<lparr>psn_peer = pe_peer e, psn_node_type = cell_get (pe_node_type e), psn_last_seen = pe_last_seen e\<rparr>"

end
