(* ===== verification/Kademlia_Limits.thy ===== *)
theory Kademlia_Limits
  imports Vertex_Prelude
begin

text \<open>
  The depth-aware bin allocation of \<^verbatim>\<open>topology/src/kademlia/limits.rs\<close> and the phase
  machine of \<^verbatim>\<open>phase.rs\<close>. A \<^verbatim>\<open>Bin\<close> and a \<^verbatim>\<open>NeighborhoodDepth\<close> are their index, a
  natural number of at most \<open>bin_max\<close>; a \<^verbatim>\<open>usize\<close> is a natural number of at most
  \<open>u64_max\<close>, with the saturating and the plain operations as the source uses them. Time
  is in nanoseconds.
\<close>

section \<open>Bins and depths\<close>

abbreviation bin_max :: nat where "bin_max \<equiv> 31"

text \<open>\<^verbatim>\<open>Bin::new(po).unwrap_or(Bin::MAX)\<close>.\<close>

definition bin_or_max :: "nat \<Rightarrow> nat" where
  "bin_or_max po = (if po \<le> bin_max then po else bin_max)"

definition depth_contains :: "nat \<Rightarrow> nat \<Rightarrow> bool" where
  "depth_contains depth bin \<longleftrightarrow> depth \<le> bin"

definition all_bins :: "nat \<Rightarrow> nat list" where
  "all_bins mx = map bin_or_max [0..<mx + 1]"

definition balanced_bins :: "nat \<Rightarrow> nat list" where
  "balanced_bins depth = map bin_or_max [0..<depth]"

definition neighborhood_bins :: "nat \<Rightarrow> nat \<Rightarrow> nat list" where
  "neighborhood_bins depth mx = map bin_or_max [depth..<mx + 1]"

lemma bin_or_max_id [simp]: "b \<le> bin_max \<Longrightarrow> bin_or_max b = b"
  by (simp add: bin_or_max_def)

lemma bin_or_max_le [simp]: "bin_or_max b \<le> bin_max"
  by (simp add: bin_or_max_def)

lemma all_bins_eq [simp]: "mx \<le> bin_max \<Longrightarrow> all_bins mx = [0..<mx + 1]"
  unfolding all_bins_def by (rule map_idI) auto

lemma balanced_bins_eq [simp]: "depth \<le> bin_max \<Longrightarrow> balanced_bins depth = [0..<depth]"
  unfolding balanced_bins_def by (rule map_idI) simp

lemma neighborhood_bins_eq [simp]:
  "mx \<le> bin_max \<Longrightarrow> neighborhood_bins depth mx = [depth..<mx + 1]"
  unfolding neighborhood_bins_def by (rule map_idI) auto

section \<open>Limits\<close>

record depth_aware_limits =
  dal_total_target :: nat
  dal_nominal :: nat
  dal_inbound_headroom :: nat
  dal_bootstrap_target :: nat
  dal_oversaturation_peers :: nat
  dal_saturation :: nat

text \<open>\<^verbatim>\<open>DEFAULT_SATURATION_PEERS\<close> of \<^verbatim>\<open>api/src/spec.rs\<close>.\<close>

definition default_saturation_peers :: nat where
  "default_saturation_peers = 8"

definition limits_new :: "nat \<Rightarrow> nat \<Rightarrow> depth_aware_limits" where
  "limits_new total_target nominal =
    \<lparr>dal_total_target = total_target, dal_nominal = nominal, dal_inbound_headroom = 4,
     dal_bootstrap_target = 18, dal_oversaturation_peers = 18,
     dal_saturation = default_saturation_peers\<rparr>"

definition limits_default :: depth_aware_limits where
  "limits_default = limits_new 160 3"

definition with_inbound_headroom :: "nat \<Rightarrow> depth_aware_limits \<Rightarrow> depth_aware_limits" where
  "with_inbound_headroom headroom l = l\<lparr>dal_inbound_headroom := headroom\<rparr>"

definition with_saturation :: "nat \<Rightarrow> depth_aware_limits \<Rightarrow> depth_aware_limits" where
  "with_saturation saturation l = l\<lparr>dal_saturation := saturation\<rparr>"

definition with_bootstrap_target :: "nat \<Rightarrow> depth_aware_limits \<Rightarrow> depth_aware_limits" where
  "with_bootstrap_target target l = l\<lparr>dal_bootstrap_target := target\<rparr>"

definition with_total_target :: "nat \<Rightarrow> depth_aware_limits \<Rightarrow> depth_aware_limits" where
  "with_total_target total_target l = l\<lparr>dal_total_target := total_target\<rparr>"

definition with_nominal :: "nat \<Rightarrow> depth_aware_limits \<Rightarrow> depth_aware_limits" where
  "with_nominal nominal l = l\<lparr>dal_nominal := nominal\<rparr>"

definition oversaturation :: "depth_aware_limits \<Rightarrow> nat" where
  "oversaturation l =
    max (max (dal_oversaturation_peers l) (dal_bootstrap_target l)) (dal_saturation l)"

text \<open>The taper allocation of a balanced bin, before its floors.\<close>

definition allocated :: "depth_aware_limits \<Rightarrow> nat \<Rightarrow> nat \<Rightarrow> nat" where
  "allocated l bin depth =
    (let weight = bin + 1; weight_sum = depth * (depth + 1) div 2
     in u64_saturating_mul (dal_total_target l) weight div weight_sum)"

definition target :: "depth_aware_limits \<Rightarrow> nat \<Rightarrow> nat \<Rightarrow> nat" where
  "target l bin depth =
    (if depth = 0 then max (dal_bootstrap_target l) (dal_saturation l)
     else if depth_contains depth bin then u64_max
     else max (max (allocated l bin depth) (dal_nominal l)) (dal_saturation l))"

definition needs_more :: "depth_aware_limits \<Rightarrow> nat \<Rightarrow> nat \<Rightarrow> nat \<Rightarrow> bool" where
  "needs_more l bin depth connected =
    (let t = target l bin depth in if t = u64_max then True else connected < t)"

definition deficit :: "depth_aware_limits \<Rightarrow> nat \<Rightarrow> nat \<Rightarrow> nat \<Rightarrow> nat" where
  "deficit l bin depth connected =
    (let t = target l bin depth in if t = u64_max then 1000 - connected else t - connected)"

definition surplus :: "depth_aware_limits \<Rightarrow> nat \<Rightarrow> nat \<Rightarrow> nat \<Rightarrow> nat" where
  "surplus l bin depth connected =
    (let t = target l bin depth
     in if t = u64_max then 0 else connected - max t (oversaturation l))"

text \<open>The sum is the plain addition of the source, which wraps in a release build.\<close>

definition ceiling_of :: "depth_aware_limits \<Rightarrow> nat \<Rightarrow> nat \<Rightarrow> nat" where
  "ceiling_of l bin depth =
    (let t = target l bin depth
     in if t = u64_max then u64_max
        else max (u64_wrapping_add t (dal_inbound_headroom l)) (oversaturation l))"

definition limits_accept_inbound :: "depth_aware_limits \<Rightarrow> nat \<Rightarrow> nat \<Rightarrow> nat \<Rightarrow> bool" where
  "limits_accept_inbound l bin depth connected \<longleftrightarrow> connected < ceiling_of l bin depth"

text \<open>The loop over the bins from the deepest down: the first with enough known peers.\<close>

fun estimate_scan :: "nat \<Rightarrow> (nat \<times> nat) list \<Rightarrow> nat" where
  "estimate_scan nominal [] = 0"
| "estimate_scan nominal ((idx, count) # rest) =
    (if nominal \<le> count then bin_or_max (idx mod 256) else estimate_scan nominal rest)"

definition estimate_depth_from_known :: "depth_aware_limits \<Rightarrow> nat list \<Rightarrow> nat" where
  "estimate_depth_from_known l known_bin_sizes =
    estimate_scan (dal_nominal l) (rev (enumerate 0 known_bin_sizes))"

definition effective_depth :: "depth_aware_limits \<Rightarrow> nat \<Rightarrow> nat list \<Rightarrow> nat" where
  "effective_depth l connected_depth known_bin_sizes =
    max connected_depth (estimate_depth_from_known l known_bin_sizes)"

section \<open>The limits at one depth\<close>

record limits_snapshot =
  ls_depth :: nat
  ls_limits :: depth_aware_limits

definition limits_capture :: "depth_aware_limits \<Rightarrow> nat \<Rightarrow> limits_snapshot" where
  "limits_capture l depth = \<lparr>ls_depth = depth, ls_limits = l\<rparr>"

definition snapshot_needs_more :: "limits_snapshot \<Rightarrow> nat \<Rightarrow> nat \<Rightarrow> bool" where
  "snapshot_needs_more s bin connected = needs_more (ls_limits s) bin (ls_depth s) connected"

definition snapshot_deficit :: "limits_snapshot \<Rightarrow> nat \<Rightarrow> nat \<Rightarrow> nat" where
  "snapshot_deficit s bin connected = deficit (ls_limits s) bin (ls_depth s) connected"

section \<open>Configuration\<close>

record kademlia_config =
  kc_limits :: depth_aware_limits
  kc_max_neighbor_candidates :: nat
  kc_max_balanced_candidates :: nat
  kc_neighborhood_stability_window :: nat
  kc_depth_lower_window :: nat
  kc_phase_stability_window :: nat

definition kademlia_config_default :: kademlia_config where
  "kademlia_config_default =
    \<lparr>kc_limits = limits_default, kc_max_neighbor_candidates = 16,
     kc_max_balanced_candidates = 16, kc_neighborhood_stability_window = 30 * 10 ^ 9,
     kc_depth_lower_window = 30 * 10 ^ 9, kc_phase_stability_window = 60 * 10 ^ 9\<rparr>"

section \<open>The phase machine\<close>

datatype topology_phase = Bootstrap | Converging | Stable

record phase_transition =
  pt_from :: topology_phase
  pt_to :: topology_phase
  pt_depth :: nat
  pt_time_in_phase :: nat

record phase_tracker =
  ptr_phase :: topology_phase
  ptr_entered_at :: nat
  ptr_stability_window :: nat
  ptr_last_depth :: nat
  ptr_last_depth_change :: nat

definition tracker_new :: "nat \<Rightarrow> nat \<Rightarrow> phase_tracker" where
  "tracker_new stability_window now =
    \<lparr>ptr_phase = Bootstrap, ptr_entered_at = now, ptr_stability_window = stability_window,
     ptr_last_depth = 0, ptr_last_depth_change = now\<rparr>"

definition time_in_phase :: "phase_tracker \<Rightarrow> nat \<Rightarrow> nat" where
  "time_in_phase t now = now - ptr_entered_at t"

definition tracker_evaluate ::
  "phase_tracker \<Rightarrow> nat \<Rightarrow> bool \<Rightarrow> nat \<Rightarrow> phase_tracker \<times> phase_transition option" where
  "tracker_evaluate t0 depth neighborhood_saturated now =
    (let t = (if depth \<noteq> ptr_last_depth t0
              then t0\<lparr>ptr_last_depth := depth, ptr_last_depth_change := now\<rparr> else t0);
         nxt = (if depth = 0 then Bootstrap
                else if \<not> neighborhood_saturated
                     \<or> now - ptr_last_depth_change t < ptr_stability_window t
                then Converging else Stable)
     in if nxt = ptr_phase t then (t, None)
        else (t\<lparr>ptr_phase := nxt, ptr_entered_at := now\<rparr>,
              Some \<lparr>pt_from = ptr_phase t, pt_to = nxt, pt_depth = depth,
                    pt_time_in_phase = time_in_phase t now\<rparr>))"


section \<open>The band of a bin\<close>

lemma saturation_le_target: "dal_saturation l \<le> u64_max \<Longrightarrow> dal_saturation l \<le> target l bin depth"
  by (simp add: target_def)

lemma oversaturation_ge:
  "dal_saturation l \<le> oversaturation l" "dal_bootstrap_target l \<le> oversaturation l"
  "dal_oversaturation_peers l \<le> oversaturation l"
  by (simp_all add: oversaturation_def)

lemma surplus_exact:
  assumes "0 < surplus l bin depth connected"
  shows "connected - surplus l bin depth connected = max (target l bin depth) (oversaturation l)"
  using assms unfolding surplus_def Let_def by (auto split: if_splits)

lemma needs_more_not_surplus:
  "needs_more l bin depth connected \<Longrightarrow> surplus l bin depth (connected + 1) = 0"
  by (auto simp: needs_more_def surplus_def Let_def split: if_splits)

lemma bootstrap_fill_not_surplus:
  "connected \<le> target l bin 0 \<Longrightarrow> surplus l bin depth connected = 0"
  using oversaturation_ge [of l] by (auto simp: surplus_def Let_def target_def)

lemma target_u64:
  assumes "dal_bootstrap_target l \<le> u64_max" and "dal_saturation l \<le> u64_max"
    and "dal_nominal l \<le> u64_max"
  shows "target l bin depth \<le> u64_max"
proof -
  have "allocated l bin depth \<le> u64_saturating_mul (dal_total_target l) (bin + 1)"
    unfolding allocated_def Let_def by (rule div_le_dividend)
  then have "allocated l bin depth \<le> u64_max" unfolding u64_saturating_mul_def by linarith
  then show ?thesis using assms by (simp add: target_def)
qed

lemma dial_within_ceiling:
  assumes "needs_more l bin depth connected" and "connected < u64_max"
    and "target l bin depth = u64_max \<or> target l bin depth + dal_inbound_headroom l \<le> u64_max"
  shows "connected + 1 \<le> ceiling_of l bin depth"
  using assms by (auto simp: needs_more_def ceiling_of_def Let_def split: if_splits)

text \<open>C36. Whatever the configuration, the target of a bin is never below saturation, trimming
  leaves a bin at its trim floor, which is at least the target, the saturation and the
  bootstrap fill, what dialling or the bootstrap fill added is never surplus, and a bin
  that still wants peers is below its inbound ceiling.\<close>

theorem allocation_band:
  assumes "dal_saturation l \<le> u64_max" and "connected < u64_max"
    and "target l bin depth = u64_max \<or> target l bin depth + dal_inbound_headroom l \<le> u64_max"
  shows "dal_saturation l \<le> target l bin depth
    \<and> (0 < surplus l bin depth connected \<longrightarrow>
        connected - surplus l bin depth connected = max (target l bin depth) (oversaturation l)
        \<and> dal_saturation l \<le> connected - surplus l bin depth connected
        \<and> dal_bootstrap_target l \<le> connected - surplus l bin depth connected)
    \<and> (needs_more l bin depth connected \<longrightarrow>
        surplus l bin depth (connected + 1) = 0 \<and> connected + 1 \<le> ceiling_of l bin depth)
    \<and> (connected \<le> target l bin 0 \<longrightarrow> surplus l bin depth connected = 0)"
proof (intro conjI impI)
  show "dal_saturation l \<le> target l bin depth" using assms(1) by (rule saturation_le_target)
  assume s: "0 < surplus l bin depth connected"
  show "connected - surplus l bin depth connected = max (target l bin depth) (oversaturation l)"
    using s by (rule surplus_exact)
  then show "dal_saturation l \<le> connected - surplus l bin depth connected"
    and "dal_bootstrap_target l \<le> connected - surplus l bin depth connected"
    using oversaturation_ge [of l] by simp_all
next
  assume n: "needs_more l bin depth connected"
  then show "surplus l bin depth (connected + 1) = 0" by (rule needs_more_not_surplus)
  show "connected + 1 \<le> ceiling_of l bin depth" using n assms(2,3) by (rule dial_within_ceiling)
next
  assume "connected \<le> target l bin 0"
  then show "surplus l bin depth connected = 0" by (rule bootstrap_fill_not_surplus)
qed

theorem allocation_band_witness:
  "dal_saturation limits_default \<le> u64_max
    \<and> 0 < surplus limits_default 0 8 20
    \<and> 20 - surplus limits_default 0 8 20 = 18 \<and> needs_more limits_default 7 8 34
    \<and> surplus limits_default 7 8 35 = 0 \<and> 35 \<le> ceiling_of limits_default 7 8"
  using allocation_band [of limits_default 20 0 8] allocation_band [of limits_default 34 7 8]
  by (simp add: limits_default_def limits_new_def target_def allocated_def needs_more_def
      surplus_def oversaturation_def depth_contains_def u64_saturating_mul_def
      default_saturation_peers_def Let_def)

text \<open>The ceiling can lie above the trim floor, so that an inbound peer that is accepted is
  surplus at once.\<close>

lemma accepted_is_surplus:
  "limits_accept_inbound limits_default 7 8 35 \<and> surplus limits_default 7 8 36 = 1"
  by (simp add: limits_accept_inbound_def ceiling_of_def limits_default_def limits_new_def
      target_def allocated_def surplus_def oversaturation_def depth_contains_def
      u64_saturating_mul_def default_saturation_peers_def Let_def)

section \<open>The taper\<close>

lemma weight_sum: "(\<Sum>b<depth. b + 1) = depth * (depth + 1) div (2 :: nat)"
  by (induction depth) (auto simp: algebra_simps)

lemma sum_div_le: "(\<Sum>b\<in>A. f b div c) \<le> (\<Sum>b\<in>A. f b) div (c :: nat)"
proof (cases "finite A")
  case True
  then show ?thesis
  proof (induction A)
    case (insert x A)
    have "f x div c + (\<Sum>b\<in>A. f b) div c \<le> (f x + (\<Sum>b\<in>A. f b)) div c"
      by (subst div_add1_eq [of "f x"]) simp
    then show ?case using insert by simp
  qed simp
qed simp

lemma allocated_mono: "b \<le> b' \<Longrightarrow> allocated l b depth \<le> allocated l b' depth"
  unfolding allocated_def Let_def u64_saturating_mul_def
  by (intro div_le_mono min.mono mult_le_mono) simp_all

text \<open>The taper never hands out more than the total budget over the balanced bins, gives a
  deeper bin at least as much as a shallower one, and the dial targets of the balanced
  bins together exceed the budget by at most their floors.\<close>

lemma taper_within_budget:
  "(\<Sum>b<depth. allocated l b depth) \<le> dal_total_target l
    \<and> (\<Sum>b<depth. target l b depth)
        \<le> dal_total_target l + depth * max (dal_nominal l) (dal_saturation l)
    \<and> (\<forall>b. allocated l b depth \<le> allocated l (b + 1) depth)"
proof (cases "depth = 0")
  case False
  let ?w = "depth * (depth + 1) div 2"
  have w: "0 < ?w" using False by (cases depth) auto
  have "(\<Sum>b<depth. allocated l b depth) \<le> (\<Sum>b<depth. dal_total_target l * (b + 1) div ?w)"
    unfolding allocated_def Let_def u64_saturating_mul_def by (intro sum_mono div_le_mono) simp
  also have "\<dots> \<le> (\<Sum>b<depth. dal_total_target l * (b + 1)) div ?w" by (rule sum_div_le)
  also have "\<dots> = dal_total_target l"
    using w by (simp only: sum_distrib_left [symmetric] weight_sum) simp
  finally have a: "(\<Sum>b<depth. allocated l b depth) \<le> dal_total_target l" .
  have "(\<Sum>b<depth. target l b depth)
      \<le> (\<Sum>b<depth. allocated l b depth + max (dal_nominal l) (dal_saturation l))"
    using False by (intro sum_mono) (auto simp: target_def depth_contains_def)
  also have "\<dots> \<le> dal_total_target l + depth * max (dal_nominal l) (dal_saturation l)"
    using a by (simp add: sum.distrib)
  finally show ?thesis using a allocated_mono by simp
qed (simp add: allocated_mono)

lemma estimate_scan_rev:
  "length ks \<le> bin_max + 1 \<Longrightarrow>
    estimate_scan n (rev (enumerate 0 ks))
      = (if \<exists>i<length ks. n \<le> ks ! i then Max {i. i < length ks \<and> n \<le> ks ! i} else 0)"
proof (induction ks rule: rev_induct)
  case (snoc k ks)
  have e: "rev (enumerate 0 (ks @ [k])) = (length ks, k) # rev (enumerate 0 ks)"
    by (simp add: enumerate_append_eq)
  show ?case
  proof (cases "n \<le> k")
    case True
    then have "Max {i. i < length (ks @ [k]) \<and> n \<le> (ks @ [k]) ! i} = length ks"
      by (intro Max_eqI) (auto simp: nth_append)
    then show ?thesis using True snoc.prems by (auto simp: e nth_append)
  next
    case False
    then have "{i. i < length (ks @ [k]) \<and> n \<le> (ks @ [k]) ! i} = {i. i < length ks \<and> n \<le> ks ! i}"
      by (auto simp: nth_append less_Suc_eq)
    moreover from False have "(\<exists>i<length (ks @ [k]). n \<le> (ks @ [k]) ! i) \<longleftrightarrow> (\<exists>i<length ks. n \<le> ks ! i)"
      by (auto simp: nth_append less_Suc_eq)
    ultimately show ?thesis using False snoc by (auto simp: e)
  qed
qed simp

text \<open>The estimate is the deepest bin with the nominal number of known peers.\<close>

lemma estimate_depth_exact:
  "length ks \<le> bin_max + 1 \<Longrightarrow> estimate_depth_from_known l ks
    = (if \<exists>i<length ks. dal_nominal l \<le> ks ! i
       then Max {i. i < length ks \<and> dal_nominal l \<le> ks ! i} else 0)"
  unfolding estimate_depth_from_known_def by (rule estimate_scan_rev)

section \<open>Phases over a history of observations\<close>

type_synonym observation = "nat \<times> bool \<times> nat"

definition observe :: "observation \<Rightarrow> phase_tracker \<Rightarrow> phase_tracker" where
  "observe ob t = (case ob of (depth, sat, now) \<Rightarrow> fst (tracker_evaluate t depth sat now))"

definition tracker_run :: "nat \<Rightarrow> nat \<Rightarrow> observation list \<Rightarrow> phase_tracker" where
  "tracker_run window start obs = fold observe obs (tracker_new window start)"

text \<open>The phase that a history of observations calls for: the depth has been the same in
  every observation since one that is at least the window old.\<close>

definition steady :: "nat \<Rightarrow> observation list \<Rightarrow> nat \<Rightarrow> nat \<Rightarrow> bool" where
  "steady window obs depth now \<longleftrightarrow>
    (\<exists>i<length obs. snd (snd (obs ! i)) + window \<le> now
       \<and> (\<forall>j<length obs. i \<le> j \<longrightarrow> fst (obs ! j) = depth))"

definition derived_phase :: "nat \<Rightarrow> observation list \<Rightarrow> topology_phase" where
  "derived_phase window obs =
    (case rev obs of [] \<Rightarrow> Bootstrap
     | (depth, sat, now) # _ \<Rightarrow>
         if depth = 0 then Bootstrap
         else if sat \<and> steady window obs depth now then Stable else Converging)"

lemma tracker_run_snoc [simp]:
  "tracker_run w s (obs @ [ob]) = observe ob (tracker_run w s obs)"
  by (simp add: tracker_run_def)

lemma tracker_run_Nil [simp]: "tracker_run w s [] = tracker_new w s"
  by (simp add: tracker_run_def)

lemma observe_window [simp]: "ptr_stability_window (observe ob t) = ptr_stability_window t"
  by (auto simp: observe_def tracker_evaluate_def Let_def split: prod.splits)

lemma observe_last_depth [simp]: "ptr_last_depth (observe (d, sat, now) t) = d"
  by (auto simp: observe_def tracker_evaluate_def Let_def)

lemma observe_last_change:
  "ptr_last_depth_change (observe (d, sat, now) t)
    = (if d \<noteq> ptr_last_depth t then now else ptr_last_depth_change t)"
  by (auto simp: observe_def tracker_evaluate_def Let_def)

lemma observe_phase:
  "ptr_phase (observe (d, sat, now) t)
    = (if d = 0 then Bootstrap
       else if \<not> sat \<or> now - ptr_last_depth_change (observe (d, sat, now) t) < ptr_stability_window t
       then Converging else Stable)"
  unfolding observe_last_change by (auto simp: observe_def tracker_evaluate_def Let_def)

lemma run_window [simp]: "ptr_stability_window (tracker_run w s obs) = w"
  by (induction obs rule: rev_induct) (simp_all add: tracker_new_def)

lemma run_last_depth:
  "ptr_last_depth (tracker_run w s obs) = (if obs = [] then 0 else fst (last obs))"
  by (induction obs rule: rev_induct) (auto simp: tracker_new_def)

text \<open>The recorded change is the observation that begins the current run of equal depths.\<close>

definition change_at :: "observation list \<Rightarrow> nat \<Rightarrow> nat \<Rightarrow> bool" where
  "change_at obs k t \<longleftrightarrow>
    k < length obs \<and> t = snd (snd (obs ! k))
    \<and> (\<forall>j<length obs. k \<le> j \<longrightarrow> fst (obs ! j) = fst (last obs))
    \<and> (0 < k \<longrightarrow> fst (obs ! (k - 1)) \<noteq> fst (last obs))"

lemma run_last_change:
  "obs \<noteq> [] \<Longrightarrow> fst (last obs) \<noteq> 0 \<Longrightarrow>
    \<exists>k. change_at obs k (ptr_last_depth_change (tracker_run w s obs))"
proof (induction obs rule: rev_induct)
  case (snoc ob obs)
  obtain d sat now where ob: "ob = (d, sat, now)" by (cases ob)
  have d: "d \<noteq> 0" using snoc.prems ob by simp
  show ?case
  proof (cases "obs \<noteq> [] \<and> fst (last obs) = d")
    case True
    then obtain k where "change_at obs k (ptr_last_depth_change (tracker_run w s obs))"
      using snoc.IH d by auto
    then have "change_at (obs @ [ob]) k (ptr_last_depth_change (tracker_run w s obs))"
      using True unfolding change_at_def by (auto simp: ob nth_append less_Suc_eq)
    then show ?thesis using True by (auto simp: ob observe_last_change run_last_depth)
  next
    case False
    have "change_at (obs @ [ob]) (length obs) now"
      using False unfolding change_at_def
      by (cases obs rule: rev_cases) (auto simp: ob nth_append)
    moreover have "d \<noteq> ptr_last_depth (tracker_run w s obs)"
      using False d by (auto simp: run_last_depth)
    ultimately show ?thesis by (auto simp: ob observe_last_change)
  qed
qed simp

lemma change_at_steady:
  assumes c: "change_at obs k t" and s: "sorted (map (snd \<circ> snd) obs)"
  shows "steady w obs (fst (last obs)) now \<longleftrightarrow> t + w \<le> now"
proof
  assume "t + w \<le> now"
  then show "steady w obs (fst (last obs)) now" using c unfolding steady_def change_at_def by auto
next
  assume "steady w obs (fst (last obs)) now"
  then obtain i where i: "i < length obs" "snd (snd (obs ! i)) + w \<le> now"
    "\<forall>j<length obs. i \<le> j \<longrightarrow> fst (obs ! j) = fst (last obs)"
    unfolding steady_def by auto
  have "k \<le> i"
  proof (rule ccontr)
    assume "\<not> k \<le> i"
    then have "fst (obs ! (k - 1)) = fst (last obs)" and "0 < k"
      using i(3) c unfolding change_at_def by auto
    then show False using c unfolding change_at_def by simp
  qed
  then have "t \<le> snd (snd (obs ! i))"
    using c i(1) sorted_nth_mono [OF s, of k i] unfolding change_at_def by simp
  then show "t + w \<le> now" using i(2) by simp
qed

text \<open>C37. After any history of observations in time order the tracker is in the phase the
  history calls for: bootstrap exactly at depth zero, and stable exactly when the
  neighbourhood is saturated and the depth has been the same for the whole window.\<close>

theorem phase_follows_history:
  assumes "sorted (map (snd \<circ> snd) obs)"
  shows "ptr_phase (tracker_run window start obs) = derived_phase window obs"
proof (cases obs rule: rev_cases)
  case Nil
  then show ?thesis by (simp add: tracker_new_def derived_phase_def)
next
  case (snoc os ob)
  obtain d sat now where ob: "ob = (d, sat, now)" by (cases ob)
  show ?thesis
  proof (cases "d = 0")
    case True
    then show ?thesis by (simp add: snoc ob observe_phase derived_phase_def)
  next
    case False
    then obtain k where k: "change_at obs k (ptr_last_depth_change (tracker_run window start obs))"
      using run_last_change [of obs window start] snoc ob by auto
    let ?t = "ptr_last_depth_change (tracker_run window start obs)"
    have "steady window obs d now \<longleftrightarrow> ?t + window \<le> now"
      using change_at_steady [OF k assms] by (simp add: snoc ob)
    moreover have "?t \<le> now"
    proof -
      have "snd (snd (obs ! k)) \<le> snd (snd (obs ! (length obs - 1)))"
        using sorted_nth_mono [OF assms, of k "length obs - 1"] k
        unfolding change_at_def by auto
      then show ?thesis using k unfolding change_at_def by (simp add: snoc ob)
    qed
    ultimately show ?thesis using False
      by (auto simp: snoc ob observe_phase derived_phase_def)
  qed
qed

theorem phase_follows_history_witness:
  "ptr_phase (tracker_run 60 0 [(0, False, 1), (4, True, 5), (4, True, 70)]) = Stable
    \<and> derived_phase 60 [(0, False, 1), (4, True, 5), (4, True, 70)] = Stable"
proof -
  have "ptr_phase (tracker_run 60 0 [(0, False, 1), (4, True, 5), (4, True, 70)])
      = derived_phase 60 [(0, False, 1), (4, True, 5), (4, True, 70)]"
    by (rule phase_follows_history) simp
  moreover have "ptr_phase (tracker_run 60 0 [(0, False, 1), (4, True, 5), (4, True, 70)]) = Stable"
    by (simp add: tracker_run_def observe_def tracker_evaluate_def tracker_new_def Let_def)
  ultimately show ?thesis by simp
qed

end
