(* ===== verification/Proximity_Index.thy ===== *)
theory Proximity_Index
  imports Kademlia_Limits
begin

text \<open>
  The membership index of \<^verbatim>\<open>peers/peer-manager/src/proximity_index.rs\<close>: overlay addresses
  in bins by their proximity to the local overlay, counters per bin, and a listing cached
  under a generation stamp. The insertion-ordered set and the proximity of two addresses
  are library code and are the record \<open>overlay_lib\<close>; \<open>overlay_laws\<close> states what is
  used of them. An operation runs under the lock of its bin and is one step; the rebuild
  of the listing takes no lock while it collects and is two.
\<close>

section \<open>The libraries\<close>

record ('a, 's) overlay_lib =
  ol_proximity :: "'a \<Rightarrow> 'a \<Rightarrow> nat"
  ol_new :: 's
  ol_contains :: "'s \<Rightarrow> 'a \<Rightarrow> bool"
  ol_len :: "'s \<Rightarrow> nat"
  ol_insert :: "'s \<Rightarrow> 'a \<Rightarrow> 's"
  ol_remove :: "'s \<Rightarrow> 'a \<Rightarrow> 's \<times> bool"
  ol_iter :: "'s \<Rightarrow> 'a list"

text \<open>A new member goes to the end of the iteration order and a removal keeps the order of
  the others.\<close>

definition overlay_laws :: "('a, 's) overlay_lib \<Rightarrow> bool" where
  "overlay_laws lib \<longleftrightarrow>
    ol_iter lib (ol_new lib) = []
    \<and> (\<forall>s a. ol_contains lib s a \<longleftrightarrow> a \<in> set (ol_iter lib s))
    \<and> (\<forall>s. ol_len lib s = length (ol_iter lib s))
    \<and> (\<forall>s a. a \<notin> set (ol_iter lib s) \<longrightarrow> ol_iter lib (ol_insert lib s a) = ol_iter lib s @ [a])
    \<and> (\<forall>s a. ol_iter lib (fst (ol_remove lib s a)) = filter (\<lambda>x. x \<noteq> a) (ol_iter lib s)
           \<and> snd (ol_remove lib s a) = (a \<in> set (ol_iter lib s)))"

text \<open>An instance on lists, with the length of the common prefix as the proximity of bit
  strings.\<close>

fun common_prefix :: "bool list \<Rightarrow> bool list \<Rightarrow> nat" where
  "common_prefix (x # xs) (y # ys) = (if x = y then Suc (common_prefix xs ys) else 0)"
| "common_prefix _ _ = 0"

definition list_lib :: "(bool list, bool list list) overlay_lib" where
  "list_lib = \<lparr>ol_proximity = common_prefix, ol_new = [],
     ol_contains = (\<lambda>s a. List.member s a), ol_len = length,
     ol_insert = (\<lambda>s a. if List.member s a then s else s @ [a]),
     ol_remove = (\<lambda>s a. (filter (\<lambda>x. x \<noteq> a) s, List.member s a)), ol_iter = (\<lambda>s. s)\<rparr>"

lemma list_lib_laws: "overlay_laws list_lib"
  by (simp add: overlay_laws_def list_lib_def)

lemma overlay_simps:
  assumes "overlay_laws lib"
  shows "ol_iter lib (ol_new lib) = []"
    and "ol_contains lib s a \<longleftrightarrow> a \<in> set (ol_iter lib s)"
    and "ol_len lib s = length (ol_iter lib s)"
    and "a \<notin> set (ol_iter lib s) \<Longrightarrow> ol_iter lib (ol_insert lib s a) = ol_iter lib s @ [a]"
    and "ol_iter lib (fst (ol_remove lib s a)) = filter (\<lambda>x. x \<noteq> a) (ol_iter lib s)"
    and "snd (ol_remove lib s a) \<longleftrightarrow> a \<in> set (ol_iter lib s)"
  using assms unfolding overlay_laws_def by simp_all

section \<open>The index\<close>

datatype add_error = AlreadyPresent | BinFull

record 'a cached_list =
  cl_generation :: "nat option"
  cl_items :: "(nat \<times> 'a) list"

record ('a, 's) proximity_index =
  pi_local_overlay :: 'a
  pi_max_po :: nat
  pi_max_per_bin :: nat
  pi_bins :: "'s list"
  pi_bin_counts :: "nat list"
  pi_total_count :: nat
  pi_generation :: nat
  pi_cache :: "'a cached_list"

definition index_new :: "('a, 's) overlay_lib \<Rightarrow> 'a \<Rightarrow> nat \<Rightarrow> nat \<Rightarrow> ('a, 's) proximity_index" where
  "index_new lib local_overlay max_po max_per_bin =
    (let num_bins = max_po + 1 in
      \<lparr>pi_local_overlay = local_overlay, pi_max_po = max_po, pi_max_per_bin = max_per_bin,
       pi_bins = replicate num_bins (ol_new lib), pi_bin_counts = replicate num_bins 0,
       pi_total_count = 0, pi_generation = 0,
       pi_cache = \<lparr>cl_generation = None, cl_items = []\<rparr>\<rparr>)"

definition bin_size :: "('a, 's) proximity_index \<Rightarrow> nat \<Rightarrow> nat" where
  "bin_size ix bin = (if bin < length (pi_bin_counts ix) then pi_bin_counts ix ! bin else 0)"

definition bin_sizes :: "('a, 's) proximity_index \<Rightarrow> nat list" where
  "bin_sizes ix = pi_bin_counts ix"

definition index_len :: "('a, 's) proximity_index \<Rightarrow> nat" where
  "index_len ix = pi_total_count ix"

definition index_is_empty :: "('a, 's) proximity_index \<Rightarrow> bool" where
  "index_is_empty ix \<longleftrightarrow> pi_total_count ix = 0"

text \<open>The proximity is cut to the deepest bin of the table.\<close>

definition capped_bin :: "('a, 's) overlay_lib \<Rightarrow> 'a \<Rightarrow> nat \<Rightarrow> 'a \<Rightarrow> nat" where
  "capped_bin lib base max_po addr = bin_or_max (min (ol_proximity lib base addr) max_po)"

definition bin_for :: "('a, 's) overlay_lib \<Rightarrow> ('a, 's) proximity_index \<Rightarrow> 'a \<Rightarrow> nat" where
  "bin_for lib ix addr = capped_bin lib (pi_local_overlay ix) (pi_max_po ix) addr"

definition index_add ::
  "('a, 's) overlay_lib \<Rightarrow> ('a, 's) proximity_index \<Rightarrow> 'a
    \<Rightarrow> ('a, 's) proximity_index \<times> (add_error + unit)" where
  "index_add lib ix addr =
    (let bin = bin_for lib ix addr; bucket = pi_bins ix ! bin in
     if ol_contains lib bucket addr then (ix, Inl AlreadyPresent)
     else if 0 < pi_max_per_bin ix \<and> pi_max_per_bin ix \<le> ol_len lib bucket then (ix, Inl BinFull)
     else (ix\<lparr>pi_bins := (pi_bins ix)[bin := ol_insert lib bucket addr],
              pi_bin_counts := (pi_bin_counts ix)
                [bin := u64_wrapping_add (pi_bin_counts ix ! bin) 1],
              pi_total_count := u64_wrapping_add (pi_total_count ix) 1,
              pi_generation := u64_wrapping_add (pi_generation ix) 1\<rparr>, Inr ()))"

definition index_remove ::
  "('a, 's) overlay_lib \<Rightarrow> ('a, 's) proximity_index \<Rightarrow> 'a \<Rightarrow> ('a, 's) proximity_index \<times> bool" where
  "index_remove lib ix addr =
    (let bin = bin_for lib ix addr; (bucket, existed) = ol_remove lib (pi_bins ix ! bin) addr in
     if \<not> existed then (ix, False)
     else (ix\<lparr>pi_bins := (pi_bins ix)[bin := bucket],
              pi_bin_counts := (pi_bin_counts ix)
                [bin := u64_wrapping_sub (pi_bin_counts ix ! bin) 1],
              pi_total_count := u64_wrapping_sub (pi_total_count ix) 1,
              pi_generation := u64_wrapping_add (pi_generation ix) 1\<rparr>, True))"

definition index_exists :: "('a, 's) overlay_lib \<Rightarrow> ('a, 's) proximity_index \<Rightarrow> 'a \<Rightarrow> bool" where
  "index_exists lib ix addr = ol_contains lib (pi_bins ix ! bin_for lib ix addr) addr"

definition peers_in_bin :: "('a, 's) overlay_lib \<Rightarrow> ('a, 's) proximity_index \<Rightarrow> nat \<Rightarrow> 'a list" where
  "peers_in_bin lib ix bin =
    (if bin < length (pi_bins ix) then ol_iter lib (pi_bins ix ! bin) else [])"

definition all_peers :: "('a, 's) overlay_lib \<Rightarrow> ('a, 's) proximity_index \<Rightarrow> 'a list" where
  "all_peers lib ix = concat (map (ol_iter lib) (pi_bins ix))"

text \<open>The rebuild of the listing: the walk over the bins, which holds no lock on the cache,
  and the store under the cache's lock.\<close>

definition get_sorted_collect ::
  "('a, 's) overlay_lib \<Rightarrow> ('a, 's) proximity_index \<Rightarrow> (nat \<times> 'a) list" where
  "get_sorted_collect lib ix =
    concat (map (\<lambda>(idx, bucket). map (\<lambda>addr. (bin_or_max (idx mod 256), addr)) (ol_iter lib bucket))
      (enumerate 0 (pi_bins ix)))"

definition get_sorted_store ::
  "('a, 's) proximity_index \<Rightarrow> (nat \<times> 'a) list
    \<Rightarrow> ('a, 's) proximity_index \<times> (nat \<times> 'a) list" where
  "get_sorted_store ix items =
    (if cl_generation (pi_cache ix) = Some (pi_generation ix) then (ix, cl_items (pi_cache ix))
     else (ix\<lparr>pi_cache := \<lparr>cl_generation = Some (pi_generation ix), cl_items = items\<rparr>\<rparr>, items))"

definition get_sorted ::
  "('a, 's) overlay_lib \<Rightarrow> ('a, 's) proximity_index
    \<Rightarrow> ('a, 's) proximity_index \<times> (nat \<times> 'a) list" where
  "get_sorted lib ix =
    (if cl_generation (pi_cache ix) = Some (pi_generation ix) then (ix, cl_items (pi_cache ix))
     else get_sorted_store ix (get_sorted_collect lib ix))"

section \<open>The iterators\<close>

record 'a arc_iter =
  ai_data :: "'a list"
  ai_index :: nat

definition arc_iter_new :: "'a list \<Rightarrow> 'a arc_iter" where
  "arc_iter_new d = \<lparr>ai_data = d, ai_index = 0\<rparr>"

definition arc_iter_next :: "'a arc_iter \<Rightarrow> ('a \<times> 'a arc_iter) option" where
  "arc_iter_next it =
    (if ai_index it < length (ai_data it)
     then Some (ai_data it ! ai_index it, it\<lparr>ai_index := ai_index it + 1\<rparr>) else None)"

definition arc_iter_len :: "'a arc_iter \<Rightarrow> nat" where
  "arc_iter_len it = length (ai_data it) - ai_index it"

definition arc_iter_rev_new :: "'a list \<Rightarrow> 'a arc_iter" where
  "arc_iter_rev_new d = \<lparr>ai_data = d, ai_index = length d\<rparr>"

definition arc_iter_rev_next :: "'a arc_iter \<Rightarrow> ('a \<times> 'a arc_iter) option" where
  "arc_iter_rev_next it =
    (if 0 < ai_index it
     then Some (ai_data it ! (ai_index it - 1), it\<lparr>ai_index := ai_index it - 1\<rparr>) else None)"

text \<open>What a loop over the iterator sees; the iterator shortens at every step.\<close>

function arc_drain :: "'a arc_iter \<Rightarrow> 'a list" where
  "arc_drain it = (case arc_iter_next it of None \<Rightarrow> [] | Some (x, it') \<Rightarrow> x # arc_drain it')"
  by pat_completeness auto
termination
  by (relation "measure arc_iter_len")
     (auto simp: arc_iter_next_def arc_iter_len_def split: if_splits)

function arc_rev_drain :: "'a arc_iter \<Rightarrow> 'a list" where
  "arc_rev_drain it =
    (case arc_iter_rev_next it of None \<Rightarrow> [] | Some (x, it') \<Rightarrow> x # arc_rev_drain it')"
  by pat_completeness auto
termination
  by (relation "measure ai_index") (auto simp: arc_iter_rev_next_def split: if_splits)

declare arc_drain.simps [simp del] arc_rev_drain.simps [simp del]

definition iter_by_proximity ::
  "('a, 's) overlay_lib \<Rightarrow> ('a, 's) proximity_index
    \<Rightarrow> ('a, 's) proximity_index \<times> (nat \<times> 'a) list" where
  "iter_by_proximity lib ix =
    (let (ix', items) = get_sorted lib ix in (ix', arc_drain (arc_iter_new items)))"

definition iter_by_proximity_desc ::
  "('a, 's) overlay_lib \<Rightarrow> ('a, 's) proximity_index
    \<Rightarrow> ('a, 's) proximity_index \<times> (nat \<times> 'a) list" where
  "iter_by_proximity_desc lib ix =
    (let (ix', items) = get_sorted lib ix in (ix', arc_rev_drain (arc_iter_rev_new items)))"

lemma arc_drain_eq: "arc_drain it = drop (ai_index it) (ai_data it)"
  by (induction it rule: arc_drain.induct)
     (subst arc_drain.simps, auto simp: arc_iter_next_def Cons_nth_drop_Suc)

lemma arc_rev_drain_eq:
  "ai_index it \<le> length (ai_data it) \<Longrightarrow> arc_rev_drain it = rev (take (ai_index it) (ai_data it))"
proof (induction it rule: arc_rev_drain.induct)
  case (1 it)
  then show ?case
    by (subst arc_rev_drain.simps)
       (auto simp: arc_iter_rev_next_def take_Suc_conv_app_nth
         dest!: gr0_implies_Suc)
qed

section \<open>Invariant\<close>

definition members :: "('a, 's) overlay_lib \<Rightarrow> ('a, 's) proximity_index \<Rightarrow> 'a set" where
  "members lib ix = set (all_peers lib ix)"

definition bin_ok :: "('a, 's) overlay_lib \<Rightarrow> ('a, 's) proximity_index \<Rightarrow> nat \<Rightarrow> bool" where
  "bin_ok lib ix b \<longleftrightarrow>
    distinct (peers_in_bin lib ix b)
    \<and> (\<forall>a\<in>set (peers_in_bin lib ix b). bin_for lib ix a = b)
    \<and> pi_bin_counts ix ! b = length (peers_in_bin lib ix b)
    \<and> (0 < pi_max_per_bin ix \<longrightarrow> length (peers_in_bin lib ix b) \<le> pi_max_per_bin ix)"

definition cache_ok :: "('a, 's) overlay_lib \<Rightarrow> ('a, 's) proximity_index \<Rightarrow> bool" where
  "cache_ok lib ix \<longleftrightarrow>
    (\<forall>g. cl_generation (pi_cache ix) = Some g \<longrightarrow>
      g \<le> pi_generation ix
      \<and> (g = pi_generation ix \<longrightarrow> cl_items (pi_cache ix) = get_sorted_collect lib ix))"

definition index_ok :: "('a, 's) overlay_lib \<Rightarrow> ('a, 's) proximity_index \<Rightarrow> bool" where
  "index_ok lib ix \<longleftrightarrow>
    pi_max_po ix \<le> bin_max
    \<and> length (pi_bins ix) = pi_max_po ix + 1 \<and> length (pi_bin_counts ix) = pi_max_po ix + 1
    \<and> (\<forall>b\<le>pi_max_po ix. bin_ok lib ix b)
    \<and> pi_total_count ix = length (all_peers lib ix)
    \<and> pi_total_count ix \<le> pi_generation ix \<and> pi_generation ix \<le> u64_max"

lemma bin_okI:
  assumes "distinct (peers_in_bin lib ix b)"
    and "\<And>a. a \<in> set (peers_in_bin lib ix b) \<Longrightarrow> bin_for lib ix a = b"
    and "pi_bin_counts ix ! b = length (peers_in_bin lib ix b)"
    and "0 < pi_max_per_bin ix \<Longrightarrow> length (peers_in_bin lib ix b) \<le> pi_max_per_bin ix"
  shows "bin_ok lib ix b"
  using assms by (simp add: bin_ok_def)

lemma index_ok_shape:
  assumes "index_ok lib ix"
  shows "pi_max_po ix \<le> bin_max" "length (pi_bins ix) = pi_max_po ix + 1"
    "length (pi_bin_counts ix) = pi_max_po ix + 1"
    "pi_total_count ix = length (all_peers lib ix)"
    "pi_total_count ix \<le> pi_generation ix" "pi_generation ix \<le> u64_max"
  using assms by (simp_all add: index_ok_def)

lemma index_okI:
  assumes "pi_max_po ix \<le> bin_max" "length (pi_bins ix) = pi_max_po ix + 1"
    "length (pi_bin_counts ix) = pi_max_po ix + 1"
    "\<And>b. b \<le> pi_max_po ix \<Longrightarrow> bin_ok lib ix b"
    "pi_total_count ix = length (all_peers lib ix)"
    "pi_total_count ix \<le> pi_generation ix" "pi_generation ix \<le> u64_max"
  shows "index_ok lib ix"
  using assms by (simp add: index_ok_def)

lemma bin_for_le:
  assumes "index_ok lib ix" shows "bin_for lib ix a \<le> pi_max_po ix"
proof -
  have "pi_max_po ix \<le> bin_max" using assms by (simp add: index_ok_def)
  then have "min (ol_proximity lib (pi_local_overlay ix) a) (pi_max_po ix) \<le> bin_max" by linarith
  then show ?thesis by (simp add: bin_for_def capped_bin_def)
qed

lemma bin_for_lt:
  assumes "index_ok lib ix"
  shows "bin_for lib ix a < length (pi_bins ix)" "bin_for lib ix a < length (pi_bin_counts ix)"
  using assms bin_for_le [OF assms, of a] by (simp_all add: index_ok_def)

lemma index_ok_bin:
  assumes "index_ok lib ix" and "b \<le> pi_max_po ix"
  shows "distinct (peers_in_bin lib ix b)"
    and "a \<in> set (peers_in_bin lib ix b) \<Longrightarrow> bin_for lib ix a = b"
    and "pi_bin_counts ix ! b = length (peers_in_bin lib ix b)"
    and "0 < pi_max_per_bin ix \<Longrightarrow> length (peers_in_bin lib ix b) \<le> pi_max_per_bin ix"
  using assms by (auto simp: index_ok_def bin_ok_def)

lemma all_peers_bins:
  "all_peers lib ix = concat (map (peers_in_bin lib ix) [0..<length (pi_bins ix)])"
proof -
  have "map (ol_iter lib) (pi_bins ix) = map (peers_in_bin lib ix) [0..<length (pi_bins ix)]"
    by (rule nth_equalityI) (simp_all add: peers_in_bin_def)
  then show ?thesis by (simp add: all_peers_def)
qed

lemma members_iff:
  assumes "index_ok lib ix"
  shows "a \<in> members lib ix \<longleftrightarrow> a \<in> set (peers_in_bin lib ix (bin_for lib ix a))"
proof -
  have n: "b < length (pi_bins ix) \<longleftrightarrow> b \<le> pi_max_po ix" for b
    using assms by (auto simp: index_ok_def)
  show ?thesis
    using index_ok_bin(2) [OF assms] bin_for_le [OF assms]
    by (auto simp: members_def all_peers_bins n)
qed

lemma exists_iff:
  assumes "overlay_laws lib" and "index_ok lib ix"
  shows "index_exists lib ix a \<longleftrightarrow> a \<in> members lib ix"
  using overlay_simps(2) [OF assms(1)] bin_for_lt(1) [OF assms(2)]
  by (simp add: index_exists_def members_iff [OF assms(2)] peers_in_bin_def)

lemma length_all_peers:
  "length (all_peers lib ix) = sum_list (map (\<lambda>b. length (ol_iter lib b)) (pi_bins ix))"
  by (simp add: all_peers_def length_concat comp_def)

lemma member_in_total:
  assumes "k < length xs" shows "xs ! k \<le> sum_list (xs :: nat list)"
  using assms by (simp add: elem_le_sum_list)

lemma length_filter_neq:
  "distinct xs \<Longrightarrow> a \<in> set xs \<Longrightarrow> length (filter (\<lambda>x. x \<noteq> a) xs) + 1 = length xs"
proof (induction xs)
  case (Cons x xs)
  show ?case
  proof (cases "x = a")
    case True
    then have "filter (\<lambda>x. x \<noteq> a) xs = xs" using Cons.prems by (auto simp: filter_id_conv)
    then show ?thesis using True by simp
  next
    case False
    then show ?thesis using Cons by simp
  qed
qed simp

section \<open>The operations keep the invariant\<close>

lemma index_new_ok:
  "overlay_laws lib \<Longrightarrow> max_po \<le> bin_max \<Longrightarrow> index_ok lib (index_new lib lo max_po mpb)"
  by (auto simp: index_ok_def index_new_def bin_ok_def peers_in_bin_def all_peers_def
      overlay_simps Let_def simp del: replicate_Suc)

text \<open>A membership change touches one bin.\<close>

definition set_bin ::
  "('a, 's) overlay_lib \<Rightarrow> ('a, 's) proximity_index \<Rightarrow> nat \<Rightarrow> 's \<Rightarrow> nat \<Rightarrow> ('a, 's) proximity_index" where
  "set_bin lib ix b bucket tot =
    ix\<lparr>pi_bins := (pi_bins ix)[b := bucket],
       pi_bin_counts := (pi_bin_counts ix)[b := length (ol_iter lib bucket)],
       pi_total_count := tot, pi_generation := pi_generation ix + 1\<rparr>"

lemma set_bin_simps [simp]:
  "pi_max_po (set_bin lib ix b s t) = pi_max_po ix"
  "pi_max_per_bin (set_bin lib ix b s t) = pi_max_per_bin ix"
  "pi_generation (set_bin lib ix b s t) = pi_generation ix + 1"
  "pi_cache (set_bin lib ix b s t) = pi_cache ix"
  "pi_total_count (set_bin lib ix b s t) = t"
  "length (pi_bins (set_bin lib ix b s t)) = length (pi_bins ix)"
  "length (pi_bin_counts (set_bin lib ix b s t)) = length (pi_bin_counts ix)"
  "pi_local_overlay (set_bin lib ix b s t) = pi_local_overlay ix"
  "bin_for lib (set_bin lib ix b s t) = bin_for lib ix"
  by (simp_all add: set_bin_def bin_for_def fun_eq_iff)

lemma set_bin_peers:
  assumes "index_ok lib ix" and "b \<le> pi_max_po ix"
  shows "peers_in_bin lib (set_bin lib ix b s t) c
      = (if c = b then ol_iter lib s else peers_in_bin lib ix c)"
    and "bin_size (set_bin lib ix b s t) c
      = (if c = b then length (ol_iter lib s) else bin_size ix c)"
  using index_ok_shape(2,3) [OF assms(1)] assms(2)
  by (auto simp: set_bin_def peers_in_bin_def bin_size_def)

lemma set_bin_total:
  assumes ok: "index_ok lib ix" and b: "b \<le> pi_max_po ix"
  shows "length (all_peers lib (set_bin lib ix b s t)) + length (peers_in_bin lib ix b)
    = length (all_peers lib ix) + length (ol_iter lib s)"
proof -
  let ?xs = "map (\<lambda>b. length (ol_iter lib b)) (pi_bins ix)"
  have lt: "b < length ?xs" using index_ok_shape(2) [OF ok] b by simp
  have "sum_list (?xs[b := length (ol_iter lib s)]) + ?xs ! b
      = sum_list ?xs + length (ol_iter lib s)"
    using sum_list_update [OF lt, of "length (ol_iter lib s)"] member_in_total [OF lt] by simp
  then show ?thesis
    using lt by (simp add: length_all_peers set_bin_def map_update peers_in_bin_def)
qed

lemma set_bin_ok:
  assumes ok: "index_ok lib ix" and b: "b \<le> pi_max_po ix"
    and d: "distinct (ol_iter lib s)" and bf: "\<And>x. x \<in> set (ol_iter lib s) \<Longrightarrow> bin_for lib ix x = b"
    and cap: "0 < pi_max_per_bin ix \<Longrightarrow> length (ol_iter lib s) \<le> pi_max_per_bin ix"
    and t: "t + length (peers_in_bin lib ix b) = pi_total_count ix + length (ol_iter lib s)"
    and tg: "t \<le> pi_generation ix + 1" and g: "pi_generation ix < u64_max"
  shows "index_ok lib (set_bin lib ix b s t)"
proof (rule index_okI)
  show "pi_total_count (set_bin lib ix b s t) = length (all_peers lib (set_bin lib ix b s t))"
    using set_bin_total [OF ok b, of s t] t index_ok_shape(4) [OF ok] by simp
  show "bin_ok lib (set_bin lib ix b s t) c" if "c \<le> pi_max_po (set_bin lib ix b s t)" for c
  proof (rule bin_okI)
    have c: "c \<le> pi_max_po ix" using that by simp
    note o = index_ok_bin [OF ok c]
    show "distinct (peers_in_bin lib (set_bin lib ix b s t) c)"
      using o(1) d by (simp add: set_bin_peers [OF ok b])
    show "bin_for lib (set_bin lib ix b s t) x = c"
      if "x \<in> set (peers_in_bin lib (set_bin lib ix b s t) c)" for x
      using that o(2) [of x] bf [of x] by (auto simp: set_bin_peers [OF ok b] split: if_splits)
    show "pi_bin_counts (set_bin lib ix b s t) ! c
        = length (peers_in_bin lib (set_bin lib ix b s t) c)"
      using o(3) index_ok_shape(3) [OF ok] b c
      by (simp add: set_bin_peers [OF ok b]) (simp add: set_bin_def)
    show "length (peers_in_bin lib (set_bin lib ix b s t) c)
        \<le> pi_max_per_bin (set_bin lib ix b s t)"
      if "0 < pi_max_per_bin (set_bin lib ix b s t)"
      using that o(4) cap by (simp add: set_bin_peers [OF ok b])
  qed
qed (use index_ok_shape [OF ok] tg g in simp_all)

lemma index_ok_here:
  assumes ok: "index_ok lib ix" and laws: "overlay_laws lib"
  shows "a \<in> members lib ix \<longleftrightarrow> a \<in> set (ol_iter lib (pi_bins ix ! bin_for lib ix a))"
    and "peers_in_bin lib ix (bin_for lib ix a) = ol_iter lib (pi_bins ix ! bin_for lib ix a)"
    and "pi_bin_counts ix ! bin_for lib ix a = length (ol_iter lib (pi_bins ix ! bin_for lib ix a))"
    and "bin_size ix (bin_for lib ix a) = length (ol_iter lib (pi_bins ix ! bin_for lib ix a))"
    and "length (ol_iter lib (pi_bins ix ! bin_for lib ix a)) \<le> pi_total_count ix"
proof -
  note lt = bin_for_lt [OF ok, of a]
  show pb: "peers_in_bin lib ix (bin_for lib ix a) = ol_iter lib (pi_bins ix ! bin_for lib ix a)"
    using lt by (simp add: peers_in_bin_def)
  show "a \<in> members lib ix \<longleftrightarrow> a \<in> set (ol_iter lib (pi_bins ix ! bin_for lib ix a))"
    by (simp add: members_iff [OF ok] pb)
  show c: "pi_bin_counts ix ! bin_for lib ix a
      = length (ol_iter lib (pi_bins ix ! bin_for lib ix a))"
    using index_ok_bin(3) [OF ok bin_for_le [OF ok], of a] pb by simp
  then show "bin_size ix (bin_for lib ix a)
      = length (ol_iter lib (pi_bins ix ! bin_for lib ix a))"
    using lt by (simp add: bin_size_def)
  show "length (ol_iter lib (pi_bins ix ! bin_for lib ix a)) \<le> pi_total_count ix"
    unfolding index_ok_shape(4) [OF ok] length_all_peers
    using member_in_total [of "bin_for lib ix a" "map (\<lambda>b. length (ol_iter lib b)) (pi_bins ix)"] lt
    by simp
qed

lemma index_add_spec:
  assumes laws: "overlay_laws lib" and ok: "index_ok lib ix" and g: "pi_generation ix < u64_max"
  shows "index_add lib ix a =
    (if a \<in> members lib ix then (ix, Inl AlreadyPresent)
     else if 0 < pi_max_per_bin ix \<and> pi_max_per_bin ix \<le> bin_size ix (bin_for lib ix a)
     then (ix, Inl BinFull)
     else (set_bin lib ix (bin_for lib ix a)
             (ol_insert lib (pi_bins ix ! bin_for lib ix a) a) (pi_total_count ix + 1), Inr ()))"
proof -
  note here = index_ok_here [OF ok laws, of a]
  let ?bk = "pi_bins ix ! bin_for lib ix a"
  have small: "length (ol_iter lib ?bk) + 1 \<le> u64_max" "pi_total_count ix + 1 \<le> u64_max"
    using here(5) index_ok_shape(5) [OF ok] g by linarith+
  have "a \<notin> members lib ix \<Longrightarrow> ol_iter lib (ol_insert lib ?bk a) = ol_iter lib ?bk @ [a]"
    using overlay_simps(4) [OF laws] here(1) by simp
  then show ?thesis
    using small g here unfolding index_add_def Let_def set_bin_def
    by (simp add: overlay_simps(2,3) [OF laws])
qed

lemma index_remove_spec:
  assumes laws: "overlay_laws lib" and ok: "index_ok lib ix" and g: "pi_generation ix < u64_max"
  shows "index_remove lib ix a =
    (if a \<in> members lib ix
     then (set_bin lib ix (bin_for lib ix a)
             (fst (ol_remove lib (pi_bins ix ! bin_for lib ix a) a)) (pi_total_count ix - 1), True)
     else (ix, False))"
proof (cases "a \<in> members lib ix")
  case True
  note here = index_ok_here [OF ok laws, of a]
  let ?bk = "pi_bins ix ! bin_for lib ix a"
  have mem: "a \<in> set (ol_iter lib ?bk)" using True here(1) by simp
  have "distinct (ol_iter lib ?bk)"
    using index_ok_bin(1) [OF ok bin_for_le [OF ok], of a] here(2) by simp
  then have "length (filter (\<lambda>x. x \<noteq> a) (ol_iter lib ?bk)) + 1 = length (ol_iter lib ?bk)"
    using mem by (rule length_filter_neq)
  then have len: "length (ol_iter lib (fst (ol_remove lib ?bk a))) = length (ol_iter lib ?bk) - 1"
    by (simp add: overlay_simps(5) [OF laws])
  have pos: "0 < length (ol_iter lib ?bk)" using mem by (auto simp: length_pos_if_in_set)
  have pos': "0 < pi_total_count ix" using pos here(5) by linarith
  have lim: "pi_total_count ix \<le> u64_max" using index_ok_shape(5,6) [OF ok] by linarith
  have sub: "u64_wrapping_sub n 1 = n - 1" if "0 < n" "n \<le> u64_max" for n
    using u64_wrapping_sub_mod [of 1 n] that by simp
  have "snd (ol_remove lib ?bk a)" using mem by (simp add: overlay_simps(6) [OF laws])
  then show ?thesis
    using True here pos pos' lim g len sub [of "pi_total_count ix"] sub [of "length (ol_iter lib ?bk)"]
    unfolding index_remove_def Let_def set_bin_def by (simp add: case_prod_unfold)
next
  case False
  then have "\<not> snd (ol_remove lib (pi_bins ix ! bin_for lib ix a) a)"
    using index_ok_here(1) [OF ok laws, of a] overlay_simps(6) [OF laws] by simp
  then show ?thesis using False by (simp add: index_remove_def Let_def case_prod_unfold)
qed

lemma index_add_ok:
  assumes laws: "overlay_laws lib" and ok: "index_ok lib ix" and g: "pi_generation ix < u64_max"
  shows "index_ok lib (fst (index_add lib ix a))"
proof (cases "snd (index_add lib ix a) = Inr ()")
  case True
  note here = index_ok_here [OF ok laws, of a]
  let ?b = "bin_for lib ix a" and ?bk = "pi_bins ix ! bin_for lib ix a"
  have new: "a \<notin> members lib ix"
    and room: "0 < pi_max_per_bin ix \<Longrightarrow> length (ol_iter lib ?bk) < pi_max_per_bin ix"
    using True here(4) by (auto simp: index_add_spec [OF laws ok g] split: if_splits)
  have ins: "ol_iter lib (ol_insert lib ?bk a) = ol_iter lib ?bk @ [a]"
    using overlay_simps(4) [OF laws] here(1) new by simp
  note o = index_ok_bin [OF ok bin_for_le [OF ok, of a]]
  have "index_ok lib (set_bin lib ix ?b (ol_insert lib ?bk a) (pi_total_count ix + 1))"
  proof (rule set_bin_ok [OF ok bin_for_le [OF ok]])
    show "distinct (ol_iter lib (ol_insert lib ?bk a))"
      using o(1) new here(1,2) by (simp add: ins)
    show "bin_for lib ix x = ?b" if "x \<in> set (ol_iter lib (ol_insert lib ?bk a))" for x
      using that o(2) [of x] here(2) by (auto simp: ins)
    show "length (ol_iter lib (ol_insert lib ?bk a)) \<le> pi_max_per_bin ix"
      if "0 < pi_max_per_bin ix" using room [OF that] by (simp add: ins)
    show "pi_total_count ix + 1 + length (peers_in_bin lib ix ?b)
        = pi_total_count ix + length (ol_iter lib (ol_insert lib ?bk a))" by (simp add: ins here(2))
    show "pi_total_count ix + 1 \<le> pi_generation ix + 1" using index_ok_shape(5) [OF ok] by simp
  qed (rule g)
  then show ?thesis using True by (auto simp: index_add_spec [OF laws ok g] split: if_splits)
next
  case False
  then have "fst (index_add lib ix a) = ix" by (auto simp: index_add_spec [OF laws ok g])
  then show ?thesis using ok by simp
qed

lemma index_remove_ok:
  assumes laws: "overlay_laws lib" and ok: "index_ok lib ix" and g: "pi_generation ix < u64_max"
  shows "index_ok lib (fst (index_remove lib ix a))"
proof (cases "a \<in> members lib ix")
  case True
  note here = index_ok_here [OF ok laws, of a]
  let ?b = "bin_for lib ix a" and ?bk = "pi_bins ix ! bin_for lib ix a"
  let ?s = "fst (ol_remove lib ?bk a)"
  have it: "ol_iter lib ?s = filter (\<lambda>x. x \<noteq> a) (ol_iter lib ?bk)"
    by (rule overlay_simps(5) [OF laws])
  note o = index_ok_bin [OF ok bin_for_le [OF ok, of a]]
  have len: "length (ol_iter lib ?s) + 1 = length (ol_iter lib ?bk)"
    unfolding it using o(1) True here(1,2) by (intro length_filter_neq) simp_all
  have "index_ok lib (set_bin lib ix ?b ?s (pi_total_count ix - 1))"
  proof (rule set_bin_ok [OF ok bin_for_le [OF ok]])
    show "distinct (ol_iter lib ?s)" using o(1) here(2) by (simp add: it)
    show "bin_for lib ix x = ?b" if "x \<in> set (ol_iter lib ?s)" for x
      using that o(2) [of x] here(2) by (auto simp: it)
    show "length (ol_iter lib ?s) \<le> pi_max_per_bin ix" if "0 < pi_max_per_bin ix"
      using o(4) [OF that] len here(2) by simp
    show "pi_total_count ix - 1 + length (peers_in_bin lib ix ?b)
        = pi_total_count ix + length (ol_iter lib ?s)" using len here(2,5) by simp
    show "pi_total_count ix - 1 \<le> pi_generation ix + 1" using index_ok_shape(5) [OF ok] by simp
  qed (rule g)
  then show ?thesis using True by (simp add: index_remove_spec [OF laws ok g])
qed (simp add: index_remove_spec [OF laws ok g] ok)

text \<open>What the operations do to the members of each bin.\<close>

lemma index_add_peers:
  assumes laws: "overlay_laws lib" and ok: "index_ok lib ix" and g: "pi_generation ix < u64_max"
    and add: "index_add lib ix a = (ix', Inr ())"
  shows "peers_in_bin lib ix' b
      = (if b = bin_for lib ix a then peers_in_bin lib ix b @ [a] else peers_in_bin lib ix b)"
    and "a \<notin> members lib ix" and "pi_generation ix' = pi_generation ix + 1"
    and "pi_cache ix' = pi_cache ix" and "bin_for lib ix' = bin_for lib ix"
    and "pi_max_po ix' = pi_max_po ix" and "pi_max_per_bin ix' = pi_max_per_bin ix"
proof -
  show new: "a \<notin> members lib ix" using add by (auto simp: index_add_spec [OF laws ok g])
  have ix': "ix' = set_bin lib ix (bin_for lib ix a)
      (ol_insert lib (pi_bins ix ! bin_for lib ix a) a) (pi_total_count ix + 1)"
    using add by (auto simp: index_add_spec [OF laws ok g] split: if_splits)
  have ins: "ol_iter lib (ol_insert lib (pi_bins ix ! bin_for lib ix a) a)
      = peers_in_bin lib ix (bin_for lib ix a) @ [a]"
    using overlay_simps(4) [OF laws] index_ok_here(1,2) [OF ok laws, of a] new by simp
  show "peers_in_bin lib ix' b
      = (if b = bin_for lib ix a then peers_in_bin lib ix b @ [a] else peers_in_bin lib ix b)"
    unfolding ix' by (simp add: set_bin_peers [OF ok bin_for_le [OF ok]] ins)
  show "pi_generation ix' = pi_generation ix + 1" "pi_cache ix' = pi_cache ix"
    "bin_for lib ix' = bin_for lib ix" "pi_max_po ix' = pi_max_po ix"
    "pi_max_per_bin ix' = pi_max_per_bin ix"
    by (simp_all add: ix')
qed

lemma index_remove_peers:
  assumes laws: "overlay_laws lib" and ok: "index_ok lib ix" and g: "pi_generation ix < u64_max"
  shows "peers_in_bin lib (fst (index_remove lib ix a)) b
      = filter (\<lambda>x. x \<noteq> a) (peers_in_bin lib ix b)"
    and "snd (index_remove lib ix a) \<longleftrightarrow> a \<in> members lib ix"
    and "a \<in> members lib ix \<Longrightarrow> pi_generation (fst (index_remove lib ix a)) = pi_generation ix + 1"
    and "pi_cache (fst (index_remove lib ix a)) = pi_cache ix"
    and "bin_for lib (fst (index_remove lib ix a)) = bin_for lib ix"
    and "pi_max_po (fst (index_remove lib ix a)) = pi_max_po ix"
    and "pi_max_per_bin (fst (index_remove lib ix a)) = pi_max_per_bin ix"
proof -
  have other: "filter (\<lambda>x. x \<noteq> a) (peers_in_bin lib ix b) = peers_in_bin lib ix b"
    if "b \<noteq> bin_for lib ix a \<or> a \<notin> members lib ix"
  proof -
    have "a \<notin> set (peers_in_bin lib ix b)"
    proof (cases "b \<le> pi_max_po ix")
      case True
      then show ?thesis using that index_ok_bin(2) [OF ok True, of a] members_iff [OF ok, of a] by auto
    next
      case False
      then show ?thesis using index_ok_shape(2) [OF ok] by (simp add: peers_in_bin_def)
    qed
    then show ?thesis by (auto simp: filter_id_conv)
  qed
  show "peers_in_bin lib (fst (index_remove lib ix a)) b
      = filter (\<lambda>x. x \<noteq> a) (peers_in_bin lib ix b)"
    using other index_ok_here(2) [OF ok laws, of a]
    by (auto simp: index_remove_spec [OF laws ok g] set_bin_peers [OF ok bin_for_le [OF ok]]
        overlay_simps(5) [OF laws])
qed (simp_all add: index_remove_spec [OF laws ok g])

lemma index_add_members:
  assumes laws: "overlay_laws lib" and ok: "index_ok lib ix" and g: "pi_generation ix < u64_max"
    and add: "index_add lib ix a = (ix', Inr ())"
  shows "members lib ix' = insert a (members lib ix)"
proof -
  have ok': "index_ok lib ix'" using index_add_ok [OF laws ok g, of a] add by simp
  note p = index_add_peers [OF laws ok g add]
  show ?thesis using members_iff [OF ok] members_iff [OF ok'] p(1,5) by (auto split: if_splits)
qed

lemma index_remove_members:
  assumes laws: "overlay_laws lib" and ok: "index_ok lib ix" and g: "pi_generation ix < u64_max"
  shows "members lib (fst (index_remove lib ix a)) = members lib ix - {a}"
proof -
  note p = index_remove_peers [OF laws ok g, of a]
  show ?thesis
    using members_iff [OF ok] members_iff [OF index_remove_ok [OF laws ok g, of a]] p(1,5) by auto
qed

lemma index_refused:
  assumes laws: "overlay_laws lib" and ok: "index_ok lib ix" and g: "pi_generation ix < u64_max"
    and add: "index_add lib ix a = (ix', Inl r)"
  shows "ix' = ix" and "r = AlreadyPresent \<longleftrightarrow> a \<in> members lib ix"
    and "r = BinFull \<Longrightarrow> 0 < pi_max_per_bin ix \<and> pi_max_per_bin ix = bin_size ix (bin_for lib ix a)"
proof -
  show "ix' = ix" "r = AlreadyPresent \<longleftrightarrow> a \<in> members lib ix"
    using add by (auto simp: index_add_spec [OF laws ok g] split: if_splits)
  assume "r = BinFull"
  then have "0 < pi_max_per_bin ix" "pi_max_per_bin ix \<le> bin_size ix (bin_for lib ix a)"
    using add by (auto simp: index_add_spec [OF laws ok g] split: if_splits)
  moreover have "0 < pi_max_per_bin ix \<Longrightarrow> bin_size ix (bin_for lib ix a) \<le> pi_max_per_bin ix"
    using index_ok_bin(4) [OF ok bin_for_le [OF ok, of a]] index_ok_here(2,4) [OF ok laws, of a] by simp
  ultimately show "0 < pi_max_per_bin ix \<and> pi_max_per_bin ix = bin_size ix (bin_for lib ix a)"
    by simp
qed

lemma index_generation_grows:
  assumes laws: "overlay_laws lib" and ok: "index_ok lib ix" and g: "pi_generation ix < u64_max"
  shows "pi_generation (fst (index_add lib ix a)) \<le> pi_generation ix + 1"
    and "pi_generation (fst (index_remove lib ix a)) \<le> pi_generation ix + 1"
  by (simp_all add: index_add_spec [OF laws ok g] index_remove_spec [OF laws ok g])

section \<open>The listing\<close>

lemma get_sorted_frame:
  "get_sorted lib ix = (ix', items) \<Longrightarrow> pi_bins ix' = pi_bins ix \<and> pi_bin_counts ix' = pi_bin_counts ix
    \<and> pi_total_count ix' = pi_total_count ix \<and> pi_generation ix' = pi_generation ix
    \<and> pi_max_po ix' = pi_max_po ix \<and> pi_max_per_bin ix' = pi_max_per_bin ix
    \<and> pi_local_overlay ix' = pi_local_overlay ix"
  by (auto simp: get_sorted_def get_sorted_store_def split: if_splits)

lemma get_sorted_same:
  assumes "get_sorted lib ix = (ix', items)"
  shows "index_ok lib ix' = index_ok lib ix" "members lib ix' = members lib ix"
    "bin_for lib ix' = bin_for lib ix" "peers_in_bin lib ix' = peers_in_bin lib ix"
    "get_sorted_collect lib ix' = get_sorted_collect lib ix"
proof -
  note f = get_sorted_frame [OF assms]
  show bf: "bin_for lib ix' = bin_for lib ix" using f by (simp add: bin_for_def fun_eq_iff)
  show pb: "peers_in_bin lib ix' = peers_in_bin lib ix" using f by (simp add: peers_in_bin_def fun_eq_iff)
  have ap: "all_peers lib ix' = all_peers lib ix" using f by (simp add: all_peers_def)
  show "members lib ix' = members lib ix" using ap by (simp add: members_def)
  show "index_ok lib ix' = index_ok lib ix" using f by (simp add: index_ok_def bin_ok_def bf pb ap)
  show "get_sorted_collect lib ix' = get_sorted_collect lib ix"
    using f by (simp add: get_sorted_collect_def)
qed

lemma get_sorted_cache:
  assumes "cache_ok lib ix" and "get_sorted lib ix = (ix', items)"
  shows "items = get_sorted_collect lib ix" "cache_ok lib ix'"
  using assms get_sorted_same(5) [OF assms(2)]
  by (auto simp: get_sorted_def get_sorted_store_def cache_ok_def split: if_splits)

lemma collect_eq:
  assumes "index_ok lib ix"
  shows "get_sorted_collect lib ix
    = concat (map (\<lambda>b. map (Pair b) (peers_in_bin lib ix b)) [0..<pi_max_po ix + 1])"
proof -
  have "map (\<lambda>(idx, bucket). map (\<lambda>addr. (bin_or_max (idx mod 256), addr)) (ol_iter lib bucket))
          (enumerate 0 (pi_bins ix))
      = map (\<lambda>b. map (Pair b) (peers_in_bin lib ix b)) [0..<pi_max_po ix + 1]"
    (is "?l = ?r")
  proof (rule nth_equalityI)
    show "length ?l = length ?r" using index_ok_shape(2) [OF assms] by simp
    fix i assume "i < length ?l"
    then have i: "i < length (pi_bins ix)" by simp
    then have "i \<le> bin_max" using index_ok_shape(1,2) [OF assms] by linarith
    then show "?l ! i = ?r ! i"
      using i index_ok_shape(2) [OF assms]
      by (simp add: nth_enumerate_eq peers_in_bin_def nth_upt del: upt_Suc)
  qed
  then show ?thesis by (simp add: get_sorted_collect_def del: upt_Suc)
qed

lemma collect_sorted:
  assumes "index_ok lib ix"
  shows "sorted (map fst (get_sorted_collect lib ix))"
    and "map snd (get_sorted_collect lib ix) = all_peers lib ix"
    and "(b, a) \<in> set (get_sorted_collect lib ix) \<longleftrightarrow> a \<in> members lib ix \<and> b = bin_for lib ix a"
proof -
  have "sorted (map fst (concat (map (\<lambda>b. map (Pair b) (f b)) [0..<n])))
      \<and> set (map fst (concat (map (\<lambda>b. map (Pair b) (f b)) [0..<n]))) \<subseteq> {..<n}"
    for f :: "nat \<Rightarrow> 'a list" and n
    by (induction n) (auto simp: sorted_append comp_def map_replicate_const)
  then show "sorted (map fst (get_sorted_collect lib ix))"
    unfolding collect_eq [OF assms] by blast
  show "map snd (get_sorted_collect lib ix) = all_peers lib ix"
    unfolding collect_eq [OF assms] all_peers_bins index_ok_shape(2) [OF assms]
    by (simp add: map_concat comp_def del: upt_Suc)
  show "(b, a) \<in> set (get_sorted_collect lib ix) \<longleftrightarrow> a \<in> members lib ix \<and> b = bin_for lib ix a"
    unfolding collect_eq [OF assms]
    using index_ok_bin(2) [OF assms, of b a] bin_for_le [OF assms, of a] members_iff [OF assms, of a]
    by (auto simp del: upt_Suc)
qed

lemma iter_by_proximity_eq:
  "iter_by_proximity lib ix = get_sorted lib ix"
  "iter_by_proximity_desc lib ix = (let (ix', items) = get_sorted lib ix in (ix', rev items))"
  by (simp_all add: iter_by_proximity_def iter_by_proximity_desc_def arc_iter_new_def
      arc_iter_rev_new_def arc_drain_eq arc_rev_drain_eq)

section \<open>Reachable indexes\<close>

text \<open>A membership change is allowed while the generation has not used up its width.\<close>

inductive index_reachable :: "('a, 's) overlay_lib \<Rightarrow> ('a, 's) proximity_index \<Rightarrow> bool"
  for lib :: "('a, 's) overlay_lib" where
  start: "max_po \<le> bin_max \<Longrightarrow> index_reachable lib (index_new lib lo max_po mpb)"
| add: "index_reachable lib ix \<Longrightarrow> pi_generation ix < u64_max \<Longrightarrow>
    index_reachable lib (fst (index_add lib ix a))"
| remove: "index_reachable lib ix \<Longrightarrow> pi_generation ix < u64_max \<Longrightarrow>
    index_reachable lib (fst (index_remove lib ix a))"
| listing: "index_reachable lib ix \<Longrightarrow> index_reachable lib (fst (get_sorted lib ix))"

lemma cache_ok_add:
  assumes laws: "overlay_laws lib" and ok: "index_ok lib ix" and g: "pi_generation ix < u64_max"
    and c: "cache_ok lib ix"
  shows "cache_ok lib (fst (index_add lib ix a))"
proof (cases "index_add lib ix a")
  case (Pair ix' r)
  show ?thesis
  proof (cases r)
    case (Inl e)
    then have "ix' = ix" using Pair by (auto simp: index_add_spec [OF laws ok g] split: if_splits)
    then show ?thesis using c Pair by simp
  next
    case (Inr u)
    then have "index_add lib ix a = (ix', Inr ())" using Pair by simp
    note p = index_add_peers(3,4) [OF laws ok g this]
    show ?thesis using c p Pair by (auto simp: cache_ok_def)
  qed
qed

lemma cache_ok_remove:
  assumes laws: "overlay_laws lib" and ok: "index_ok lib ix" and g: "pi_generation ix < u64_max"
    and c: "cache_ok lib ix"
  shows "cache_ok lib (fst (index_remove lib ix a))"
proof (cases "a \<in> members lib ix")
  case True
  then show ?thesis
    using c index_remove_peers(3,4) [OF laws ok g, of a] by (auto simp: cache_ok_def)
qed (simp add: index_remove_spec [OF laws ok g] c)

lemma index_reachable_ok:
  assumes "overlay_laws lib"
  shows "index_reachable lib ix \<Longrightarrow> index_ok lib ix \<and> cache_ok lib ix"
proof (induction rule: index_reachable.induct)
  case (start max_po lo mpb)
  then show ?case using index_new_ok [OF assms] by (simp add: cache_ok_def index_new_def Let_def)
next
  case (add ix a)
  then show ?case using index_add_ok [OF assms] cache_ok_add [OF assms] by blast
next
  case (remove ix a)
  then show ?case using index_remove_ok [OF assms] cache_ok_remove [OF assms] by blast
next
  case (listing ix)
  obtain ix' items where e: "get_sorted lib ix = (ix', items)" by (cases "get_sorted lib ix")
  then show ?case using listing get_sorted_same(1) [OF e] get_sorted_cache(2) [OF _ e] by simp
qed

text \<open>In every reachable index each member is in exactly the bin of its proximity, the
  counters are the numbers of members, a bin never outgrows its cap, and the listing
  shows every member once, by ascending bin, whether it comes from the cache or not.\<close>

lemma index_consistent:
  assumes "overlay_laws lib" and "index_reachable lib ix"
  shows "(\<forall>b. b \<le> pi_max_po ix \<longrightarrow>
        set (peers_in_bin lib ix b) = {a \<in> members lib ix. bin_for lib ix a = b}
        \<and> bin_size ix b = card {a \<in> members lib ix. bin_for lib ix a = b}
        \<and> (0 < pi_max_per_bin ix \<longrightarrow> bin_size ix b \<le> pi_max_per_bin ix))
    \<and> index_len ix = card (members lib ix)
    \<and> (\<forall>a. index_exists lib ix a \<longleftrightarrow> a \<in> members lib ix)
    \<and> distinct (map snd (snd (iter_by_proximity lib ix)))
    \<and> sorted (map fst (snd (iter_by_proximity lib ix)))
    \<and> set (snd (iter_by_proximity lib ix)) = (\<lambda>a. (bin_for lib ix a, a)) ` members lib ix
    \<and> snd (iter_by_proximity_desc lib ix) = rev (snd (iter_by_proximity lib ix))"
proof -
  note ok = index_reachable_ok [OF assms, THEN conjunct1]
    and c = index_reachable_ok [OF assms, THEN conjunct2]
  obtain ix' items where e: "get_sorted lib ix = (ix', items)" by (cases "get_sorted lib ix")
  have items: "items = get_sorted_collect lib ix" using get_sorted_cache(1) [OF c e] .
  have pb: "set (peers_in_bin lib ix b) = {a \<in> members lib ix. bin_for lib ix a = b}"
    if "b \<le> pi_max_po ix" for b
    using index_ok_bin(2) [OF ok that] members_iff [OF ok] by auto
  have bs: "bin_size ix b = card {a \<in> members lib ix. bin_for lib ix a = b}"
    if "b \<le> pi_max_po ix" for b
    using index_ok_bin(1,3) [OF ok that] index_ok_shape(3) [OF ok] that
    by (simp add: bin_size_def pb [OF that, symmetric] distinct_card)
  have da: "distinct (all_peers lib ix)"
  proof -
    have "distinct (concat (map (peers_in_bin lib ix) [0..<n]))" if "n \<le> pi_max_po ix + 1" for n
      using that
    proof (induction n)
      case (Suc n)
      then have n: "n \<le> pi_max_po ix" by simp
      have "set (peers_in_bin lib ix b) \<inter> set (peers_in_bin lib ix n) = {}" if "b < n" for b
        using that n pb [of b] pb [OF n] by auto
      then show ?case using Suc index_ok_bin(1) [OF ok n] by fastforce
    qed simp
    then show ?thesis using index_ok_shape(2) [OF ok] by (simp add: all_peers_bins del: upt_Suc)
  qed
  have "set items = (\<lambda>a. (bin_for lib ix a, a)) ` members lib ix"
    unfolding items using collect_sorted(3) [OF ok] by auto
  moreover have "index_len ix = card (members lib ix)"
    using index_ok_shape(4) [OF ok] da by (simp add: index_len_def members_def distinct_card)
  moreover have "0 < pi_max_per_bin ix \<longrightarrow> bin_size ix b \<le> pi_max_per_bin ix"
    if "b \<le> pi_max_po ix" for b
    using index_ok_bin(3,4) [OF ok that] index_ok_shape(3) [OF ok] that by (simp add: bin_size_def)
  ultimately show ?thesis
    using pb bs exists_iff [OF assms(1) ok] collect_sorted(1,2) [OF ok] da e
    by (simp add: iter_by_proximity_eq items [symmetric])
qed

definition sample_index :: "(bool list, bool list list) proximity_index" where
  "sample_index = fst (index_add list_lib
    (fst (index_add list_lib (index_new list_lib [False, False] 2 0) [True, False])) [False, True])"

lemma sample_index_reachable: "index_reachable list_lib sample_index"
  unfolding sample_index_def
  by (intro index_reachable.add index_reachable.start)
     (simp_all add: index_new_def index_add_def list_lib_def bin_for_def capped_bin_def Let_def)

lemma sample_index_members: "members list_lib sample_index = {[True, False], [False, True]}"
  by (simp add: sample_index_def members_def all_peers_def index_new_def index_add_def list_lib_def
      bin_for_def capped_bin_def Let_def insert_commute numeral_3_eq_3)

section \<open>A rebuild that races with a membership change\<close>

text \<open>The listing is collected before the generation it is stamped with is read. A peer
  added between the two is a member, yet the listing without it counts as current and is
  returned unchanged from then on, until the membership changes again.\<close>

lemma racing_rebuild_hides_member:
  assumes laws: "overlay_laws lib" and r: "index_reachable lib ix"
    and g: "pi_generation ix < u64_max"
    and add: "index_add lib ix a = (ix', Inr ())"
    and store: "get_sorted_store ix' (get_sorted_collect lib ix) = (ix'', items)"
  shows "index_exists lib ix'' a \<and> a \<notin> snd ` set (snd (iter_by_proximity lib ix''))
    \<and> fst (iter_by_proximity lib ix'') = ix''"
proof -
  note ok = index_reachable_ok [OF laws r, THEN conjunct1]
    and c = index_reachable_ok [OF laws r, THEN conjunct2]
  note p = index_add_peers [OF laws ok g add]
  have ok': "index_ok lib ix'" using index_add_ok [OF laws ok g, of a] add by simp
  have "cl_generation (pi_cache ix') \<noteq> Some (pi_generation ix')"
    using c p(3,4) by (auto simp: cache_ok_def)
  then have ix'': "ix'' = ix'\<lparr>pi_cache := \<lparr>cl_generation = Some (pi_generation ix'),
      cl_items = get_sorted_collect lib ix\<rparr>\<rparr>"
    using store by (auto simp: get_sorted_store_def)
  have "a \<in> members lib ix'"
    using members_iff [OF ok', of a] p(1) [of "bin_for lib ix a"] p(5) by simp
  then have "index_exists lib ix' a" using exists_iff [OF laws ok'] by simp
  then have "index_exists lib ix'' a" by (simp add: ix'' index_exists_def bin_for_def)
  moreover have "get_sorted lib ix'' = (ix'', get_sorted_collect lib ix)"
    by (simp add: ix'' get_sorted_def)
  moreover have "a \<notin> snd ` set (get_sorted_collect lib ix)"
    using collect_sorted(2) [OF ok] p(2) by (metis members_def set_map)
  ultimately show ?thesis by (simp add: iter_by_proximity_eq)
qed

end
