(* ===== verification/Peer_Manager.thy ===== *)
theory Peer_Manager
  imports Peer_Entry Proximity_Index Ordered_Table
begin

text \<open>
  The peer manager of \<^verbatim>\<open>swarm/peers/peer-manager\<close>: \<^verbatim>\<open>manager.rs\<close>, \<^verbatim>\<open>maintenance.rs\<close>,
  \<^verbatim>\<open>scoring.rs\<close>, \<^verbatim>\<open>score_distribution.rs\<close> and \<^verbatim>\<open>snapshot_store.rs\<close>. The peer set is a map
  from overlays to entries; where the code iterates over it, the order is an argument
  that lists its keys. The lifecycle channel is the log of what was emitted. An operation
  is one step, and gauges and log lines are left out.
\<close>

section \<open>State\<close>

datatype disconnect_reason =
    BinTrimmed | BinSaturated | BannedPeer | LowScore | ProtocolViolation | AllowanceExceeded
  | Requested | DuplicateConnection | BootnodeRotation | ShuttingDown | IdleTimeout | LocalClose
  | RemoteClose

fun is_locally_initiated :: "disconnect_reason \<Rightarrow> bool" where
  "is_locally_initiated RemoteClose = False"
| "is_locally_initiated _ = True"

datatype ban_cause = CauseLowScore | CauseInvalidData | CauseMalicious | CauseRequested

datatype 'f peer_lifecycle_event =
    PeerConnected overlay_address swarm_node_type
  | PeerDisconnected overlay_address disconnect_reason
  | ScoreWarning overlay_address 'f
  | DisconnectRequested overlay_address disconnect_reason
  | PeerBanned overlay_address "nat option" ban_cause
  | PeerUnbanned overlay_address

text \<open>The libraries the manager calls: doubles, the index's set and proximity, and the
  text of a ban's reason.\<close>

record ('f, 's) manager_env =
  me_fo :: "'f float_ops"
  me_lib :: "(overlay_address, 's) overlay_lib"
  me_reason :: "'f \<Rightarrow> swarm_scoring_event \<Rightarrow> string"

record ('f, 'm) peer_manager_config =
  pmc_scoring :: "'f swarm_scoring_config"
  pmc_max_per_bin :: nat
  pmc_snapshot_interval :: nat
  pmc_ban_duration :: nat
  pmc_store :: "(overlay_address, 'm peer_snapshot) tbl option"

record ('f, 'm, 's) peer_manager =
  pm_index :: "(overlay_address, 's) proximity_index"
  pm_peers :: "overlay_address \<rightharpoonup> ('f, 'm) peer_entry"
  pm_store :: "(overlay_address, 'm peer_snapshot) tbl option"
  pm_banned_set :: "overlay_address \<rightharpoonup> nat option"
  pm_scoring_config :: "'f swarm_scoring_config"
  pm_snapshot_interval :: nat
  pm_ban_duration :: nat
  pm_last_snapshot :: nat
  pm_score_distribution :: "int list"
  pm_events :: "'f peer_lifecycle_event list"

section \<open>Score distribution\<close>

definition boundaries :: "('f :: linorder) float_ops \<Rightarrow> 'f list" where
  "boundaries fo = map (fo_lit fo)
    [- 1000, - 500, - 100, - 10, 0, 10, 50, 100, 250, 500, 750, 1000]"

definition bucket_index :: "('f :: linorder) float_ops \<Rightarrow> 'f \<Rightarrow> nat" where
  "bucket_index fo score = length (takeWhile (\<lambda>boundary. \<not> score < boundary) (boundaries fo))"

definition distribution_new :: "int list" where
  "distribution_new = replicate 13 0"

definition bump :: "nat \<Rightarrow> int \<Rightarrow> int list \<Rightarrow> int list" where
  "bump idx by buckets = buckets[idx := buckets ! idx + by]"

definition on_peer_added :: "('f :: linorder) float_ops \<Rightarrow> 'f \<Rightarrow> int list \<Rightarrow> int list" where
  "on_peer_added fo score buckets = bump (bucket_index fo score) 1 buckets"

definition on_peer_removed :: "('f :: linorder) float_ops \<Rightarrow> 'f \<Rightarrow> int list \<Rightarrow> int list" where
  "on_peer_removed fo score buckets = bump (bucket_index fo score) (- 1) buckets"

definition on_score_changed :: "('f :: linorder) float_ops \<Rightarrow> 'f \<Rightarrow> 'f \<Rightarrow> int list \<Rightarrow> int list" where
  "on_score_changed fo old_score new_score buckets =
    (let old_idx = bucket_index fo old_score; new_idx = bucket_index fo new_score in
     if old_idx \<noteq> new_idx then bump new_idx 1 (bump old_idx (- 1) buckets) else buckets)"

section \<open>Queries\<close>

definition is_banned :: "('f, 'm, 's) peer_manager \<Rightarrow> overlay_address \<Rightarrow> bool" where
  "is_banned pm overlay \<longleftrightarrow> pm_banned_set pm overlay \<noteq> None"

definition node_type_of :: "('f, 'm, 's) peer_manager \<Rightarrow> overlay_address \<Rightarrow> swarm_node_type option" where
  "node_type_of pm overlay = map_option (\<lambda>e. cell_get (pe_node_type e)) (pm_peers pm overlay)"

definition eligible_peers ::
  "nat \<Rightarrow> overlay_address list \<Rightarrow> ('f, 'm, 's) peer_manager \<Rightarrow> overlay_address list" where
  "eligible_peers now order pm =
    filter (\<lambda>o'. case pm_peers pm o' of Some e \<Rightarrow> is_dialable now e | None \<Rightarrow> False) order"

definition eligible_count :: "('f, 'm, 's) peer_manager \<Rightarrow> nat" where
  "eligible_count pm = index_len (pm_index pm) - card (dom (pm_banned_set pm))"

definition is_storer :: "('f, 'm, 's) peer_manager \<Rightarrow> overlay_address \<Rightarrow> bool" where
  "is_storer pm overlay = (node_type_of pm overlay = Some Storer)"

definition known_storer_overlays ::
  "('f, 's) manager_env \<Rightarrow> ('f, 'm, 's) peer_manager \<Rightarrow> ('f, 'm, 's) peer_manager \<times> overlay_address list" where
  "known_storer_overlays env pm =
    (let (ix, items) = iter_by_proximity (me_lib env) (pm_index pm)
     in (pm\<lparr>pm_index := ix\<rparr>,
         filter (\<lambda>o'. \<not> is_banned pm o' \<and> is_storer pm o') (map snd items)))"

definition storer_overlays_in_bin ::
  "('f, 's) manager_env \<Rightarrow> nat \<Rightarrow> ('f, 'm, 's) peer_manager \<Rightarrow> overlay_address list" where
  "storer_overlays_in_bin env bin pm =
    filter (\<lambda>o'. \<not> is_banned pm o' \<and> is_storer pm o') (peers_in_bin (me_lib env) (pm_index pm) bin)"

definition get_swarm_peer :: "('f, 'm, 's) peer_manager \<Rightarrow> overlay_address \<Rightarrow> 'm swarm_peer option" where
  "get_swarm_peer pm overlay = map_option pe_peer (pm_peers pm overlay)"

definition get_swarm_peers :: "overlay_address list \<Rightarrow> ('f, 'm, 's) peer_manager \<Rightarrow> 'm swarm_peer list" where
  "get_swarm_peers overlays pm = List.map_filter (get_swarm_peer pm) overlays"

definition get_dialable_peers ::
  "nat \<Rightarrow> overlay_address list \<Rightarrow> ('f, 'm, 's) peer_manager \<Rightarrow> 'm swarm_peer list" where
  "get_dialable_peers now candidates pm =
    List.map_filter (\<lambda>overlay.
      if is_banned pm overlay then None
      else case pm_peers pm overlay of
             None \<Rightarrow> None
           | Some e \<Rightarrow> if is_dialable now e then Some (pe_peer e) else None) candidates"

definition dialable_overlays_in_bin_excluding ::
  "('f, 's) manager_env \<Rightarrow> nat \<Rightarrow> nat \<Rightarrow> (overlay_address \<Rightarrow> bool) \<Rightarrow> ('f, 'm, 's) peer_manager
    \<Rightarrow> overlay_address list" where
  "dialable_overlays_in_bin_excluding env now bin exclude pm =
    filter (\<lambda>overlay. \<not> is_banned pm overlay \<and> \<not> exclude overlay
        \<and> (case pm_peers pm overlay of Some e \<Rightarrow> is_dialable now e | None \<Rightarrow> False))
      (peers_in_bin (me_lib env) (pm_index pm) bin)"

definition get_peer_score :: "('f, 'm, 's) peer_manager \<Rightarrow> overlay_address \<Rightarrow> 'f option" where
  "get_peer_score pm overlay = map_option entry_score (pm_peers pm overlay)"

definition peer_is_in_backoff :: "nat \<Rightarrow> ('f, 'm, 's) peer_manager \<Rightarrow> overlay_address \<Rightarrow> bool" where
  "peer_is_in_backoff now pm overlay =
    (case pm_peers pm overlay of Some e \<Rightarrow> is_in_backoff now e | None \<Rightarrow> False)"

definition peer_productive :: "('f, 'm, 's) peer_manager \<Rightarrow> overlay_address \<Rightarrow> bool" where
  "peer_productive pm overlay =
    (case pm_peers pm overlay of Some e \<Rightarrow> entry_productive e | None \<Rightarrow> False)"

definition peer_trust_level :: "('f, 'm, 's) peer_manager \<Rightarrow> overlay_address \<Rightarrow> trust_level" where
  "peer_trust_level pm overlay =
    (case pm_peers pm overlay of Some e \<Rightarrow> trust_from_repr (pe_trust e) | None \<Rightarrow> Normal)"

definition peer_is_connected :: "('f, 'm, 's) peer_manager \<Rightarrow> overlay_address \<Rightarrow> bool" where
  "peer_is_connected pm overlay =
    (case pm_peers pm overlay of Some e \<Rightarrow> entry_is_connected e | None \<Rightarrow> False)"

definition peer_is_verified :: "('f, 'm, 's) peer_manager \<Rightarrow> overlay_address \<Rightarrow> bool" where
  "peer_is_verified pm overlay = (case pm_peers pm overlay of Some e \<Rightarrow> pe_verified e | None \<Rightarrow> False)"

section \<open>Bans\<close>

definition emit :: "'f peer_lifecycle_event \<Rightarrow> ('f, 'm, 's) peer_manager \<Rightarrow> ('f, 'm, 's) peer_manager" where
  "emit ev pm = pm\<lparr>pm_events := pm_events pm @ [ev]\<rparr>"

text \<open>In-place changes of one entry, and of the distribution.\<close>

definition update_entry ::
  "overlay_address \<Rightarrow> (('f, 'm) peer_entry \<Rightarrow> ('f, 'm) peer_entry) \<Rightarrow> ('f, 'm, 's) peer_manager
    \<Rightarrow> ('f, 'm, 's) peer_manager" where
  "update_entry overlay f pm =
    (case pm_peers pm overlay of
       None \<Rightarrow> pm
     | Some e \<Rightarrow> pm\<lparr>pm_peers := (pm_peers pm)(overlay \<mapsto> f e)\<rparr>)"

definition score_changed ::
  "('f :: linorder, 's) manager_env \<Rightarrow> 'f \<Rightarrow> 'f \<Rightarrow> ('f, 'm, 's) peer_manager \<Rightarrow> ('f, 'm, 's) peer_manager" where
  "score_changed env old_score new_score pm =
    pm\<lparr>pm_score_distribution :=
        on_score_changed (me_fo env) old_score new_score (pm_score_distribution pm)\<rparr>"

definition ban_with_expiry ::
  "nat \<Rightarrow> overlay_address \<Rightarrow> ban_cause \<Rightarrow> string option \<Rightarrow> nat option \<Rightarrow> ('f, 'm, 's) peer_manager
    \<Rightarrow> ('f, 'm, 's) peer_manager" where
  "ban_with_expiry now overlay cause reason until pm =
    (if pm_banned_set pm overlay \<noteq> None then pm
     else
       emit (PeerBanned overlay until cause)
         (update_entry overlay (\<lambda>e. if entry_is_banned e then e else entry_ban now reason e)
           (pm\<lparr>pm_banned_set := (pm_banned_set pm)(overlay \<mapsto> until)\<rparr>)))"

definition ban ::
  "nat \<Rightarrow> overlay_address \<Rightarrow> ban_cause \<Rightarrow> string option \<Rightarrow> ('f, 'm, 's) peer_manager
    \<Rightarrow> ('f, 'm, 's) peer_manager" where
  "ban now overlay cause reason pm =
    ban_with_expiry now overlay cause reason
      (Some (u64_wrapping_add now (pm_ban_duration pm))) pm"

definition ban_permanent ::
  "nat \<Rightarrow> overlay_address \<Rightarrow> ban_cause \<Rightarrow> string option \<Rightarrow> ('f, 'm, 's) peer_manager
    \<Rightarrow> ('f, 'm, 's) peer_manager" where
  "ban_permanent now overlay cause reason pm = ban_with_expiry now overlay cause reason None pm"

definition unban ::
  "('f :: linorder, 's) manager_env \<Rightarrow> overlay_address \<Rightarrow> ('f, 'm, 's) peer_manager
    \<Rightarrow> ('f, 'm, 's) peer_manager" where
  "unban env overlay pm =
    (let pm1 = (case pm_peers pm overlay of
                  None \<Rightarrow> pm
                | Some e \<Rightarrow>
                    let (e', old_score, new_score) = reset_score (me_fo env)
                          (ssc_disconnect_threshold (pm_scoring_config pm)) (clear_ban e)
                    in score_changed env old_score new_score
                         (pm\<lparr>pm_peers := (pm_peers pm)(overlay \<mapsto> e')\<rparr>))
     in if pm_banned_set pm1 overlay \<noteq> None
        then emit (PeerUnbanned overlay)
               (pm1\<lparr>pm_banned_set := (pm_banned_set pm1)(overlay := None)\<rparr>)
        else pm1)"

section \<open>Scoring\<close>

fun is_useful :: "swarm_scoring_event \<Rightarrow> bool" where
  "is_useful (RetrievalSuccess _) = True"
| "is_useful (PushSuccess _) = True"
| "is_useful _ = False"

definition report_peer ::
  "('f :: linorder, 's) manager_env \<Rightarrow> nat \<Rightarrow> overlay_address \<Rightarrow> swarm_scoring_event
    \<Rightarrow> ('f, 'm, 's) peer_manager \<Rightarrow> ('f, 'm, 's) peer_manager" where
  "report_peer env now overlay event pm =
    (if pm_banned_set pm overlay \<noteq> None then pm
     else case pm_peers pm overlay of
       None \<Rightarrow> pm
     | Some e0 \<Rightarrow>
         let e1 = (if is_useful event then record_useful_activity now e0 else e0);
             (e2, change) = entry_record_event (me_fo env) event e1;
             pm1 = score_changed env (sch_old_score change) (sch_new_score change)
                     (pm\<lparr>pm_peers := (pm_peers pm)(overlay \<mapsto> e2)\<rparr>)
         in case sch_outcome change of
              OutcomeOk \<Rightarrow> pm1
            | Warn \<Rightarrow> emit (ScoreWarning overlay (sch_new_score change)) pm1
            | Disconnect \<Rightarrow>
                emit (DisconnectRequested overlay LowScore)
                  (update_entry overlay (entry_dial_failure now) pm1)
            | Ban \<Rightarrow>
                ban now overlay CauseLowScore (Some (me_reason env (sch_new_score change) event)) pm1)"

definition record_latency ::
  "overlay_address \<Rightarrow> nat \<Rightarrow> ('f, 'm, 's) peer_manager \<Rightarrow> ('f, 'm, 's) peer_manager" where
  "record_latency overlay rtt pm = update_entry overlay (entry_record_latency rtt) pm"

definition record_dial_failure ::
  "nat \<Rightarrow> overlay_address \<Rightarrow> ('f, 'm, 's) peer_manager \<Rightarrow> ('f, 'm, 's) peer_manager" where
  "record_dial_failure now overlay pm = update_entry overlay (entry_dial_failure now) pm"

definition record_early_disconnect ::
  "('f :: linorder, 's) manager_env \<Rightarrow> nat \<Rightarrow> overlay_address \<Rightarrow> nat \<Rightarrow> ('f, 'm, 's) peer_manager
    \<Rightarrow> ('f, 'm, 's) peer_manager" where
  "record_early_disconnect env now overlay duration pm =
    report_peer env now overlay (EarlyDisconnect duration)
      (update_entry overlay (entry_dial_failure now) pm)"

section \<open>Admission\<close>

definition manager_remove_peer ::
  "('f :: linorder, 's) manager_env \<Rightarrow> overlay_address \<Rightarrow> ('f, 'm, 's) peer_manager
    \<Rightarrow> ('f, 'm, 's) peer_manager" where
  "manager_remove_peer env overlay pm =
    (let pm1 = (case pm_peers pm overlay of
                  None \<Rightarrow> pm
                | Some e \<Rightarrow> pm\<lparr>pm_peers := (pm_peers pm)(overlay := None),
                    pm_score_distribution :=
                      on_peer_removed (me_fo env) (entry_score e) (pm_score_distribution pm)\<rparr>)
     in pm1\<lparr>pm_index := fst (index_remove (me_lib env) (pm_index pm1) overlay),
            pm_banned_set := (pm_banned_set pm1)(overlay := None)\<rparr>)"

fun find_scan ::
  "nat \<Rightarrow> (overlay_address \<rightharpoonup> ('f :: linorder, 'm) peer_entry) \<Rightarrow> overlay_address list
    \<Rightarrow> (overlay_address \<times> bool \<times> 'f) option \<Rightarrow> overlay_address option" where
  "find_scan now peers [] best = map_option fst best"
| "find_scan now peers (overlay # rest) best =
    (case peers overlay of
       None \<Rightarrow> Some overlay
     | Some e \<Rightarrow>
         if entry_is_connected e then find_scan now peers rest best
         else
           let stale = is_stale now e; score = entry_score e;
               better = (case best of
                   None \<Rightarrow> True
                 | Some (_, best_stale, best_score) \<Rightarrow>
                     stale \<and> \<not> best_stale \<or> stale = best_stale \<and> score < best_score)
           in find_scan now peers rest (if better then Some (overlay, stale, score) else best))"

definition find_replaceable ::
  "('f :: linorder, 's) manager_env \<Rightarrow> nat \<Rightarrow> nat \<Rightarrow> ('f, 'm, 's) peer_manager
    \<Rightarrow> overlay_address option" where
  "find_replaceable env now bin pm =
    find_scan now (pm_peers pm) (peers_in_bin (me_lib env) (pm_index pm) bin) None"

definition admit_peer ::
  "('f :: linorder, 's) manager_env \<Rightarrow> nat \<Rightarrow> overlay_address \<Rightarrow> ('f, 'm, 's) peer_manager
    \<Rightarrow> ('f, 'm, 's) peer_manager \<times> bool" where
  "admit_peer env now overlay pm =
    (case index_add (me_lib env) (pm_index pm) overlay of
       (ix, Inr _) \<Rightarrow> (pm\<lparr>pm_index := ix\<rparr>, True)
     | (ix, Inl AlreadyPresent) \<Rightarrow> (pm\<lparr>pm_index := ix\<rparr>, True)
     | (ix, Inl BinFull) \<Rightarrow>
         case find_replaceable env now (bin_for (me_lib env) ix overlay) (pm\<lparr>pm_index := ix\<rparr>) of
           None \<Rightarrow> (pm\<lparr>pm_index := ix\<rparr>, False)
         | Some victim \<Rightarrow>
             let pm1 = manager_remove_peer env victim (pm\<lparr>pm_index := ix\<rparr>);
                 (ix2, r) = index_add (me_lib env) (pm_index pm1) overlay
             in (pm1\<lparr>pm_index := ix2\<rparr>, r \<noteq> Inl BinFull))"

definition insert_peer ::
  "('f :: linorder, 's) manager_env \<Rightarrow> nat \<Rightarrow> overlay_address \<Rightarrow> 'm swarm_peer \<Rightarrow> swarm_node_type
    \<Rightarrow> ('f, 'm, 's) peer_manager \<Rightarrow> ('f, 'm, 's) peer_manager \<times> bool" where
  "insert_peer env now overlay peer node_type pm =
    (if pm_peers pm overlay \<noteq> None then (update_entry overlay (update_addresses now peer) pm, True)
     else
       let (pm1, admitted) = admit_peer env now overlay pm in
       if \<not> admitted then (pm1, False)
       else if pm_peers pm1 overlay \<noteq> None
            then (update_entry overlay (update_addresses now peer) pm1, True)
       else
         let e = entry_with_config (me_fo env) now peer node_type overlay (pm_scoring_config pm1)
         in (pm1\<lparr>pm_peers := (pm_peers pm1)(overlay \<mapsto> e),
                  pm_score_distribution :=
                    on_peer_added (me_fo env) (entry_score e) (pm_score_distribution pm1)\<rparr>, True))"

definition reject_stale_gossip :: "nat \<Rightarrow> int \<Rightarrow> int option \<Rightarrow> bool" where
  "reject_stale_gossip now candidate existing =
    (case check_timestamp candidate existing (int now) of Inr _ \<Rightarrow> False | Inl _ \<Rightarrow> True)"

definition store_discovered_peer ::
  "('f :: linorder, 's) manager_env \<Rightarrow> nat \<Rightarrow> 'm swarm_peer \<Rightarrow> ('f, 'm, 's) peer_manager
    \<Rightarrow> ('f, 'm, 's) peer_manager" where
  "store_discovered_peer env now peer pm =
    (let overlay = sp_overlay peer in
     case pm_peers pm overlay of
       Some e \<Rightarrow>
         if reject_stale_gossip now (sp_timestamp peer) (Some (sp_timestamp (pe_peer e))) then pm
         else update_entry overlay (update_addresses now peer) pm
     | None \<Rightarrow>
         let (pm1, ok) = insert_peer env now overlay peer Client pm in
         if ok then update_entry overlay (set_provisional_node_type Client) pm1 else pm1)"

definition store_discovered_peers ::
  "('f :: linorder, 's) manager_env \<Rightarrow> nat \<Rightarrow> 'm swarm_peer list \<Rightarrow> ('f, 'm, 's) peer_manager
    \<Rightarrow> ('f, 'm, 's) peer_manager" where
  "store_discovered_peers env now peers pm = fold (store_discovered_peer env now) peers pm"

section \<open>Connections\<close>

definition on_peer_connected ::
  "('f :: linorder, 's) manager_env \<Rightarrow> nat \<Rightarrow> 'm swarm_peer \<Rightarrow> swarm_node_type
    \<Rightarrow> connection_direction \<Rightarrow> trust_level \<Rightarrow> ('f, 'm, 's) peer_manager
    \<Rightarrow> ('f, 'm, 's) peer_manager" where
  "on_peer_connected env now peer node_type direction trust pm =
    (let overlay = sp_overlay peer; (pm1, ok) = insert_peer env now overlay peer node_type pm in
     if \<not> ok then pm1
     else
       report_peer env now overlay (ConnectionSuccess None)
         (emit (PeerConnected overlay node_type)
           (update_entry overlay
             (\<lambda>e. set_connected now direction trust (fst (mark_verified (confirm_node_type node_type e))))
             pm1)))"

definition on_peer_disconnected ::
  "overlay_address \<Rightarrow> disconnect_reason \<Rightarrow> ('f, 'm, 's) peer_manager \<Rightarrow> ('f, 'm, 's) peer_manager" where
  "on_peer_disconnected overlay reason pm =
    emit (PeerDisconnected overlay reason) (update_entry overlay clear_connected pm)"

definition on_dialed_overlay_mismatch ::
  "('f :: linorder, 's) manager_env \<Rightarrow> nat \<Rightarrow> overlay_address \<Rightarrow> ('f, 'm, 's) peer_manager
    \<Rightarrow> ('f, 'm, 's) peer_manager" where
  "on_dialed_overlay_mismatch env now dialed_overlay pm =
    (case pm_peers pm dialed_overlay of
       None \<Rightarrow> pm
     | Some e \<Rightarrow> if pe_verified e then record_dial_failure now dialed_overlay pm
                 else manager_remove_peer env dialed_overlay pm)"

section \<open>Maintenance\<close>

definition decay_one ::
  "('f :: linorder, 's) manager_env \<Rightarrow> nat \<Rightarrow> overlay_address \<Rightarrow> ('f, 'm, 's) peer_manager
    \<Rightarrow> ('f, 'm, 's) peer_manager" where
  "decay_one env now overlay pm =
    (case pm_peers pm overlay of
       None \<Rightarrow> pm
     | Some e \<Rightarrow>
         let (e', change) = decay_score (me_fo env) now e;
             pm1 = pm\<lparr>pm_peers := (pm_peers pm)(overlay \<mapsto> e')\<rparr>
         in case change of None \<Rightarrow> pm1 | Some (old_score, new_score) \<Rightarrow>
              score_changed env old_score new_score pm1)"

definition decay_scores ::
  "('f :: linorder, 's) manager_env \<Rightarrow> nat \<Rightarrow> overlay_address list \<Rightarrow> ('f, 'm, 's) peer_manager
    \<Rightarrow> ('f, 'm, 's) peer_manager" where
  "decay_scores env now order pm = fold (decay_one env now) order pm"

definition expired :: "nat \<Rightarrow> ('f, 'm, 's) peer_manager \<Rightarrow> overlay_address \<Rightarrow> bool" where
  "expired now pm overlay =
    (case pm_banned_set pm overlay of Some (Some until) \<Rightarrow> until \<le> now | _ \<Rightarrow> False)"

definition expire_bans ::
  "('f :: linorder, 's) manager_env \<Rightarrow> nat \<Rightarrow> overlay_address list \<Rightarrow> ('f, 'm, 's) peer_manager
    \<Rightarrow> ('f, 'm, 's) peer_manager" where
  "expire_bans env now border pm = fold (unban env) (filter (expired now pm) border) pm"

definition stale_in :: "nat \<Rightarrow> ('f, 'm, 's) peer_manager \<Rightarrow> overlay_address \<Rightarrow> bool" where
  "stale_in now pm overlay =
    (case pm_peers pm overlay of Some e \<Rightarrow> is_stale now e | None \<Rightarrow> False)"

definition purge_stale ::
  "('f :: linorder, 's) manager_env \<Rightarrow> nat \<Rightarrow> overlay_address list \<Rightarrow> ('f, 'm, 's) peer_manager
    \<Rightarrow> ('f, 'm, 's) peer_manager" where
  "purge_stale env now order pm = fold (manager_remove_peer env) (filter (stale_in now pm) order) pm"

text \<open>The table is replaced in one transaction; a store that fails leaves it as it was.\<close>

definition snapshot_store :: "'m peer_snapshot list \<Rightarrow> (overlay_address, 'm peer_snapshot) tbl
    \<Rightarrow> (overlay_address, 'm peer_snapshot) tbl" where
  "snapshot_store records t =
    fold (\<lambda>r t. tbl_put (sp_overlay (psn_peer r)) r t) records (tbl_clear t)"

definition snapshot_load :: "(overlay_address, 'm peer_snapshot) tbl \<Rightarrow> 'm peer_snapshot list" where
  "snapshot_load t = map snd (tbl_entries t)"

definition snapshot_records ::
  "overlay_address list \<Rightarrow> ('f, 'm, 's) peer_manager \<Rightarrow> 'm peer_snapshot list" where
  "snapshot_records order pm =
    List.map_filter (\<lambda>overlay. case pm_peers pm overlay of
       Some e \<Rightarrow> if pe_verified e then Some (snapshot_of_entry e) else None
     | None \<Rightarrow> None) order"

definition snapshot ::
  "bool \<Rightarrow> overlay_address list \<Rightarrow> ('f, 'm, 's) peer_manager \<Rightarrow> ('f, 'm, 's) peer_manager" where
  "snapshot store_ok order pm =
    (case pm_store pm of
       None \<Rightarrow> pm
     | Some t \<Rightarrow> if store_ok
                  then pm\<lparr>pm_store := Some (snapshot_store (snapshot_records order pm) t)\<rparr>
                  else pm)"

text \<open>Decay and ban expiry use the time they are given, the purge reads the clock.\<close>

definition tick ::
  "('f :: linorder, 's) manager_env \<Rightarrow> nat \<Rightarrow> nat \<Rightarrow> overlay_address list \<Rightarrow> overlay_address list
    \<Rightarrow> bool \<Rightarrow> ('f, 'm, 's) peer_manager \<Rightarrow> ('f, 'm, 's) peer_manager" where
  "tick env now clock order border store_ok pm =
    (let pm1 = purge_stale env clock order (expire_bans env now border (decay_scores env now order pm)) in
     if pm_store pm1 = None then pm1
     else if now - pm_last_snapshot pm1 < pm_snapshot_interval pm1 then pm1
     else snapshot store_ok order (pm1\<lparr>pm_last_snapshot := now\<rparr>))"

definition load_one ::
  "('f :: linorder, 's) manager_env \<Rightarrow> nat \<Rightarrow> 'm peer_snapshot \<Rightarrow> ('f, 'm, 's) peer_manager
    \<Rightarrow> ('f, 'm, 's) peer_manager" where
  "load_one env now sn pm =
    (let overlay = sp_overlay (psn_peer sn) in
     case index_add (me_lib env) (pm_index pm) overlay of
       (ix, Inl _) \<Rightarrow> pm\<lparr>pm_index := ix\<rparr>
     | (ix, Inr _) \<Rightarrow>
         let e = entry_from_snapshot (me_fo env) now sn (pm_scoring_config pm)
         in pm\<lparr>pm_index := ix, pm_peers := (pm_peers pm)(overlay \<mapsto> e),
               pm_score_distribution :=
                 on_peer_added (me_fo env) (entry_score e) (pm_score_distribution pm)\<rparr>)"

definition load_from_store ::
  "('f :: linorder, 's) manager_env \<Rightarrow> nat \<Rightarrow> bool \<Rightarrow> ('f, 'm, 's) peer_manager
    \<Rightarrow> ('f, 'm, 's) peer_manager" where
  "load_from_store env now load_ok pm =
    (case pm_store pm of
       None \<Rightarrow> pm
     | Some t \<Rightarrow> if load_ok then fold (load_one env now) (snapshot_load t) pm else pm)"

definition manager_new ::
  "('f :: linorder, 's) manager_env \<Rightarrow> nat \<Rightarrow> bool \<Rightarrow> overlay_address \<Rightarrow> nat
    \<Rightarrow> ('f, 'm) peer_manager_config \<Rightarrow> ('f, 'm, 's) peer_manager" where
  "manager_new env now load_ok local_overlay max_po config =
    load_from_store env now load_ok
      \<lparr>pm_index = index_new (me_lib env) local_overlay max_po (pmc_max_per_bin config),
       pm_peers = Map.empty, pm_store = pmc_store config, pm_banned_set = Map.empty,
       pm_scoring_config = pmc_scoring config,
       pm_snapshot_interval = pmc_snapshot_interval config,
       pm_ban_duration = pmc_ban_duration config, pm_last_snapshot = now,
       pm_score_distribution = distribution_new, pm_events = []\<rparr>"

end
