(* ===== verification/Peer_Manager_Props.thy ===== *)
theory Peer_Manager_Props
  imports Peer_Manager
begin

text \<open>
  The invariant of the peer manager, its operations as a step relation, and its
  properties: the peer set, the index, the score distribution and the bans agree, packed
  bytes stay decodable, admission replaces the worst disconnected record, gossip never
  replaces a record by an older one, and what a snapshot saves is restored.
\<close>

section \<open>Counting scores\<close>

definition bucket_count ::
  "('f :: linorder) float_ops \<Rightarrow> (overlay_address \<rightharpoonup> ('f, 'm) peer_entry) \<Rightarrow> nat \<Rightarrow> nat" where
  "bucket_count fo peers i = card {k. \<exists>e. peers k = Some e \<and> bucket_index fo (entry_score e) = i}"

definition dist_ok ::
  "('f :: linorder) float_ops \<Rightarrow> (overlay_address \<rightharpoonup> ('f, 'm) peer_entry) \<Rightarrow> int list \<Rightarrow> bool" where
  "dist_ok fo peers d \<longleftrightarrow> length d = 13 \<and> (\<forall>i<13. d ! i = int (bucket_count fo peers i))"

lemma bucket_index_lt [simp]: "bucket_index fo s < 13"
proof -
  have "length (takeWhile (\<lambda>b. \<not> s < b) (boundaries fo)) \<le> length (boundaries fo)"
    by (rule length_takeWhile_le)
  then show ?thesis by (simp add: bucket_index_def boundaries_def)
qed

lemma bucket_count_add:
  assumes "peers k = None" and "finite (dom peers)"
  shows "bucket_count fo (peers(k \<mapsto> e)) i
    = bucket_count fo peers i + (if bucket_index fo (entry_score e) = i then 1 else 0)"
proof -
  let ?A = "{k. \<exists>e. peers k = Some e \<and> bucket_index fo (entry_score e) = i}"
  have fin: "finite ?A" using assms(2) by (rule rev_finite_subset) (auto simp: dom_def)
  have "k \<notin> ?A" using assms(1) by simp
  moreover have "{j. \<exists>e'. (peers(k \<mapsto> e)) j = Some e' \<and> bucket_index fo (entry_score e') = i}
      = (if bucket_index fo (entry_score e) = i then insert k ?A else ?A)"
    using assms(1) by auto
  ultimately show ?thesis using fin by (simp add: bucket_count_def)
qed

lemma bucket_count_remove:
  assumes "peers k = Some e" and "finite (dom peers)"
  shows "bucket_count fo peers i
    = bucket_count fo (peers(k := None)) i + (if bucket_index fo (entry_score e) = i then 1 else 0)"
  using bucket_count_add [of "peers(k := None)" k fo e i] assms
  by (simp add: fun_upd_idem)

lemma dist_ok_add:
  assumes "dist_ok fo peers d" and "peers k = None" and "finite (dom peers)"
  shows "dist_ok fo (peers(k \<mapsto> e)) (on_peer_added fo (entry_score e) d)"
  using assms by (auto simp: dist_ok_def bucket_count_add on_peer_added_def bump_def nth_list_update)

lemma dist_ok_remove:
  assumes d: "dist_ok fo peers d" and k: "peers k = Some e" and f: "finite (dom peers)"
  shows "dist_ok fo (peers(k := None)) (on_peer_removed fo (entry_score e) d)"
proof -
  have "int (bucket_count fo (peers(k := None)) i)
      = int (bucket_count fo peers i) - (if bucket_index fo (entry_score e) = i then 1 else 0)" for i
    using bucket_count_remove [OF k f, of fo i] by simp
  then show ?thesis
    using d by (auto simp: dist_ok_def on_peer_removed_def bump_def nth_list_update)
qed

lemma on_score_changed_alt:
  assumes "length d = 13"
  shows "on_score_changed fo x y d = on_peer_added fo y (on_peer_removed fo x d)"
  using assms by (auto simp: on_score_changed_def on_peer_added_def on_peer_removed_def bump_def Let_def)

lemma dist_ok_replace:
  assumes d: "dist_ok fo peers d" and k: "peers k = Some e" and f: "finite (dom peers)"
  shows "dist_ok fo (peers(k \<mapsto> e')) (on_score_changed fo (entry_score e) (entry_score e') d)"
proof -
  have "dist_ok fo (peers(k := None)) (on_peer_removed fo (entry_score e) d)"
    using d k f by (rule dist_ok_remove)
  then have "dist_ok fo ((peers(k := None))(k \<mapsto> e'))
      (on_peer_added fo (entry_score e') (on_peer_removed fo (entry_score e) d))"
    by (rule dist_ok_add) (use f in \<open>simp_all\<close>)
  then show ?thesis using d by (simp add: on_score_changed_alt dist_ok_def)
qed

lemma on_score_changed_same [simp]: "on_score_changed fo x x d = d"
  by (simp add: on_score_changed_def)

section \<open>Entries\<close>

text \<open>The packed bytes hold what was packed into them, and the direction is set exactly
  while the peer is connected.\<close>

definition entry_wf :: "('f, 'm) peer_entry \<Rightarrow> bool" where
  "entry_wf e \<longleftrightarrow>
    (\<exists>t. pe_node_type e = cell_provisional t \<or> pe_node_type e = cell_confirm t)
    \<and> (pe_direction e = 0 \<or> (\<exists>d. pe_direction e = direction_to_repr d))
    \<and> (pe_connected_since e = 0 \<longleftrightarrow> pe_direction e = 0)
    \<and> (\<exists>t. pe_trust e = trust_repr t)"

lemma cell_get_provisional [simp]: "cell_get (cell_provisional t) = t"
  by (cases t) (simp_all add: cell_get_def cell_provisional_def node_type_from_repr_def)

lemma cell_get_confirm [simp]: "cell_get (cell_confirm t) = t"
  by (cases t) (simp_all add: cell_get_def cell_confirm_def node_type_from_repr_def)

lemma cell_confirmed_final [simp]: "cell_set_provisional t (cell_confirm t') = (cell_confirm t', False)"
  by (cases t') (simp_all add: cell_set_provisional_def cell_confirm_def)

lemma cell_unconfirmed [simp]: "cell_set_provisional t (cell_provisional t') = (cell_provisional t, True)"
  by (cases t') (simp_all add: cell_set_provisional_def cell_provisional_def)

lemma direction_round_trip [simp]: "direction_from_repr (direction_to_repr d) = Some d"
  by (cases d) (simp_all add: direction_from_repr_def)

lemma direction_from_repr_0 [simp]: "direction_from_repr 0 = None"
  by (simp add: direction_from_repr_def)

lemma trust_round_trip [simp]: "trust_from_repr (trust_repr t) = t"
  by (cases t) (simp_all add: trust_from_repr_def)

lemma direction_repr_pos [simp]: "0 < direction_to_repr d"
  by (cases d) simp_all

text \<open>What an in-place change of an entry keeps: its overlay, its bytes, and that a ban is
  recorded.\<close>

definition keeps_entry :: "('f, 'm) peer_entry \<Rightarrow> ('f, 'm) peer_entry \<Rightarrow> bool" where
  "keeps_entry e e' \<longleftrightarrow>
    sp_overlay (pe_peer e') = sp_overlay (pe_peer e) \<and> (entry_wf e \<longrightarrow> entry_wf e')
    \<and> (entry_is_banned e' \<longrightarrow> entry_is_banned e)"

lemma keeps_entry_refl [simp]: "keeps_entry e e"
  by (simp add: keeps_entry_def)

lemma keeps_entry_trans: "keeps_entry e e' \<Longrightarrow> keeps_entry e' e'' \<Longrightarrow> keeps_entry e e''"
  by (simp add: keeps_entry_def)

lemmas entry_defs = entry_wf_def keeps_entry_def entry_is_banned_def entry_score_def

lemma entry_ops_keep [simp]:
  "keeps_entry e (touch now e)"
  "sp_overlay peer = sp_overlay (pe_peer e) \<Longrightarrow> keeps_entry e (update_addresses now peer e)"
  "keeps_entry e (set_provisional_node_type t e)"
  "keeps_entry e (confirm_node_type t e)"
  "keeps_entry e (fst (mark_verified e))"
  "0 < now \<Longrightarrow> keeps_entry e (set_connected now dir tr e)"
  "keeps_entry e (clear_connected e)"
  "keeps_entry e (record_useful_activity now e)"
  "keeps_entry e (entry_record_latency n e)"
  "keeps_entry e (clear_ban e)"
  "keeps_entry e (entry_dial_failure now e)"
  "keeps_entry e (fst (entry_record_event fo ev e))"
  "keeps_entry e (fst (decay_score fo now e))"
  "keeps_entry e (fst (reset_score fo x e))"
  by (auto simp: entry_defs touch_def update_addresses_def set_provisional_node_type_def
      confirm_node_type_def mark_verified_def set_connected_def clear_connected_def
      record_useful_activity_def entry_record_latency_def clear_ban_def entry_dial_failure_def
      entry_record_event_def decay_score_def reset_score_def Let_def split: prod.splits)

lemma entry_ops_score [simp]:
  "entry_score (touch now e) = entry_score e"
  "entry_score (update_addresses now peer e) = entry_score e"
  "entry_score (set_provisional_node_type t e) = entry_score e"
  "entry_score (confirm_node_type t e) = entry_score e"
  "entry_score (fst (mark_verified e)) = entry_score e"
  "entry_score (set_connected now dir tr e) = entry_score e"
  "entry_score (clear_connected e) = entry_score e"
  "entry_score (record_useful_activity now e) = entry_score e"
  "entry_score (entry_record_latency n e) = entry_score e"
  "entry_score (clear_ban e) = entry_score e"
  "entry_score (entry_dial_failure now e) = entry_score e"
  "entry_score (entry_ban now r e) = entry_score e"
  by (auto simp: entry_score_def touch_def update_addresses_def set_provisional_node_type_def
      confirm_node_type_def mark_verified_def set_connected_def clear_connected_def
      record_useful_activity_def entry_record_latency_def clear_ban_def entry_dial_failure_def
      entry_ban_def score_record_latency_def Let_def)

lemma entry_record_event_score:
  "entry_record_event fo ev e = (e', ch) \<Longrightarrow>
    sch_old_score ch = entry_score e \<and> sch_new_score ch = entry_score e'"
  by (auto simp: entry_record_event_def record_event_change_def add_score_def check_thresholds_def
      score_record_latency_def entry_score_def Let_def split: prod.splits option.splits if_splits)

lemma reset_score_score:
  "reset_score fo x e = (e', old, new) \<Longrightarrow> old = entry_score e \<and> new = entry_score e'"
  by (auto simp: reset_score_def swarm_score_reset_def set_score_def entry_score_def Let_def)

lemma decay_score_score:
  "decay_score fo now e = (e', ch) \<Longrightarrow>
    (case ch of None \<Rightarrow> entry_score e' = entry_score e
     | Some (old, new) \<Rightarrow> old = entry_score e \<and> new = entry_score e')"
  by (auto simp: decay_score_def swarm_score_decay_def score_decay_def entry_score_def Let_def
      split: if_splits prod.splits)

lemma entry_with_config_wf [simp]:
  "entry_wf (entry_with_config fo now peer t o' c)" "entry_wf (entry_from_snapshot fo now sn c)"
  "pe_peer (entry_with_config fo now peer t o' c) = peer"
  "pe_peer (entry_from_snapshot fo now sn c) = psn_peer sn"
  "\<not> entry_is_banned (entry_with_config fo now peer t o' c)"
  "\<not> entry_is_banned (entry_from_snapshot fo now sn c)"
  by (auto simp: entry_wf_def entry_is_banned_def entry_with_config_def entry_from_snapshot_def
      intro: exI [of _ Normal])

section \<open>Invariant\<close>

text \<open>The last word of the log on the ban of an overlay.\<close>

fun ban_word :: "overlay_address \<Rightarrow> 'f peer_lifecycle_event \<Rightarrow> nat option option \<Rightarrow> nat option option" where
  "ban_word k (PeerBanned overlay until cause) w = (if overlay = k then Some until else w)"
| "ban_word k (PeerUnbanned overlay) w = (if overlay = k then None else w)"
| "ban_word k _ w = w"

definition announced :: "overlay_address \<Rightarrow> 'f peer_lifecycle_event list \<Rightarrow> nat option option" where
  "announced k evs = fold (ban_word k) evs None"

lemma announced_snoc [simp]: "announced k (evs @ [ev]) = ban_word k ev (announced k evs)"
  by (simp add: announced_def)

definition manager_ok :: "('f :: linorder, 's) manager_env \<Rightarrow> ('f, 'm, 's) peer_manager \<Rightarrow> bool" where
  "manager_ok env pm \<longleftrightarrow>
    finite (dom (pm_peers pm))
    \<and> index_ok (me_lib env) (pm_index pm) \<and> cache_ok (me_lib env) (pm_index pm)
    \<and> members (me_lib env) (pm_index pm) = dom (pm_peers pm)
    \<and> (\<forall>k e. pm_peers pm k = Some e \<longrightarrow>
        sp_overlay (pe_peer e) = k \<and> entry_wf e \<and> (entry_is_banned e \<longrightarrow> pm_banned_set pm k \<noteq> None))
    \<and> dist_ok (me_fo env) (pm_peers pm) (pm_score_distribution pm)
    \<and> (\<forall>k u. pm_banned_set pm k = Some u \<longrightarrow> announced k (pm_events pm) = Some u)"

lemma manager_okD:
  assumes "manager_ok env pm"
  shows "finite (dom (pm_peers pm))" "index_ok (me_lib env) (pm_index pm)"
    "cache_ok (me_lib env) (pm_index pm)"
    "members (me_lib env) (pm_index pm) = dom (pm_peers pm)"
    "pm_peers pm k = Some e \<Longrightarrow> sp_overlay (pe_peer e) = k"
    "pm_peers pm k = Some e \<Longrightarrow> entry_wf e"
    "pm_peers pm k = Some e \<Longrightarrow> entry_is_banned e \<Longrightarrow> pm_banned_set pm k \<noteq> None"
    "dist_ok (me_fo env) (pm_peers pm) (pm_score_distribution pm)"
    "pm_banned_set pm k = Some u \<Longrightarrow> announced k (pm_events pm) = Some u"
  using assms unfolding manager_ok_def by simp_all

lemma manager_okI:
  assumes "finite (dom (pm_peers pm))" "index_ok (me_lib env) (pm_index pm)"
    "cache_ok (me_lib env) (pm_index pm)"
    "members (me_lib env) (pm_index pm) = dom (pm_peers pm)"
    "\<And>k e. pm_peers pm k = Some e \<Longrightarrow> sp_overlay (pe_peer e) = k"
    "\<And>k e. pm_peers pm k = Some e \<Longrightarrow> entry_wf e"
    "\<And>k e. pm_peers pm k = Some e \<Longrightarrow> entry_is_banned e \<Longrightarrow> pm_banned_set pm k \<noteq> None"
    "dist_ok (me_fo env) (pm_peers pm) (pm_score_distribution pm)"
    "\<And>k u. pm_banned_set pm k = Some u \<Longrightarrow> announced k (pm_events pm) = Some u"
  shows "manager_ok env pm"
  using assms unfolding manager_ok_def by simp

lemma manager_ok_bookkeeping [simp]:
  "manager_ok env (pm\<lparr>pm_store := x\<rparr>) = manager_ok env pm"
  "manager_ok env (pm\<lparr>pm_last_snapshot := n\<rparr>) = manager_ok env pm"
  by (simp_all add: manager_ok_def)

lemma manager_ok_emit:
  assumes "manager_ok env pm" and "\<And>k w. pm_banned_set pm k \<noteq> None \<Longrightarrow> ban_word k ev w = w"
  shows "manager_ok env (emit ev pm)"
  using assms unfolding manager_ok_def emit_def by auto

text \<open>One entry replaced in place.\<close>

lemma manager_ok_replace:
  assumes ok: "manager_ok env pm" and e: "pm_peers pm k = Some e" and ke: "keeps_entry e e'"
  shows "manager_ok env (score_changed env (entry_score e) (entry_score e')
    (pm\<lparr>pm_peers := (pm_peers pm)(k \<mapsto> e')\<rparr>))"
proof (rule manager_okI)
  note d = manager_okD [OF ok]
  have dom: "dom ((pm_peers pm)(k \<mapsto> e')) = dom (pm_peers pm)" using e by auto
  show "dist_ok (me_fo env)
      (pm_peers (score_changed env (entry_score e) (entry_score e') (pm\<lparr>pm_peers := (pm_peers pm)(k \<mapsto> e')\<rparr>)))
      (pm_score_distribution (score_changed env (entry_score e) (entry_score e') (pm\<lparr>pm_peers := (pm_peers pm)(k \<mapsto> e')\<rparr>)))"
    using dist_ok_replace [OF d(8) e d(1)] by (simp add: score_changed_def)
qed (use manager_okD [OF ok] e ke in \<open>auto simp: score_changed_def keeps_entry_def split: if_splits\<close>)

lemma manager_ok_update_entry:
  assumes ok: "manager_ok env pm"
    and f: "\<And>e. pm_peers pm k = Some e \<Longrightarrow> keeps_entry e (f e) \<and> entry_score (f e) = entry_score e"
  shows "manager_ok env (update_entry k f pm)"
proof (cases "pm_peers pm k")
  case None
  then show ?thesis using ok by (simp add: update_entry_def)
next
  case (Some e)
  have "score_changed env (entry_score e) (entry_score (f e)) (pm\<lparr>pm_peers := (pm_peers pm)(k \<mapsto> f e)\<rparr>)
      = pm\<lparr>pm_peers := (pm_peers pm)(k \<mapsto> f e)\<rparr>"
    using f [OF Some] by (simp add: score_changed_def)
  then show ?thesis
    using manager_ok_replace [OF ok Some, of "f e"] f [OF Some] Some by (simp add: update_entry_def)
qed

lemma update_entry_simps [simp]:
  "pm_index (update_entry k f pm) = pm_index pm"
  "pm_banned_set (update_entry k f pm) = pm_banned_set pm"
  "pm_events (update_entry k f pm) = pm_events pm"
  "pm_scoring_config (update_entry k f pm) = pm_scoring_config pm"
  "pm_peers (update_entry k f pm) j = (if j = k then map_option f (pm_peers pm k) else pm_peers pm j)"
  "dom (pm_peers (update_entry k f pm)) = dom (pm_peers pm)"
  by (auto simp: update_entry_def split: option.splits)

lemma emit_simps [simp]:
  "pm_index (emit ev pm) = pm_index pm" "pm_peers (emit ev pm) = pm_peers pm"
  "pm_banned_set (emit ev pm) = pm_banned_set pm" "pm_events (emit ev pm) = pm_events pm @ [ev]"
  "pm_scoring_config (emit ev pm) = pm_scoring_config pm"
  by (simp_all add: emit_def)

lemma score_changed_simps [simp]:
  "pm_index (score_changed env x y pm) = pm_index pm"
  "pm_peers (score_changed env x y pm) = pm_peers pm"
  "pm_banned_set (score_changed env x y pm) = pm_banned_set pm"
  "pm_events (score_changed env x y pm) = pm_events pm"
  "pm_scoring_config (score_changed env x y pm) = pm_scoring_config pm"
  by (simp_all add: score_changed_def)

section \<open>The operations keep it\<close>

lemma ban_with_expiry_ok:
  assumes ok: "manager_ok env pm"
  shows "manager_ok env (ban_with_expiry now k cause reason until pm)"
proof (cases "pm_banned_set pm k")
  case None
  let ?f = "\<lambda>e. if entry_is_banned e then e else entry_ban now reason e"
  let ?pm = "update_entry k ?f (pm\<lparr>pm_banned_set := (pm_banned_set pm)(k \<mapsto> until)\<rparr>)"
  note d = manager_okD [OF ok]
  have wf: "entry_wf (entry_ban now reason e) = entry_wf e"
    "pe_peer (entry_ban now reason e) = pe_peer e" for e :: "('a, 'c) peer_entry"
    by (simp_all add: entry_wf_def entry_ban_def)
  have "manager_ok env (emit (PeerBanned k until cause) ?pm)"
  proof (rule manager_okI)
    have "dist_ok (me_fo env) (pm_peers ?pm) (pm_score_distribution ?pm)"
    proof (cases "pm_peers pm k")
      case None
      then show ?thesis using d(8) by (simp add: update_entry_def)
    next
      case (Some e)
      then have "dist_ok (me_fo env) ((pm_peers pm)(k \<mapsto> ?f e))
          (on_score_changed (me_fo env) (entry_score e) (entry_score (?f e)) (pm_score_distribution pm))"
        by (rule dist_ok_replace [OF d(8) _ d(1)])
      then show ?thesis using Some by (simp add: update_entry_def split: if_splits)
    qed
    then show "dist_ok (me_fo env) (pm_peers (emit (PeerBanned k until cause) ?pm))
        (pm_score_distribution (emit (PeerBanned k until cause) ?pm))" by (simp add: emit_def)
  qed (use d wf in \<open>auto split: if_splits\<close>)
  then show ?thesis using None by (simp add: ban_with_expiry_def)
qed (use ok in \<open>simp add: ban_with_expiry_def\<close>)

lemma unban_ok:
  assumes ok: "manager_ok env pm"
  shows "manager_ok env (unban env k pm)"
proof -
  let ?x = "ssc_disconnect_threshold (pm_scoring_config pm)"
  define pm1 where "pm1 = (case pm_peers pm k of None \<Rightarrow> pm | Some e \<Rightarrow>
      let (e', old_score, new_score) = reset_score (me_fo env) ?x (clear_ban e)
      in score_changed env old_score new_score (pm\<lparr>pm_peers := (pm_peers pm)(k \<mapsto> e')\<rparr>))"
  have banned: "pm_banned_set pm1 = pm_banned_set pm" "pm_events pm1 = pm_events pm"
    by (auto simp: pm1_def split: option.splits prod.splits)
  have ok1: "manager_ok env pm1 \<and> (\<forall>e. pm_peers pm1 k = Some e \<longrightarrow> \<not> entry_is_banned e)"
  proof (cases "pm_peers pm k")
    case None
    then show ?thesis using ok by (simp add: pm1_def)
  next
    case (Some e)
    obtain e' old new where r: "reset_score (me_fo env) ?x (clear_ban e) = (e', old, new)"
      by (cases "reset_score (me_fo env) ?x (clear_ban e)")
    have s: "old = entry_score e" "new = entry_score e'" using reset_score_score [OF r] by simp_all
    have "keeps_entry (clear_ban e) e'" using entry_ops_keep(14) [of "clear_ban e" "me_fo env" ?x] r by simp
    then have ke: "keeps_entry e e'" "\<not> entry_is_banned e'"
      using entry_ops_keep(10) [of e] keeps_entry_trans
      by (auto simp: keeps_entry_def clear_ban_def entry_is_banned_def)
    show ?thesis
      using manager_ok_replace [OF ok Some ke(1)] ke(2) Some r s by (simp add: pm1_def)
  qed
  show ?thesis
  proof (cases "pm_banned_set pm1 k")
    case None
    then show ?thesis using ok1 by (simp add: unban_def pm1_def [symmetric] Let_def)
  next
    case (Some u)
    let ?pm = "pm1\<lparr>pm_banned_set := (pm_banned_set pm1)(k := None)\<rparr>"
    have "manager_ok env ?pm"
      using ok1 unfolding manager_ok_def by (auto split: if_splits)
    then have "manager_ok env (emit (PeerUnbanned k) ?pm)"
      by (rule manager_ok_emit) auto
    then show ?thesis using Some by (simp add: unban_def pm1_def [symmetric] Let_def)
  qed
qed

lemma report_peer_ok:
  assumes ok: "manager_ok env pm"
  shows "manager_ok env (report_peer env now k ev pm)"
proof (cases "pm_banned_set pm k = None \<and> pm_peers pm k \<noteq> None")
  case False
  then show ?thesis using ok by (auto simp: report_peer_def split: option.splits)
next
  case True
  then obtain e where e: "pm_peers pm k = Some e" by auto
  define e1 where "e1 = (if is_useful ev then record_useful_activity now e else e)"
  obtain e2 ch where r: "entry_record_event (me_fo env) ev e1 = (e2, ch)"
    by (cases "entry_record_event (me_fo env) ev e1")
  have e1: "keeps_entry e e1" "entry_score e1 = entry_score e" by (simp_all add: e1_def)
  have ke: "keeps_entry e e2"
    using keeps_entry_trans [OF e1(1)] entry_ops_keep(12) [of e1 "me_fo env" ev] r by simp
  have s: "sch_old_score ch = entry_score e" "sch_new_score ch = entry_score e2"
    using entry_record_event_score [OF r] e1(2) by simp_all
  define pm1 where "pm1 = score_changed env (sch_old_score ch) (sch_new_score ch)
      (pm\<lparr>pm_peers := (pm_peers pm)(k \<mapsto> e2)\<rparr>)"
  have ok1: "manager_ok env pm1" using manager_ok_replace [OF ok e ke] s by (simp add: pm1_def)
  have "manager_ok env (case sch_outcome ch of OutcomeOk \<Rightarrow> pm1
      | Warn \<Rightarrow> emit (ScoreWarning k (sch_new_score ch)) pm1
      | Disconnect \<Rightarrow> emit (DisconnectRequested k LowScore) (update_entry k (entry_dial_failure now) pm1)
      | Ban \<Rightarrow> ban now k CauseLowScore (Some (me_reason env (sch_new_score ch) ev)) pm1)"
    using ok1 by (cases "sch_outcome ch")
      (auto simp: ban_def intro!: manager_ok_emit manager_ok_update_entry ban_with_expiry_ok)
  then show ?thesis
    using True e r by (simp add: report_peer_def e1_def [symmetric] pm1_def [symmetric])
qed

lemma dial_failure_ok: "manager_ok env pm \<Longrightarrow> manager_ok env (record_dial_failure now k pm)"
  unfolding record_dial_failure_def by (rule manager_ok_update_entry) simp_all

lemma early_disconnect_ok:
  "manager_ok env pm \<Longrightarrow> manager_ok env (record_early_disconnect env now k d pm)"
  unfolding record_early_disconnect_def
  by (rule report_peer_ok, rule manager_ok_update_entry) simp_all

lemma latency_ok: "manager_ok env pm \<Longrightarrow> manager_ok env (record_latency k n pm)"
  unfolding record_latency_def by (rule manager_ok_update_entry) simp_all

lemma disconnected_ok: "manager_ok env pm \<Longrightarrow> manager_ok env (on_peer_disconnected k r pm)"
  unfolding on_peer_disconnected_def
  by (rule manager_ok_emit, rule manager_ok_update_entry) simp_all

section \<open>Admission and removal\<close>

abbreviation generation :: "('f, 'm, 's) peer_manager \<Rightarrow> nat" where
  "generation pm \<equiv> pi_generation (pm_index pm)"

lemma manager_remove_peer_simps [simp]:
  "pm_peers (manager_remove_peer env k pm) = (pm_peers pm)(k := None)"
  "pm_index (manager_remove_peer env k pm) = fst (index_remove (me_lib env) (pm_index pm) k)"
  "pm_banned_set (manager_remove_peer env k pm) = (pm_banned_set pm)(k := None)"
  "pm_events (manager_remove_peer env k pm) = pm_events pm"
  "pm_scoring_config (manager_remove_peer env k pm) = pm_scoring_config pm"
  by (auto simp: manager_remove_peer_def Let_def fun_upd_idem split: option.splits)

lemma manager_remove_peer_ok:
  assumes laws: "overlay_laws (me_lib env)" and ok: "manager_ok env pm"
    and g: "generation pm < u64_max"
  shows "manager_ok env (manager_remove_peer env k pm)"
proof (rule manager_okI)
  note d = manager_okD [OF ok]
  show "dist_ok (me_fo env) (pm_peers (manager_remove_peer env k pm))
      (pm_score_distribution (manager_remove_peer env k pm))"
    using d(8) dist_ok_remove [OF d(8) _ d(1)]
    by (cases "pm_peers pm k") (simp_all add: manager_remove_peer_def Let_def)
  show "members (me_lib env) (pm_index (manager_remove_peer env k pm)) = dom (pm_peers (manager_remove_peer env k pm))"
    using index_remove_members [OF laws d(2) g] d(4) by simp
qed (use manager_okD [OF ok] index_remove_ok [OF laws _ g] cache_ok_remove [OF laws _ g] in
      \<open>auto split: if_splits\<close>)

lemma add_entry_ok:
  assumes laws: "overlay_laws (me_lib env)" and ok: "manager_ok env pm"
    and g: "generation pm < u64_max" and k: "pm_peers pm k = None"
    and add: "index_add (me_lib env) (pm_index pm) k = (ix, Inr ())"
    and e: "entry_wf e" "sp_overlay (pe_peer e) = k" "\<not> entry_is_banned e"
  shows "manager_ok env (pm\<lparr>pm_index := ix, pm_peers := (pm_peers pm)(k \<mapsto> e),
    pm_score_distribution := on_peer_added (me_fo env) (entry_score e) (pm_score_distribution pm)\<rparr>)"
(is "manager_ok env ?pm")
proof (rule manager_okI)
  note d = manager_okD [OF ok]
  show "index_ok (me_lib env) (pm_index ?pm)" using index_add_ok [OF laws d(2) g, of k] add by simp
  show "cache_ok (me_lib env) (pm_index ?pm)"
    using cache_ok_add [OF laws d(2) g d(3), of k] add by simp
  show "members (me_lib env) (pm_index ?pm) = dom (pm_peers ?pm)"
    using index_add_members [OF laws d(2) g add] d(4) by simp
  show "dist_ok (me_fo env) (pm_peers ?pm) (pm_score_distribution ?pm)"
    using dist_ok_add [OF d(8) k d(1)] by simp
qed (use manager_okD [OF ok] e in \<open>auto split: if_splits\<close>)

text \<open>The order in which records are given up: stale ones first, then by score.\<close>

definition no_better ::
  "nat \<Rightarrow> (overlay_address \<rightharpoonup> ('f :: linorder, 'm) peer_entry) \<Rightarrow> overlay_address \<Rightarrow> overlay_address \<Rightarrow> bool" where
  "no_better now peers v w \<longleftrightarrow>
    (\<forall>ev ew. peers v = Some ev \<longrightarrow> peers w = Some ew \<longrightarrow>
      (is_stale now ew \<longrightarrow> is_stale now ev)
      \<and> (is_stale now ew = is_stale now ev \<longrightarrow> entry_score ev \<le> entry_score ew))"

definition replaceable :: "(overlay_address \<rightharpoonup> ('f, 'm) peer_entry) \<Rightarrow> overlay_address \<Rightarrow> bool" where
  "replaceable peers v \<longleftrightarrow> (\<exists>e. peers v = Some e \<and> \<not> entry_is_connected e)"

definition best_ok ::
  "nat \<Rightarrow> (overlay_address \<rightharpoonup> ('f :: linorder, 'm) peer_entry) \<Rightarrow> overlay_address set
    \<Rightarrow> (overlay_address \<times> bool \<times> 'f) option \<Rightarrow> bool" where
  "best_ok now peers seen best \<longleftrightarrow>
    (case best of
       None \<Rightarrow> \<forall>w\<in>seen. \<not> replaceable peers w
     | Some (v, st, sc) \<Rightarrow>
         v \<in> seen \<and> replaceable peers v
         \<and> (\<exists>e. peers v = Some e \<and> st = is_stale now e \<and> sc = entry_score e)
         \<and> (\<forall>w\<in>seen. replaceable peers w \<longrightarrow> no_better now peers v w))"

lemma best_ok_step:
  assumes b: "best_ok now peers seen best" and e: "peers k = Some e" and c: "\<not> entry_is_connected e"
    and better: "better = (case best of None \<Rightarrow> True
      | Some (_, bs, bsc) \<Rightarrow> is_stale now e \<and> \<not> bs \<or> is_stale now e = bs \<and> entry_score e < bsc)"
  shows "best_ok now peers (insert k seen)
    (if better then Some (k, is_stale now e, entry_score e) else best)"
proof (cases best)
  case None
  then show ?thesis using b e c better by (auto simp: best_ok_def replaceable_def no_better_def)
next
  case (Some x)
  obtain v st sc where x: "x = (v, st, sc)" by (cases x)
  then obtain ev where ev: "peers v = Some ev" "st = is_stale now ev" "sc = entry_score ev"
    using b Some by (auto simp: best_ok_def)
  have all: "\<forall>w\<in>seen. replaceable peers w \<longrightarrow> no_better now peers v w"
    and v: "v \<in> seen" "replaceable peers v" using b Some x by (auto simp: best_ok_def)
  show ?thesis
  proof (cases better)
    case True
    then have "no_better now peers k w" if "w \<in> insert k seen" "replaceable peers w" for w
      using that all ev e better Some x by (fastforce simp: no_better_def)
    then show ?thesis using True e c by (auto simp: best_ok_def replaceable_def)
  next
    case False
    then have "no_better now peers v k" using ev e better Some x by (auto simp: no_better_def)
    then show ?thesis using False Some x v ev all by (auto simp: best_ok_def)
  qed
qed

text \<open>The worst disconnected record of a set, if there is one.\<close>

definition worst_of ::
  "nat \<Rightarrow> (overlay_address \<rightharpoonup> ('f :: linorder, 'm) peer_entry) \<Rightarrow> overlay_address set
    \<Rightarrow> overlay_address option \<Rightarrow> bool" where
  "worst_of now peers S r \<longleftrightarrow>
    (case r of
       None \<Rightarrow> \<forall>w\<in>S. \<not> replaceable peers w
     | Some v \<Rightarrow> v \<in> S \<and> replaceable peers v
         \<and> (\<forall>w\<in>S. replaceable peers w \<longrightarrow> no_better now peers v w))"

lemma find_scan_spec:
  "best_ok now peers seen best \<Longrightarrow> \<forall>k\<in>set ks. peers k \<noteq> None \<Longrightarrow>
    worst_of now peers (seen \<union> set ks) (find_scan now peers ks best)"
proof (induction ks arbitrary: best seen)
  case Nil
  then show ?case by (cases best) (auto simp: best_ok_def worst_of_def)
next
  case (Cons k ks)
  then obtain e where e: "peers k = Some e" by auto
  have S: "seen \<union> set (k # ks) = insert k seen \<union> set ks" by simp
  show ?case
  proof (cases "entry_is_connected e")
    case True
    then have "best_ok now peers (insert k seen) best"
      using Cons.prems(1) e by (auto simp: best_ok_def replaceable_def split: option.splits)
    then show ?thesis
      unfolding S using Cons.IH [of "insert k seen" best] Cons.prems(2) e True by simp
  next
    case False
    then show ?thesis
      unfolding S using Cons.IH [OF best_ok_step [OF Cons.prems(1) e False refl]] Cons.prems(2) e
      by (simp add: Let_def)
  qed
qed

lemma find_replaceable_spec:
  assumes ok: "manager_ok env pm" and b: "b \<le> pi_max_po (pm_index pm)"
  shows "worst_of now (pm_peers pm) (set (peers_in_bin (me_lib env) (pm_index pm) b))
    (find_replaceable env now b pm)"
proof -
  have "\<forall>k\<in>set (peers_in_bin (me_lib env) (pm_index pm) b). pm_peers pm k \<noteq> None"
  proof
    fix k assume k: "k \<in> set (peers_in_bin (me_lib env) (pm_index pm) b)"
    then have "bin_for (me_lib env) (pm_index pm) k = b"
      using index_ok_bin(2) [OF manager_okD(2) [OF ok] b] by blast
    then have "k \<in> members (me_lib env) (pm_index pm)"
      using k members_iff [OF manager_okD(2) [OF ok]] by simp
    then show "pm_peers pm k \<noteq> None" using manager_okD(4) [OF ok] by auto
  qed
  moreover have "best_ok now (pm_peers pm) {} None" by (simp add: best_ok_def)
  ultimately show ?thesis
    unfolding find_replaceable_def
    using find_scan_spec [of now "pm_peers pm" "{}" None "peers_in_bin (me_lib env) (pm_index pm) b"]
    by simp
qed

text \<open>A bin of the index is full.\<close>

definition bin_full :: "('f, 's) manager_env \<Rightarrow> overlay_address \<Rightarrow> ('f, 'm, 's) peer_manager \<Rightarrow> bool" where
  "bin_full env k pm \<longleftrightarrow>
    0 < pi_max_per_bin (pm_index pm)
    \<and> pi_max_per_bin (pm_index pm) \<le> bin_size (pm_index pm) (bin_for (me_lib env) (pm_index pm) k)"

definition bin_peers :: "('f, 's) manager_env \<Rightarrow> overlay_address \<Rightarrow> ('f, 'm, 's) peer_manager
    \<Rightarrow> overlay_address set" where
  "bin_peers env k pm =
    set (peers_in_bin (me_lib env) (pm_index pm) (bin_for (me_lib env) (pm_index pm) k))"

lemma index_add_room:
  assumes laws: "overlay_laws (me_lib env)" and ok: "manager_ok env pm"
    and g: "generation pm < u64_max" and k: "pm_peers pm k = None" and r: "\<not> bin_full env k pm"
  obtains ix where "index_add (me_lib env) (pm_index pm) k = (ix, Inr ())"
proof -
  note d = manager_okD [OF ok]
  have "k \<notin> members (me_lib env) (pm_index pm)" using k d(4) by auto
  then show thesis
    using that r index_add_spec [OF laws d(2) g, of k] by (auto simp: bin_full_def)
qed

lemma removed_bin_has_room:
  assumes laws: "overlay_laws (me_lib env)" and ok: "manager_ok env pm"
    and g: "generation pm < u64_max" and v: "v \<in> bin_peers env k pm"
  shows "\<not> bin_full env k (manager_remove_peer env v pm)"
proof -
  note d = manager_okD [OF ok]
  let ?ix = "pm_index pm"
  let ?b = "bin_for (me_lib env) ?ix k"
  have le: "?b \<le> pi_max_po ?ix" by (rule bin_for_le [OF d(2)])
  note rm = index_remove_peers [OF laws d(2) g, of v]
  have ok': "index_ok (me_lib env) (fst (index_remove (me_lib env) ?ix v))"
    by (rule index_remove_ok [OF laws d(2) g])
  have size: "bin_size ix c = length (peers_in_bin (me_lib env) ix c)"
    if "index_ok (me_lib env) ix" "c \<le> pi_max_po ix" for ix c
    using that index_ok_bin(3) [OF that] index_ok_shape(3) [OF that(1)] by (simp add: bin_size_def)
  have "length (filter (\<lambda>x. x \<noteq> v) (peers_in_bin (me_lib env) ?ix ?b)) + 1
      = length (peers_in_bin (me_lib env) ?ix ?b)"
    using index_ok_bin(1) [OF d(2) le] v by (intro length_filter_neq) (simp_all add: bin_peers_def)
  then have "bin_size (fst (index_remove (me_lib env) ?ix v)) ?b < bin_size ?ix ?b"
    using size [OF ok'] size [OF d(2) le] rm(1,6) le by simp
  moreover have "0 < pi_max_per_bin ?ix \<Longrightarrow> bin_size ?ix ?b \<le> pi_max_per_bin ?ix"
    using size [OF d(2) le] index_ok_bin(4) [OF d(2) le] by simp
  ultimately show ?thesis using rm(5,7) by (auto simp: bin_full_def)
qed

lemma admit_spec:
  assumes laws: "overlay_laws (me_lib env)" and ok: "manager_ok env pm"
    and g: "generation pm + 1 < u64_max" and k: "pm_peers pm k = None"
  obtains (room) ix where "\<not> bin_full env k pm"
      "index_add (me_lib env) (pm_index pm) k = (ix, Inr ())"
      "admit_peer env now k pm = (pm\<lparr>pm_index := ix\<rparr>, True)"
    | (refuse) "bin_full env k pm" "worst_of now (pm_peers pm) (bin_peers env k pm) None"
      "admit_peer env now k pm = (pm, False)"
    | (replace) v ix where "bin_full env k pm"
      "worst_of now (pm_peers pm) (bin_peers env k pm) (Some v)"
      "index_add (me_lib env) (pm_index (manager_remove_peer env v pm)) k = (ix, Inr ())"
      "admit_peer env now k pm = ((manager_remove_peer env v pm)\<lparr>pm_index := ix\<rparr>, True)"
proof -
  note d = manager_okD [OF ok]
  have g0: "generation pm < u64_max" using g by simp
  have nk: "k \<notin> members (me_lib env) (pm_index pm)" using k d(4) by auto
  show thesis
  proof (cases "bin_full env k pm")
    case False
    then obtain ix where ix: "index_add (me_lib env) (pm_index pm) k = (ix, Inr ())"
      using index_add_room [OF laws ok g0 k] by blast
    then show thesis using room [OF False ix] by (simp add: admit_peer_def)
  next
    case True
    have full: "index_add (me_lib env) (pm_index pm) k = (pm_index pm, Inl BinFull)"
      using True nk index_add_spec [OF laws d(2) g0, of k] by (simp add: bin_full_def)
    let ?b = "bin_for (me_lib env) (pm_index pm) k"
    have w: "worst_of now (pm_peers pm) (bin_peers env k pm) (find_replaceable env now ?b pm)"
      unfolding bin_peers_def by (rule find_replaceable_spec [OF ok bin_for_le [OF d(2)]])
    show thesis
    proof (cases "find_replaceable env now ?b pm")
      case None
      then show thesis using refuse [OF True] w full by (simp add: admit_peer_def)
    next
      case (Some v)
      have v: "v \<in> bin_peers env k pm" using w Some by (simp add: worst_of_def)
      have ok1: "manager_ok env (manager_remove_peer env v pm)" by (rule manager_remove_peer_ok [OF laws ok g0])
      have g1: "generation (manager_remove_peer env v pm) < u64_max"
        using index_generation_grows(2) [OF laws d(2) g0, of v] g by simp
      have k1: "pm_peers (manager_remove_peer env v pm) k = None" using k by simp
      obtain ix where ix: "index_add (me_lib env) (pm_index (manager_remove_peer env v pm)) k = (ix, Inr ())"
        by (rule index_add_room [OF laws ok1 g1 k1 removed_bin_has_room [OF laws ok g0 v]])
      show thesis
        by (rule replace [OF True _ ix]) (use w Some full ix in \<open>simp_all add: admit_peer_def\<close>)
    qed
  qed
qed

definition admitted_entry ::
  "('f :: linorder, 's) manager_env \<Rightarrow> nat \<Rightarrow> 'm swarm_peer \<Rightarrow> swarm_node_type
    \<Rightarrow> ('f, 'm, 's) peer_manager \<Rightarrow> ('f, 'm) peer_entry" where
  "admitted_entry env now peer t pm =
    entry_with_config (me_fo env) now peer t (sp_overlay peer) (pm_scoring_config pm)"

lemma insert_peer_spec:
  assumes laws: "overlay_laws (me_lib env)" and ok: "manager_ok env pm"
    and g: "generation pm + 1 < u64_max"
    and k_def: "k = sp_overlay peer"
    and ins: "insert_peer env now (sp_overlay peer) peer t pm = (pm', inserted)"
  shows "manager_ok env pm'"
    and "pm_events pm' = pm_events pm"
    and "pm_peers pm k \<noteq> None \<Longrightarrow>
      inserted \<and> pm' = update_entry k (update_addresses now peer) pm"
    and "pm_peers pm k = None \<Longrightarrow> \<not> bin_full env k pm \<Longrightarrow>
      inserted \<and> pm_peers pm' = (pm_peers pm)(k \<mapsto> admitted_entry env now peer t pm)
      \<and> pm_banned_set pm' = pm_banned_set pm"
    and "pm_peers pm k = None \<Longrightarrow> bin_full env k pm \<Longrightarrow>
      (\<not> inserted \<and> pm' = pm \<and> worst_of now (pm_peers pm) (bin_peers env k pm) None)
      \<or> (\<exists>v. inserted \<and> worst_of now (pm_peers pm) (bin_peers env k pm) (Some v)
          \<and> pm_peers pm' = (pm_peers pm)(v := None, k \<mapsto> admitted_entry env now peer t pm)
          \<and> pm_banned_set pm' = (pm_banned_set pm)(v := None))"
    and "inserted \<longleftrightarrow> pm_peers pm' k \<noteq> None"
proof -
  note d = manager_okD [OF ok]
  have "manager_ok env pm' \<and> pm_events pm' = pm_events pm
    \<and> (pm_peers pm k \<noteq> None \<longrightarrow> inserted \<and> pm' = update_entry k (update_addresses now peer) pm)
    \<and> (pm_peers pm k = None \<longrightarrow> \<not> bin_full env k pm \<longrightarrow>
      inserted \<and> pm_peers pm' = (pm_peers pm)(k \<mapsto> admitted_entry env now peer t pm)
      \<and> pm_banned_set pm' = pm_banned_set pm)
    \<and> (pm_peers pm k = None \<longrightarrow> bin_full env k pm \<longrightarrow>
      (\<not> inserted \<and> pm' = pm \<and> worst_of now (pm_peers pm) (bin_peers env k pm) None)
      \<or> (\<exists>v. inserted \<and> worst_of now (pm_peers pm) (bin_peers env k pm) (Some v)
          \<and> pm_peers pm' = (pm_peers pm)(v := None, k \<mapsto> admitted_entry env now peer t pm)
          \<and> pm_banned_set pm' = (pm_banned_set pm)(v := None)))
    \<and> (inserted \<longleftrightarrow> pm_peers pm' k \<noteq> None)" (is ?goal)
  proof (cases "pm_peers pm k")
    case (Some e)
    then have pm': "pm' = update_entry k (update_addresses now peer) pm" and i: inserted
      using ins by (simp_all add: insert_peer_def k_def)
    have "manager_ok env pm'"
      unfolding pm' by (rule manager_ok_update_entry [OF ok]) (use d(5) in \<open>simp add: k_def\<close>)
    then show ?goal using Some pm' i by simp
  next
    case None
    have e: "entry_wf (admitted_entry env now peer t pm)"
      "sp_overlay (pe_peer (admitted_entry env now peer t pm)) = k"
      "\<not> entry_is_banned (admitted_entry env now peer t pm)"
      by (simp_all add: admitted_entry_def k_def)
    have g0: "generation pm < u64_max" using g by simp
    show ?goal
      using laws ok g None
    proof (cases rule: admit_spec [where now = now])
      case (room ix)
      then have pm': "pm' = pm\<lparr>pm_index := ix, pm_peers := (pm_peers pm)(k \<mapsto> admitted_entry env now peer t pm),
          pm_score_distribution := on_peer_added (me_fo env)
            (entry_score (admitted_entry env now peer t pm)) (pm_score_distribution pm)\<rparr>" and i: inserted
        using None ins by (simp_all add: insert_peer_def k_def admitted_entry_def Let_def)
      have "manager_ok env pm'" unfolding pm' by (rule add_entry_ok [OF laws ok g0 None room(2) e])
      then show ?goal using room(1) None pm' i by simp
    next
      case refuse
      then have "pm' = pm" "\<not> inserted"
        using None ins by (simp_all add: insert_peer_def k_def)
      then show ?goal using refuse None ok by simp
    next
      case (replace v ix)
      let ?pm1 = "manager_remove_peer env v pm"
      have "sp_overlay peer \<noteq> v"
        using replace(2) None by (auto simp: worst_of_def replaceable_def k_def)
      then have pm': "pm' = ?pm1\<lparr>pm_index := ix, pm_peers := (pm_peers ?pm1)(k \<mapsto> admitted_entry env now peer t pm),
          pm_score_distribution := on_peer_added (me_fo env)
            (entry_score (admitted_entry env now peer t pm)) (pm_score_distribution ?pm1)\<rparr>" and i: inserted
        using replace None ins by (simp_all add: insert_peer_def k_def admitted_entry_def Let_def)
      have g1: "generation ?pm1 < u64_max"
        using index_generation_grows(2) [OF laws d(2) g0, of v] g by simp
      have "manager_ok env pm'" unfolding pm'
        by (rule add_entry_ok [OF laws manager_remove_peer_ok [OF laws ok g0] g1 _ replace(3) e])
           (use None in simp)
      then show ?goal using replace(1,2) None pm' i by auto
    qed
  qed
  then show "manager_ok env pm'" "pm_events pm' = pm_events pm"
    "pm_peers pm k \<noteq> None \<Longrightarrow> inserted \<and> pm' = update_entry k (update_addresses now peer) pm"
    "pm_peers pm k = None \<Longrightarrow> \<not> bin_full env k pm \<Longrightarrow>
      inserted \<and> pm_peers pm' = (pm_peers pm)(k \<mapsto> admitted_entry env now peer t pm)
      \<and> pm_banned_set pm' = pm_banned_set pm"
    "pm_peers pm k = None \<Longrightarrow> bin_full env k pm \<Longrightarrow>
      (\<not> inserted \<and> pm' = pm \<and> worst_of now (pm_peers pm) (bin_peers env k pm) None)
      \<or> (\<exists>v. inserted \<and> worst_of now (pm_peers pm) (bin_peers env k pm) (Some v)
          \<and> pm_peers pm' = (pm_peers pm)(v := None, k \<mapsto> admitted_entry env now peer t pm)
          \<and> pm_banned_set pm' = (pm_banned_set pm)(v := None))"
    "inserted \<longleftrightarrow> pm_peers pm' k \<noteq> None"
    by blast+
qed

lemma store_discovered_ok:
  assumes laws: "overlay_laws (me_lib env)" and ok: "manager_ok env pm"
    and g: "generation pm + 1 < u64_max"
  shows "manager_ok env (store_discovered_peer env now peer pm)"
proof (cases "pm_peers pm (sp_overlay peer)")
  case (Some e)
  have "manager_ok env (update_entry (sp_overlay peer) (update_addresses now peer) pm)"
    by (rule manager_ok_update_entry [OF ok]) (use manager_okD(5) [OF ok] in simp)
  then show ?thesis using Some ok by (simp add: store_discovered_peer_def)
next
  case None
  obtain pm1 i where r: "insert_peer env now (sp_overlay peer) peer Client pm = (pm1, i)"
    by (cases "insert_peer env now (sp_overlay peer) peer Client pm")
  have "manager_ok env pm1" by (rule insert_peer_spec(1) [OF laws ok g refl r])
  then show ?thesis
    using None r by (auto simp: store_discovered_peer_def intro!: manager_ok_update_entry)
qed

lemma on_peer_connected_ok:
  fixes pm :: "('f :: linorder, 'm, 's) peer_manager"
  assumes laws: "overlay_laws (me_lib env)" and ok: "manager_ok env pm"
    and g: "generation pm + 1 < u64_max" and now: "0 < now"
  shows "manager_ok env (on_peer_connected env now peer t dir tr pm)"
proof -
  obtain pm1 i where r: "insert_peer env now (sp_overlay peer) peer t pm = (pm1, i)"
    by (cases "insert_peer env now (sp_overlay peer) peer t pm")
  have ok1: "manager_ok env pm1" by (rule insert_peer_spec(1) [OF laws ok g refl r])
  let ?f = "\<lambda>e. set_connected now dir tr (fst (mark_verified (confirm_node_type t e)))"
  have "keeps_entry e (?f e)" for e :: "('f, 'm) peer_entry"
    by (rule keeps_entry_trans [OF entry_ops_keep(4) keeps_entry_trans [OF entry_ops_keep(5) entry_ops_keep(6) [OF now]]])
  then have "manager_ok env (update_entry (sp_overlay peer) ?f pm1)"
    by (intro manager_ok_update_entry [OF ok1]) simp
  then have "manager_ok env (report_peer env now (sp_overlay peer) (ConnectionSuccess None)
      (emit (PeerConnected (sp_overlay peer) t) (update_entry (sp_overlay peer) ?f pm1)))"
    by (intro report_peer_ok manager_ok_emit) simp_all
  then show ?thesis using ok1 r by (simp add: on_peer_connected_def Let_def)
qed

lemma mismatch_ok:
  assumes laws: "overlay_laws (me_lib env)" and ok: "manager_ok env pm" and g: "generation pm < u64_max"
  shows "manager_ok env (on_dialed_overlay_mismatch env now k pm)"
  using ok dial_failure_ok [OF ok] manager_remove_peer_ok [OF laws ok g]
  by (simp add: on_dialed_overlay_mismatch_def split: option.splits)

lemma decay_one_ok:
  assumes ok: "manager_ok env pm"
  shows "manager_ok env (decay_one env now k pm)" and "pm_index (decay_one env now k pm) = pm_index pm"
proof -
  have "manager_ok env (decay_one env now k pm) \<and> pm_index (decay_one env now k pm) = pm_index pm"
  proof (cases "pm_peers pm k")
    case None
    then show ?thesis using ok by (simp add: decay_one_def)
  next
    case (Some e)
    obtain e' ch where r: "decay_score (me_fo env) now e = (e', ch)"
      by (cases "decay_score (me_fo env) now e")
    have ke: "keeps_entry e e'" using entry_ops_keep(13) [of e "me_fo env" now] r by simp
    note m = manager_ok_replace [OF ok Some ke]
    show ?thesis
    proof (cases ch)
      case None
      then have "entry_score e' = entry_score e" using decay_score_score [OF r] by simp
      then show ?thesis using m Some r None by (simp add: decay_one_def score_changed_def)
    next
      case (Some x)
      then have "x = (entry_score e, entry_score e')" using decay_score_score [OF r] by (cases x) simp
      then show ?thesis using m \<open>pm_peers pm k = Some e\<close> r Some by (simp add: decay_one_def)
    qed
  qed
  then show "manager_ok env (decay_one env now k pm)"
    "pm_index (decay_one env now k pm) = pm_index pm" by simp_all
qed

lemma decay_scores_ok:
  "manager_ok env pm \<Longrightarrow>
    manager_ok env (decay_scores env now ks pm) \<and> pm_index (decay_scores env now ks pm) = pm_index pm"
  unfolding decay_scores_def by (induction ks arbitrary: pm) (simp_all add: decay_one_ok)

lemma unban_index [simp]: "pm_index (unban env k pm) = pm_index pm"
  by (auto simp: unban_def Let_def split: option.splits prod.splits)

lemma unban_fold_ok:
  "manager_ok env pm \<Longrightarrow>
    manager_ok env (fold (unban env) ks pm) \<and> pm_index (fold (unban env) ks pm) = pm_index pm"
  by (induction ks arbitrary: pm) (simp_all add: unban_ok)

lemma remove_fold_ok:
  assumes laws: "overlay_laws (me_lib env)"
  shows "manager_ok env pm \<Longrightarrow> generation pm + length ks < u64_max \<Longrightarrow>
    manager_ok env (fold (manager_remove_peer env) ks pm)"
proof (induction ks arbitrary: pm)
  case (Cons k ks)
  have g: "generation pm < u64_max" using Cons.prems(2) by simp
  have "generation (manager_remove_peer env k pm) + length ks < u64_max"
    using index_generation_grows(2) [OF laws manager_okD(2) [OF Cons.prems(1)] g, of k] Cons.prems(2)
    by simp
  then show ?case using Cons.IH [OF manager_remove_peer_ok [OF laws Cons.prems(1) g]] by simp
qed simp

lemma purge_stale_ok:
  assumes "overlay_laws (me_lib env)" and "manager_ok env pm" and "generation pm + length ks < u64_max"
  shows "manager_ok env (purge_stale env now ks pm)"
  unfolding purge_stale_def
  by (rule remove_fold_ok [OF assms(1,2)])
     (use assms(3) length_filter_le [of "stale_in now pm" ks] in linarith)

lemma snapshot_ok [simp]: "manager_ok env (snapshot b ks pm) = manager_ok env pm"
  by (simp add: snapshot_def split: option.splits)

lemma tick_ok:
  assumes laws: "overlay_laws (me_lib env)" and ok: "manager_ok env pm"
    and g: "generation pm + length ks < u64_max"
  shows "manager_ok env (tick env now clock ks bs b pm)"
proof -
  let ?pm1 = "expire_bans env now bs (decay_scores env now ks pm)"
  have "manager_ok env ?pm1 \<and> pm_index ?pm1 = pm_index pm"
    unfolding expire_bans_def using decay_scores_ok [OF ok] unban_fold_ok by metis
  then have "manager_ok env (purge_stale env clock ks ?pm1)"
    using g by (intro purge_stale_ok [OF laws]) simp_all
  then show ?thesis by (simp add: tick_def Let_def)
qed

lemma load_one_ok:
  assumes laws: "overlay_laws (me_lib env)" and ok: "manager_ok env pm" and g: "generation pm < u64_max"
  shows "manager_ok env (load_one env now sn pm) \<and> generation (load_one env now sn pm) \<le> generation pm + 1"
proof -
  let ?k = "sp_overlay (psn_peer sn)"
  note d = manager_okD [OF ok]
  obtain ix r where a: "index_add (me_lib env) (pm_index pm) ?k = (ix, r)"
    by (cases "index_add (me_lib env) (pm_index pm) ?k")
  have gen: "pi_generation ix \<le> generation pm + 1"
    using index_generation_grows(1) [OF laws d(2) g, of ?k] a by simp
  show ?thesis
  proof (cases r)
    case (Inl e)
    then have "ix = pm_index pm" using index_refused(1) [OF laws d(2) g] a by simp
    then show ?thesis using ok a Inl by (simp add: load_one_def)
  next
    case (Inr u)
    then have a': "index_add (me_lib env) (pm_index pm) ?k = (ix, Inr ())" using a by simp
    have "pm_peers pm ?k = None" using index_add_peers(2) [OF laws d(2) g a'] d(4) by auto
    then show ?thesis
      using add_entry_ok [OF laws ok g _ a', of "entry_from_snapshot (me_fo env) now sn (pm_scoring_config pm)"]
        a' gen by (simp add: load_one_def Let_def)
  qed
qed

lemma load_fold_ok:
  assumes laws: "overlay_laws (me_lib env)"
  shows "manager_ok env pm \<Longrightarrow> generation pm + length sns < u64_max \<Longrightarrow>
    manager_ok env (fold (load_one env now) sns pm)"
proof (induction sns arbitrary: pm)
  case (Cons sn sns)
  have "manager_ok env (load_one env now sn pm) \<and> generation (load_one env now sn pm) \<le> generation pm + 1"
    using Cons.prems by (intro load_one_ok [OF laws]) simp_all
  then show ?case using Cons.IH [of "load_one env now sn pm"] Cons.prems(2) by simp
qed simp

lemma dist_ok_new: "dist_ok fo Map.empty distribution_new"
  by (simp add: dist_ok_def distribution_new_def bucket_count_def)

lemma manager_new_ok:
  assumes laws: "overlay_laws (me_lib env)" and po: "max_po \<le> bin_max"
    and st: "\<And>t. pmc_store c = Some t \<Longrightarrow> length t < u64_max"
  shows "manager_ok env (manager_new env now b lo max_po c)"
proof -
  have ix: "index_ok (me_lib env) (index_new (me_lib env) lo max_po (pmc_max_per_bin c))"
    by (rule index_new_ok [OF laws po])
  have "members (me_lib env) (index_new (me_lib env) lo max_po (pmc_max_per_bin c)) = {}"
    by (simp add: members_def all_peers_def index_new_def overlay_simps [OF laws] Let_def)
  then have base: "manager_ok env
      \<lparr>pm_index = index_new (me_lib env) lo max_po (pmc_max_per_bin c),
       pm_peers = Map.empty, pm_store = pmc_store c, pm_banned_set = Map.empty,
       pm_scoring_config = pmc_scoring c, pm_snapshot_interval = pmc_snapshot_interval c,
       pm_ban_duration = pmc_ban_duration c, pm_last_snapshot = now,
       pm_score_distribution = distribution_new, pm_events = []\<rparr>" (is "manager_ok env ?pm")
    using ix dist_ok_new by (simp add: manager_ok_def) (simp add: cache_ok_def index_new_def Let_def)
  have "generation ?pm = 0" by (simp add: index_new_def Let_def)
  then show ?thesis
    using base st load_fold_ok [OF laws base]
    by (auto simp: manager_new_def load_from_store_def snapshot_load_def tbl_entries_def
        split: option.splits)
qed

section \<open>Reachable managers\<close>

text \<open>Every operation is a step. A step that changes the membership supposes that the
  generation of the index has not used up its width; the keys handed to the periodic tick
  list the peer set.\<close>

inductive pm_reachable :: "('f :: linorder, 's) manager_env \<Rightarrow> ('f, 'm, 's) peer_manager \<Rightarrow> bool"
  for env :: "('f, 's) manager_env" where
  start: "max_po \<le> bin_max \<Longrightarrow> (\<And>t. pmc_store c = Some t \<Longrightarrow> length t < u64_max) \<Longrightarrow>
    pm_reachable env (manager_new env now b lo max_po c)"
| discovered: "pm_reachable env pm \<Longrightarrow> generation pm + 1 < u64_max \<Longrightarrow>
    pm_reachable env (store_discovered_peer env now peer pm)"
| connected: "pm_reachable env pm \<Longrightarrow> generation pm + 1 < u64_max \<Longrightarrow> 0 < now \<Longrightarrow>
    pm_reachable env (on_peer_connected env now peer t dir tr pm)"
| disconnected: "pm_reachable env pm \<Longrightarrow> pm_reachable env (on_peer_disconnected k r pm)"
| mismatch: "pm_reachable env pm \<Longrightarrow> generation pm < u64_max \<Longrightarrow>
    pm_reachable env (on_dialed_overlay_mismatch env now k pm)"
| report: "pm_reachable env pm \<Longrightarrow> pm_reachable env (report_peer env now k ev pm)"
| dial_failure: "pm_reachable env pm \<Longrightarrow> pm_reachable env (record_dial_failure now k pm)"
| early_disconnect: "pm_reachable env pm \<Longrightarrow> pm_reachable env (record_early_disconnect env now k dur pm)"
| latency: "pm_reachable env pm \<Longrightarrow> pm_reachable env (record_latency k n pm)"
| banned: "pm_reachable env pm \<Longrightarrow> pm_reachable env (ban now k cause reason pm)"
| banned_for_good: "pm_reachable env pm \<Longrightarrow> pm_reachable env (ban_permanent now k cause reason pm)"
| ticked: "pm_reachable env pm \<Longrightarrow> distinct ks \<Longrightarrow> set ks = dom (pm_peers pm) \<Longrightarrow>
    distinct bs \<Longrightarrow> set bs = dom (pm_banned_set pm) \<Longrightarrow> generation pm + length ks < u64_max \<Longrightarrow>
    pm_reachable env (tick env now clock ks bs b pm)"
| saved: "pm_reachable env pm \<Longrightarrow> distinct ks \<Longrightarrow> set ks = dom (pm_peers pm) \<Longrightarrow>
    pm_reachable env (snapshot b ks pm)"

lemma pm_reachable_ok:
  assumes laws: "overlay_laws (me_lib env)"
  shows "pm_reachable env pm \<Longrightarrow> manager_ok env pm"
proof (induction rule: pm_reachable.induct)
  case (start max_po c now b lo)
  then show ?case by (intro manager_new_ok [OF laws])
next
  case (discovered pm now peer)
  then show ?case by (intro store_discovered_ok [OF laws])
next
  case (connected pm now peer t dir tr)
  then show ?case by (intro on_peer_connected_ok [OF laws])
next
  case (disconnected pm k r)
  then show ?case by (intro disconnected_ok)
next
  case (mismatch pm now k)
  then show ?case by (intro mismatch_ok [OF laws])
next
  case (report pm now k ev)
  then show ?case by (intro report_peer_ok)
next
  case (dial_failure pm now k)
  then show ?case by (intro dial_failure_ok)
next
  case (early_disconnect pm now k dur)
  then show ?case by (intro early_disconnect_ok)
next
  case (latency pm k n)
  then show ?case by (intro latency_ok)
next
  case (banned pm now k cause reason)
  then show ?case unfolding ban_def by (intro ban_with_expiry_ok)
next
  case (banned_for_good pm now k cause reason)
  then show ?case unfolding ban_permanent_def by (intro ban_with_expiry_ok)
next
  case (ticked pm ks bs now clock b)
  then show ?case by (intro tick_ok [OF laws])
next
  case (saved pm ks b)
  then show ?case by simp
qed

text \<open>C22. In every reachable manager the index lists exactly the known peers, each record is
  filed under its own overlay, no bin exceeds the admission cap, the score distribution
  counts the peers of each bucket, a peer marked as banned is in the banned set, and the
  last announcement about a banned peer is its ban with its expiry.\<close>

theorem manager_consistent:
  assumes "overlay_laws (me_lib env)" and "pm_reachable env pm"
  shows "members (me_lib env) (pm_index pm) = dom (pm_peers pm)
    \<and> (\<forall>k e. pm_peers pm k = Some e \<longrightarrow> sp_overlay (pe_peer e) = k)
    \<and> (\<forall>b. 0 < pi_max_per_bin (pm_index pm) \<longrightarrow> b \<le> pi_max_po (pm_index pm) \<longrightarrow>
        card {k \<in> dom (pm_peers pm). bin_for (me_lib env) (pm_index pm) k = b}
          \<le> pi_max_per_bin (pm_index pm))
    \<and> (\<forall>i<13. pm_score_distribution pm ! i
        = int (card {k. \<exists>e. pm_peers pm k = Some e \<and> bucket_index (me_fo env) (entry_score e) = i}))
    \<and> (\<forall>k e. pm_peers pm k = Some e \<longrightarrow> entry_is_banned e \<longrightarrow> is_banned pm k)
    \<and> (\<forall>k u. pm_banned_set pm k = Some u \<longrightarrow> announced k (pm_events pm) = Some u)"
proof -
  note d = manager_okD [OF pm_reachable_ok [OF assms]]
  have cap: "card {k \<in> dom (pm_peers pm). bin_for (me_lib env) (pm_index pm) k = b}
      \<le> pi_max_per_bin (pm_index pm)"
    if "0 < pi_max_per_bin (pm_index pm)" "b \<le> pi_max_po (pm_index pm)" for b
  proof -
    have "{k \<in> dom (pm_peers pm). bin_for (me_lib env) (pm_index pm) k = b}
        \<subseteq> set (peers_in_bin (me_lib env) (pm_index pm) b)"
      using members_iff [OF d(2)] d(4) by auto
    then have "card {k \<in> dom (pm_peers pm). bin_for (me_lib env) (pm_index pm) k = b}
        \<le> length (peers_in_bin (me_lib env) (pm_index pm) b)"
      using card_mono [OF finite_set] card_length le_trans by blast
    then show ?thesis using index_ok_bin(4) [OF d(2) that(2,1)] by simp
  qed
  have dist: "pm_score_distribution pm ! i
      = int (card {k. \<exists>e. pm_peers pm k = Some e \<and> bucket_index (me_fo env) (entry_score e) = i})"
    if "i < 13" for i
    using d(8) that by (simp add: dist_ok_def bucket_count_def)
  show ?thesis using d(4,5,7,9) cap dist by (auto simp: is_banned_def)
qed

text \<open>C38. In every reachable manager the packed bytes of a record decode: the node type and
  the trust level are ones that were stored, and a direction is recorded exactly while
  the peer is connected.\<close>

theorem entries_well_typed:
  assumes "overlay_laws (me_lib env)" and "pm_reachable env pm" and "pm_peers pm k = Some e"
  shows "(pe_node_type e = node_type_repr (cell_get (pe_node_type e))
        \<or> pe_node_type e = cell_confirm (cell_get (pe_node_type e)))
    \<and> (entry_is_connected e \<longleftrightarrow> direction_from_repr (pe_direction e) \<noteq> None)
    \<and> pe_trust e = trust_repr (peer_trust_level pm k)"
proof -
  have "entry_wf e" using manager_okD(6) [OF pm_reachable_ok [OF assms(1,2)] assms(3)] .
  then show ?thesis
    using assms(3)
    by (auto simp: entry_wf_def entry_is_connected_def peer_trust_level_def
        cell_provisional_def [symmetric])
qed

section \<open>Discovery\<close>

lemma admitted_entry_provisional [simp]:
  "set_provisional_node_type Client (admitted_entry env now peer Client pm) = admitted_entry env now peer Client pm"
  by (simp add: admitted_entry_def set_provisional_node_type_def entry_with_config_def)

lemma store_discovered_new:
  assumes laws: "overlay_laws (me_lib env)" and ok: "manager_ok env pm"
    and g: "generation pm + 1 < u64_max" and k: "pm_peers pm (sp_overlay peer) = None"
    and r: "insert_peer env now (sp_overlay peer) peer Client pm = (pm1, i)"
  shows "store_discovered_peer env now peer pm = pm1"
proof -
  note spec = insert_peer_spec(4,5) [OF laws ok g refl r k]
  have "pm_peers pm1 (sp_overlay peer) = Some (admitted_entry env now peer Client pm)" if i
    using spec that by (cases "bin_full env (sp_overlay peer) pm") auto
  then have "update_entry (sp_overlay peer) (set_provisional_node_type Client) pm1 = pm1" if i
    using that by (simp add: update_entry_def fun_upd_idem)
  then show ?thesis using k r by (simp add: store_discovered_peer_def Let_def)
qed

text \<open>C23. Learning of a new peer adds it when its bin has room. In a full bin it replaces
  exactly one record, one that is not connected and that no other disconnected record of
  the bin is worse than, stale records first and then by score; when all are connected
  the peer set stays as it is.\<close>

theorem admission_replaces_worst:
  assumes laws: "overlay_laws (me_lib env)" and r: "pm_reachable env pm"
    and g: "generation pm + 1 < u64_max" and k: "pm_peers pm (sp_overlay peer) = None"
  shows "(\<not> bin_full env (sp_overlay peer) pm \<longrightarrow>
        pm_peers (store_discovered_peer env now peer pm)
          = (pm_peers pm)(sp_overlay peer \<mapsto> admitted_entry env now peer Client pm))
    \<and> (bin_full env (sp_overlay peer) pm \<longrightarrow>
        (\<forall>w\<in>bin_peers env (sp_overlay peer) pm. peer_is_connected pm w) \<longrightarrow>
        store_discovered_peer env now peer pm = pm)
    \<and> (bin_full env (sp_overlay peer) pm \<longrightarrow>
        (\<exists>w\<in>bin_peers env (sp_overlay peer) pm. \<not> peer_is_connected pm w) \<longrightarrow>
        (\<exists>v\<in>bin_peers env (sp_overlay peer) pm. \<not> peer_is_connected pm v
          \<and> (\<forall>w\<in>bin_peers env (sp_overlay peer) pm. \<not> peer_is_connected pm w \<longrightarrow>
               no_better now (pm_peers pm) v w)
          \<and> pm_peers (store_discovered_peer env now peer pm)
             = (pm_peers pm)(v := None, sp_overlay peer \<mapsto> admitted_entry env now peer Client pm)))"
proof -
  note ok = pm_reachable_ok [OF laws r]
  let ?k = "sp_overlay peer" and ?pm' = "store_discovered_peer env now peer pm"
  obtain pm1 i where ins: "insert_peer env now ?k peer Client pm = (pm1, i)"
    by (cases "insert_peer env now ?k peer Client pm")
  note spec = insert_peer_spec [OF laws ok g refl ins] and new = store_discovered_new [OF laws ok g k ins]
  have known: "replaceable (pm_peers pm) w \<longleftrightarrow> \<not> peer_is_connected pm w"
    if "w \<in> bin_peers env ?k pm" for w
  proof -
    have "w \<in> members (me_lib env) (pm_index pm)"
      using that members_iff [OF manager_okD(2) [OF ok], of w]
        index_ok_bin(2) [OF manager_okD(2) [OF ok] bin_for_le [OF manager_okD(2) [OF ok]], of w ?k]
      by (simp add: bin_peers_def)
    then show ?thesis
      using manager_okD(4) [OF ok] by (auto simp: replaceable_def peer_is_connected_def)
  qed
  show ?thesis
  proof (cases "bin_full env ?k pm")
    case False
    have s: "i" "pm_peers pm1 = (pm_peers pm)(?k \<mapsto> admitted_entry env now peer Client pm)"
      using spec(4) [OF k False] by simp_all
    then have "?pm' = pm1" using new by simp
    then show ?thesis using s False by simp
  next
    case True
    from spec(5) [OF k True] show ?thesis
    proof
      assume no: "\<not> i \<and> pm1 = pm \<and> worst_of now (pm_peers pm) (bin_peers env ?k pm) None"
      then have "?pm' = pm" using new by simp
      moreover have "\<forall>w\<in>bin_peers env ?k pm. peer_is_connected pm w"
        using no known by (auto simp: worst_of_def)
      ultimately show ?thesis using True by auto
    next
      assume "\<exists>v. i \<and> worst_of now (pm_peers pm) (bin_peers env ?k pm) (Some v)
        \<and> pm_peers pm1 = (pm_peers pm)(v := None, ?k \<mapsto> admitted_entry env now peer Client pm)
        \<and> pm_banned_set pm1 = (pm_banned_set pm)(v := None)"
      then obtain v where v: i "worst_of now (pm_peers pm) (bin_peers env ?k pm) (Some v)"
        "pm_peers pm1 = (pm_peers pm)(v := None, ?k \<mapsto> admitted_entry env now peer Client pm)" by blast
      have "?pm' = pm1" using new v(1,3) by simp
      then have p: "pm_peers ?pm' = (pm_peers pm)(v := None, ?k \<mapsto> admitted_entry env now peer Client pm)"
        using v(3) by simp
      have w: "v \<in> bin_peers env ?k pm" "\<not> peer_is_connected pm v"
        "\<forall>w\<in>bin_peers env ?k pm. \<not> peer_is_connected pm w \<longrightarrow> no_better now (pm_peers pm) v w"
        using v(2) known by (auto simp: worst_of_def)
      show ?thesis using True w p by blast
    qed
  qed
qed

text \<open>The ban of a replaced peer is lifted with it, whatever its expiry, and no event says
  so: when the disconnected peers of a full bin are all banned for good, learning of one
  more peer lifts the ban of one of them.\<close>

lemma replacement_lifts_ban:
  assumes laws: "overlay_laws (me_lib env)" and ok: "manager_ok env pm"
    and g: "generation pm + 1 < u64_max" and k: "pm_peers pm (sp_overlay peer) = None"
    and full: "bin_full env (sp_overlay peer) pm"
    and w: "w \<in> bin_peers env (sp_overlay peer) pm" "replaceable (pm_peers pm) w"
    and banned: "\<And>v. v \<in> bin_peers env (sp_overlay peer) pm \<Longrightarrow> replaceable (pm_peers pm) v
      \<Longrightarrow> pm_banned_set pm v = Some None"
  shows "\<exists>v. pm_banned_set pm v = Some None
    \<and> \<not> is_banned (store_discovered_peer env now peer pm) v
    \<and> pm_events (store_discovered_peer env now peer pm) = pm_events pm"
proof -
  obtain pm1 i where ins: "insert_peer env now (sp_overlay peer) peer Client pm = (pm1, i)"
    by (cases "insert_peer env now (sp_overlay peer) peer Client pm")
  note spec = insert_peer_spec [OF laws ok g refl ins] and new = store_discovered_new [OF laws ok g k ins]
  have "\<not> worst_of now (pm_peers pm) (bin_peers env (sp_overlay peer) pm) None"
    using w by (auto simp: worst_of_def)
  with spec(5) [OF k full] obtain v where
    "worst_of now (pm_peers pm) (bin_peers env (sp_overlay peer) pm) (Some v)"
    "pm_banned_set pm1 = (pm_banned_set pm)(v := None)" by blast
  then show ?thesis using banned new spec(2) by (auto simp: worst_of_def is_banned_def)
qed

section \<open>Gossip about a known peer\<close>

lemma gossip_accepted:
  assumes "\<not> reject_stale_gossip now ts (Some old)" and "is_i64 ts"
  shows "0 < ts" and "ts \<le> int now + 60" and "0 < old \<Longrightarrow> old + 300 < ts"
  using assms by (auto simp: reject_stale_gossip_def check_timestamp_def i64_clamp_def is_i64_def
      split: if_splits)

lemma update_addresses_fields [simp]:
  "pe_peer (update_addresses now peer e) = peer"
  "pe_node_type (update_addresses now peer e) = pe_node_type e"
  "pe_scoring (update_addresses now peer e) = pe_scoring e"
  "pe_ban_info (update_addresses now peer e) = pe_ban_info e"
  "pe_backoff (update_addresses now peer e) = pe_backoff e"
  "pe_verified (update_addresses now peer e) = pe_verified e"
  "pe_trust (update_addresses now peer e) = pe_trust e"
  "pe_connected_since (update_addresses now peer e) = pe_connected_since e"
  by (simp_all add: update_addresses_def touch_def Let_def)

lemma store_discovered_other:
  assumes laws: "overlay_laws (me_lib env)" and ok: "manager_ok env pm"
    and g: "generation pm + 1 < u64_max" and new: "pm_peers pm (sp_overlay peer) = None"
    and e: "pm_peers pm j = Some e" and e': "pm_peers (store_discovered_peer env now peer pm) j = Some e'"
  shows "e' = e"
proof -
  obtain pm1 i where ins: "insert_peer env now (sp_overlay peer) peer Client pm = (pm1, i)"
    by (cases "insert_peer env now (sp_overlay peer) peer Client pm")
  have "j \<noteq> sp_overlay peer" using new e by auto
  moreover have "pm_peers pm1 j = Some e'" using store_discovered_new [OF laws ok g new ins] e' by simp
  ultimately show ?thesis
    using insert_peer_spec(4,5) [OF laws ok g refl ins new] e
    by (cases "bin_full env (sp_overlay peer) pm") (auto split: if_splits)
qed

lemma update_addresses_eq:
  "update_addresses now peer e
    = e\<lparr>pe_peer := peer, pe_last_seen := if entry_failures e = 0 then now else pe_last_seen e\<rparr>"
  by (simp add: update_addresses_def touch_def entry_failures_def Let_def)

text \<open>C24. Gossip leaves the record of a known peer that stays known as it is, or it replaces the
  signed part of it and, if the record counts no dial failures, the time it was last seen;
  everything else of the record, the node type, the verification, the trust, the ban,
  the backoff, the score and the connection, stays. It replaces the signed part only by one of
  the same overlay that is dated, at most a minute ahead of the clock and, if the one held is
  dated, more than five minutes after it.\<close>

theorem gossip_never_regresses:
  assumes laws: "overlay_laws (me_lib env)" and r: "pm_reachable env pm"
    and g: "generation pm + 1 < u64_max" and ts: "is_i64 (sp_timestamp peer)"
    and e: "pm_peers pm j = Some e" and e': "pm_peers (store_discovered_peer env now peer pm) j = Some e'"
  shows "e' = e
    \<or> (e' = e\<lparr>pe_peer := peer, pe_last_seen := if entry_failures e = 0 then now else pe_last_seen e\<rparr>
        \<and> j = sp_overlay peer \<and> 0 < sp_timestamp peer \<and> sp_timestamp peer \<le> int now + 60
        \<and> (0 < sp_timestamp (pe_peer e) \<longrightarrow> sp_timestamp (pe_peer e) + 300 < sp_timestamp peer))"
proof (cases "pm_peers pm (sp_overlay peer)")
  case None
  then show ?thesis using store_discovered_other [OF laws pm_reachable_ok [OF laws r] g None e e'] by simp
next
  case (Some e0)
  show ?thesis
  proof (cases "reject_stale_gossip now (sp_timestamp peer) (Some (sp_timestamp (pe_peer e0)))")
    case True
    then have "e' = e" using Some e e' by (simp add: store_discovered_peer_def)
    then show ?thesis by simp
  next
    case False
    then have "pm_peers (update_entry (sp_overlay peer) (update_addresses now peer) pm) j = Some e'"
      using Some e' by (simp add: store_discovered_peer_def)
    then have "e' = (if j = sp_overlay peer then update_addresses now peer e else e)"
      using e by (auto simp: update_entry_def split: option.splits if_splits)
    moreover have "j = sp_overlay peer \<Longrightarrow> e0 = e" using Some e by simp
    ultimately show ?thesis using gossip_accepted [OF False ts] by (auto simp: update_addresses_eq)
  qed
qed

section \<open>Bans and purges\<close>

lemma unban_fold_banned:
  "pm_banned_set (fold (unban env) ks pm) k = (if k \<in> set ks then None else pm_banned_set pm k)"
proof (induction ks arbitrary: pm)
  case (Cons j ks)
  have "pm_banned_set (unban env j pm) = (pm_banned_set pm)(j := None)"
    by (auto simp: unban_def score_changed_def emit_def Let_def fun_eq_iff
        split: option.splits prod.splits)
  then show ?case using Cons.IH by auto
qed simp

text \<open>The sweep lifts the timed bans whose expiry has passed, and no other ban.\<close>

lemma expire_bans_exact:
  assumes "set bs = dom (pm_banned_set pm)"
  shows "pm_banned_set (expire_bans env now bs pm) k
    = (case pm_banned_set pm k of Some (Some until) \<Rightarrow> if until \<le> now then None else Some (Some until)
       | other \<Rightarrow> other)"
  using assms
  by (auto simp: expire_bans_def unban_fold_banned expired_def split: option.splits)

text \<open>A peer that is connected and was seen last when it connected, more than a day ago, is
  dropped by the purge after one failed dial.\<close>

lemma purge_drops_connected:
  assumes e: "pm_peers pm k = Some e" "entry_is_connected e" "entry_failures e = 1"
    and t: "24 * 3600 < now - pe_last_seen e"
  shows "peer_is_connected pm k \<and> pm_peers (purge_stale env now [k] pm) k = None"
  using assms by (simp add: peer_is_connected_def purge_stale_def stale_in_def is_stale_def)

text \<open>A ban of an overlay that is not known yet leaves no mark on the record stored later, and
  the list of eligible peers only looks at that mark.\<close>

lemma eligible_lists_banned:
  assumes "pm_banned_set pm k = Some None" and "pm_peers pm k = Some (admitted_entry env now peer t pm)"
  shows "is_banned pm k \<and> eligible_peers now [k] pm = [k]"
  using assms
  by (simp add: is_banned_def eligible_peers_def is_dialable_def admitted_entry_def entry_with_config_def
      entry_is_banned_def is_in_backoff_def backoff_remaining_def remaining_jittered_def
      remaining_jittered_with_def remaining_inner_def backoff_new_def)

text \<open>Scores stop at -100, so the lenient configuration, whose ban threshold is -200, never
  bans.\<close>

lemma lenient_never_bans:
  assumes "fo_lit fo (- 2000) < fo_lit fo (- 1000)" and "sps_config s = scoring_config_lenient fo"
  shows "sch_outcome (snd (record_event_change fo ev s)) \<noteq> Ban"
proof -
  have "\<not> should_ban (sps_config s) (clamp_score fo x)" for x
    using assms by (auto simp: should_ban_def scoring_config_lenient_def clamp_score_def le_max_iff_disj
        dest: leD)
  then show ?thesis
    by (simp add: record_event_change_def add_score_def check_thresholds_def Let_def
        split: option.splits)
qed

section \<open>Dial backoff\<close>

lemma jitter_frac_lt: "jitter_frac seed failures < 65536"
  using mod_less_divisor [of u64_modulus "seed * 0x517cc1b727220a95 mod u64_modulus + failures"]
  unfolding jitter_frac_def by (intro div_less_iff_less_mult [THEN iffD2]) simp_all

lemma jittered_bounds:
  "3 * base div 4 \<le> jittered base (jitter_frac seed failures)"
  "jittered base (jitter_frac seed failures) \<le> 5 * base div 4"
proof -
  have fr: "jitter_frac seed failures \<le> 65536" using jitter_frac_lt [of seed failures] by simp
  have lo: "3 * base div 4 = base * 98304 div 131072"
    using div_mult_mult1 [of 32768 "3 * base" 4] by (simp add: mult.commute)
  show "3 * base div 4 \<le> jittered base (jitter_frac seed failures)"
    unfolding jittered_def lo by (intro div_le_mono mult_le_mono2) simp
  have "base * (98304 + jitter_frac seed failures) \<le> base * 163840"
    using fr by (intro mult_le_mono2) simp
  moreover have hi: "5 * base div 4 = base * 163840 div 131072"
    using div_mult_mult1 [of 32768 "5 * base" 4] by (simp add: mult.commute)
  ultimately show "jittered base (jitter_frac seed failures) \<le> 5 * base div 4"
    unfolding jittered_def hi by (intro div_le_mono)
qed

lemma base_backoff_bounds:
  "30 \<le> base_backoff failures 30 3600 \<and> base_backoff failures 30 3600 \<le> 3600"
proof -
  have "(1 :: nat) \<le> 2 ^ min (failures - 1) 10" by simp
  then show ?thesis unfolding base_backoff_def u64_saturating_mul_def by (simp add: min_le_iff_disj)
qed

text \<open>C39. After a failed dial a peer is in backoff for the next 22 seconds, whatever its seed,
  and out of it 75 minutes after the failure at the latest, when it is dialable again
  unless it is banned.\<close>

theorem dial_backoff_window:
  assumes f: "0 < entry_failures e" and t: "pb_last_attempt (pe_backoff e) + 4500 \<le> u64_max"
  shows "(now < pb_last_attempt (pe_backoff e) + 22 \<longrightarrow> \<not> is_dialable now e)
    \<and> (pb_last_attempt (pe_backoff e) + 4500 \<le> now \<longrightarrow> is_dialable now e \<longleftrightarrow> \<not> entry_is_banned e)"
proof -
  let ?n = "pb_consecutive_failures (pe_backoff e)" and ?last = "pb_last_attempt (pe_backoff e)"
  let ?b = "base_backoff ?n 30 3600"
  let ?j = "jittered ?b (jitter_frac (pe_jitter_seed e) ?n)"
  have j: "22 \<le> ?j" "?j \<le> 4500"
    using jittered_bounds [of ?b "pe_jitter_seed e" ?n] base_backoff_bounds [of ?n] by linarith+
  have "is_in_backoff now e \<longleftrightarrow> now < ?last + ?j"
    using f t j
    by (simp add: is_in_backoff_def backoff_remaining_def remaining_jittered_def
        remaining_jittered_with_def remaining_inner_def entry_failures_def u64_saturating_add_def Let_def)
  then show ?thesis using j by (auto simp: is_dialable_def)
qed

section \<open>Restarts\<close>

lemma bin_size_card:
  assumes laws: "overlay_laws (me_lib env)" and ok: "manager_ok env pm"
  shows "bin_size (pm_index pm) (bin_for (me_lib env) (pm_index pm) a)
    = card {k \<in> dom (pm_peers pm). bin_for (me_lib env) (pm_index pm) k = bin_for (me_lib env) (pm_index pm) a}"
proof -
  note d = manager_okD [OF ok]
  let ?b = "bin_for (me_lib env) (pm_index pm) a"
  have "{k \<in> dom (pm_peers pm). bin_for (me_lib env) (pm_index pm) k = ?b}
      = set (peers_in_bin (me_lib env) (pm_index pm) ?b)"
    using members_iff [OF d(2)] d(4) index_ok_bin(2) [OF d(2) bin_for_le [OF d(2), of a]] by auto
  then show ?thesis
    using index_ok_here(2,4) [OF d(2) laws, of a]
      distinct_card [OF index_ok_bin(1) [OF d(2) bin_for_le [OF d(2), of a]]] by simp
qed

abbreviation snapshot_key :: "'m peer_snapshot \<Rightarrow> overlay_address" where
  "snapshot_key sn \<equiv> sp_overlay (psn_peer sn)"

definition bins_fit ::
  "('f, 's) manager_env \<Rightarrow> ('f, 'm, 's) peer_manager \<Rightarrow> overlay_address set \<Rightarrow> bool" where
  "bins_fit env pm K \<longleftrightarrow>
    (0 < pi_max_per_bin (pm_index pm) \<longrightarrow>
      (\<forall>b. card {k \<in> dom (pm_peers pm) \<union> K. bin_for (me_lib env) (pm_index pm) k = b}
        \<le> pi_max_per_bin (pm_index pm)))"

lemma load_one_new:
  assumes laws: "overlay_laws (me_lib env)" and ok: "manager_ok env pm" and g: "generation pm < u64_max"
    and new: "pm_peers pm (snapshot_key sn) = None" and fit: "bins_fit env pm K" "snapshot_key sn \<in> K" "finite K"
  shows "pm_peers (load_one env now sn pm)
      = (pm_peers pm)(snapshot_key sn \<mapsto> entry_from_snapshot (me_fo env) now sn (pm_scoring_config pm))"
    and "pm_scoring_config (load_one env now sn pm) = pm_scoring_config pm"
    and "pi_max_per_bin (pm_index (load_one env now sn pm)) = pi_max_per_bin (pm_index pm)"
    and "bin_for (me_lib env) (pm_index (load_one env now sn pm)) = bin_for (me_lib env) (pm_index pm)"
proof -
  note d = manager_okD [OF ok]
  let ?k = "snapshot_key sn" and ?bin = "bin_for (me_lib env) (pm_index pm)"
  have "\<not> bin_full env ?k pm"
  proof
    assume full: "bin_full env ?k pm"
    have "{k \<in> dom (pm_peers pm). ?bin k = ?bin ?k} \<subset> {k \<in> dom (pm_peers pm) \<union> K. ?bin k = ?bin ?k}"
      using new fit(2) by auto
    then have "card {k \<in> dom (pm_peers pm). ?bin k = ?bin ?k}
        < card {k \<in> dom (pm_peers pm) \<union> K. ?bin k = ?bin ?k}"
      using d(1) fit(3) by (intro psubset_card_mono) auto
    moreover have "pi_max_per_bin (pm_index pm) \<le> card {k \<in> dom (pm_peers pm). ?bin k = ?bin ?k}"
      using full bin_size_card [OF laws ok, of ?k] by (simp add: bin_full_def)
    moreover have "card {k \<in> dom (pm_peers pm) \<union> K. ?bin k = ?bin ?k} \<le> pi_max_per_bin (pm_index pm)"
      using fit(1) full by (simp add: bins_fit_def bin_full_def)
    ultimately show False by simp
  qed
  then obtain ix where a: "index_add (me_lib env) (pm_index pm) ?k = (ix, Inr ())"
    by (rule index_add_room [OF laws ok g new])
  note p = index_add_peers [OF laws d(2) g a]
  show "pm_peers (load_one env now sn pm)
      = (pm_peers pm)(?k \<mapsto> entry_from_snapshot (me_fo env) now sn (pm_scoring_config pm))"
    "pm_scoring_config (load_one env now sn pm) = pm_scoring_config pm"
    "pi_max_per_bin (pm_index (load_one env now sn pm)) = pi_max_per_bin (pm_index pm)"
    "bin_for (me_lib env) (pm_index (load_one env now sn pm)) = bin_for (me_lib env) (pm_index pm)"
    using a p(5,7) by (simp_all add: load_one_def Let_def)
qed

lemma load_fold_peers:
  assumes laws: "overlay_laws (me_lib env)"
  shows "manager_ok env pm \<Longrightarrow> generation pm + length sns < u64_max \<Longrightarrow>
    distinct (map snapshot_key sns) \<Longrightarrow> dom (pm_peers pm) \<inter> snapshot_key ` set sns = {} \<Longrightarrow>
    bins_fit env pm (snapshot_key ` set sns) \<Longrightarrow>
    pm_peers (fold (load_one env now) sns pm) = pm_peers pm ++
      map_of (map (\<lambda>sn. (snapshot_key sn, entry_from_snapshot (me_fo env) now sn (pm_scoring_config pm))) sns)"
proof (induction sns arbitrary: pm)
  case (Cons sn sns)
  let ?pm1 = "load_one env now sn pm"
  have g: "generation pm < u64_max" using Cons.prems(2) by simp
  have new: "pm_peers pm (snapshot_key sn) = None" using Cons.prems(4) by auto
  note step = load_one_new [OF laws Cons.prems(1) g new Cons.prems(5), simplified, of now]
  have one: "manager_ok env ?pm1 \<and> generation ?pm1 \<le> generation pm + 1"
    by (rule load_one_ok [OF laws Cons.prems(1) g])
  have fit: "bins_fit env ?pm1 (snapshot_key ` set sns)"
    using Cons.prems(5) by (simp add: bins_fit_def step insert_commute)
  have dis: "dom (pm_peers ?pm1) \<inter> snapshot_key ` set sns = {}"
    using Cons.prems(3,4) by (auto simp: step)
  have "pm_peers (fold (load_one env now) sns ?pm1) = pm_peers ?pm1 ++
      map_of (map (\<lambda>sn. (snapshot_key sn, entry_from_snapshot (me_fo env) now sn (pm_scoring_config ?pm1))) sns)"
    using one Cons.prems(2,3) fit dis by (intro Cons.IH) simp_all
  moreover have "snapshot_key sn \<notin> dom (map_of (map (\<lambda>sn. (snapshot_key sn,
      entry_from_snapshot (me_fo env) now sn (pm_scoring_config pm))) sns))"
    using Cons.prems(3) by (simp add: dom_map_of_conv_image_fst image_image)
  ultimately show ?case by (simp add: step map_add_upd_left) (auto simp: fun_eq_iff map_add_def)
qed simp

text \<open>What a snapshot holds of a peer.\<close>

definition saved_of :: "('f, 'm, 's) peer_manager \<Rightarrow> overlay_address \<Rightarrow> 'm peer_snapshot option" where
  "saved_of pm k =
    (case pm_peers pm k of
       Some e \<Rightarrow> if pe_verified e then Some (snapshot_of_entry e) else None
     | None \<Rightarrow> None)"

lemma snapshot_records_fold:
  assumes "manager_ok env pm"
  shows "tbl_get (fold (\<lambda>r t. tbl_put (snapshot_key r) r t) (snapshot_records ks pm) t) k
    = (if k \<in> set ks \<and> saved_of pm k \<noteq> None then saved_of pm k else tbl_get t k)"
proof (induction ks arbitrary: t)
  case (Cons j ks)
  have "snapshot_key r = j" if "saved_of pm j = Some r" for r
    using that manager_okD(5) [OF assms]
    by (auto simp: saved_of_def snapshot_of_entry_def split: option.splits if_splits)
  then show ?case
    using Cons.IH
    by (auto simp: snapshot_records_def map_filter_simps saved_of_def [symmetric] split: option.splits)
qed (simp add: snapshot_records_def map_filter_simps)

lemma snapshot_store_wf: "tbl_wf (snapshot_store rs t)"
proof -
  have "tbl_wf t \<Longrightarrow> tbl_wf (fold (\<lambda>r t. tbl_put (snapshot_key r) r t) rs t)" for t :: "(overlay_address, 'a peer_snapshot) tbl"
    by (induction rs arbitrary: t) simp_all
  then show ?thesis by (simp add: snapshot_store_def tbl_clear_def)
qed

lemma snapshot_store_get:
  assumes "manager_ok env pm" and "set ks = dom (pm_peers pm)"
  shows "tbl_get (snapshot_store (snapshot_records ks pm) t) k = saved_of pm k"
proof -
  have "k \<notin> set ks \<Longrightarrow> saved_of pm k = None" using assms(2) by (auto simp: saved_of_def split: option.splits)
  then show ?thesis
    using snapshot_records_fold [OF assms(1), of ks "[]" k] by (auto simp: snapshot_store_def tbl_clear_def)
qed

lemma rows_by_key:
  assumes "\<And>k r. (k, r) \<in> set t \<Longrightarrow> snapshot_key r = k"
  shows "map_of (map (\<lambda>sn. (snapshot_key sn, f sn)) (map snd t)) k = map_option f (tbl_get t k)"
  using assms
proof (induction t)
  case (Cons row t)
  obtain j r where row: "row = (j, r)" by (cases row)
  have "snapshot_key r = j" using Cons.prems [of j r] row by simp
  moreover have "map_of (map (\<lambda>sn. (snapshot_key sn, f sn)) (map snd t)) k = map_option f (tbl_get t k)"
    by (rule Cons.IH) (rule Cons.prems, simp)
  ultimately show ?case by (simp add: row tbl_get_def)
qed (simp add: tbl_get_def)

lemma restart_peers:
  assumes laws: "overlay_laws (me_lib env)" and ok: "manager_ok env pm" and po: "pi_max_po (pm_index pm) \<le> bin_max"
    and ks: "distinct ks" "set ks = dom (pm_peers pm)" "length ks < u64_max"
    and st: "pmc_store c = Some (snapshot_store (snapshot_records ks pm) t)"
    and cap: "pmc_max_per_bin c = pi_max_per_bin (pm_index pm)"
  shows "pm_peers (manager_new env now True (pi_local_overlay (pm_index pm)) (pi_max_po (pm_index pm)) c) k
    = map_option (\<lambda>sn. entry_from_snapshot (me_fo env) now sn (pmc_scoring c)) (saved_of pm k)"
proof -
  let ?t = "snapshot_store (snapshot_records ks pm) t"
  let ?base = "manager_new env now False (pi_local_overlay (pm_index pm)) (pi_max_po (pm_index pm)) (c\<lparr>pmc_store := None\<rparr>)"
  let ?pm0 = "?base\<lparr>pm_store := Some ?t\<rparr>"
  have base: "manager_ok env ?pm0"
    using manager_new_ok [OF laws po, of "c\<lparr>pmc_store := None\<rparr>" now False "pi_local_overlay (pm_index pm)"]
    by simp
  have new: "manager_new env now True (pi_local_overlay (pm_index pm)) (pi_max_po (pm_index pm)) c
      = fold (load_one env now) (map snd ?t) ?pm0"
    by (simp add: manager_new_def load_from_store_def st snapshot_load_def tbl_entries_def)
  have fields: "pm_peers ?pm0 = Map.empty" "generation ?pm0 = 0" "pm_scoring_config ?pm0 = pmc_scoring c"
    "pi_max_per_bin (pm_index ?pm0) = pi_max_per_bin (pm_index pm)"
    "bin_for (me_lib env) (pm_index ?pm0) = bin_for (me_lib env) (pm_index pm)"
    by (simp_all add: manager_new_def load_from_store_def index_new_def Let_def cap bin_for_def fun_eq_iff)
  have rows: "(k, r) \<in> set ?t \<longleftrightarrow> saved_of pm k = Some r" for k r
    using tbl_in_get [OF snapshot_store_wf] snapshot_store_get [OF ok ks(2)] by metis
  have key: "snapshot_key r = k" if "(k, r) \<in> set ?t" for k r
    using that manager_okD(5) [OF ok]
    by (auto simp: rows saved_of_def snapshot_of_entry_def split: option.splits if_splits)
  have keys: "map snapshot_key (map snd ?t) = map fst ?t" using key by auto
  have sub: "fst ` set ?t \<subseteq> dom (pm_peers pm)"
    by (auto simp: rows saved_of_def split: option.splits)
  have dist: "distinct (map fst ?t)" by (rule tbl_wf_distinct [OF snapshot_store_wf])
  have "length ?t = card (fst ` set ?t)" using distinct_card [OF dist] by simp
  also have "\<dots> \<le> card (dom (pm_peers pm))" by (rule card_mono [OF manager_okD(1) [OF ok] sub])
  also have "\<dots> \<le> length ks" using card_length [of ks] ks(2) by simp
  finally have len: "length ?t < u64_max" using ks(3) by simp
  have fit: "bins_fit env ?pm0 (snapshot_key ` set (map snd ?t))"
  proof -
    have img: "snapshot_key ` set (map snd ?t) = fst ` set ?t" using keys by (metis list.set_map)
    have "card {k \<in> fst ` set ?t. bin_for (me_lib env) (pm_index pm) k = b} \<le> pi_max_per_bin (pm_index pm)"
      if cap: "0 < pi_max_per_bin (pm_index pm)" for b
    proof (cases "{k \<in> fst ` set ?t. bin_for (me_lib env) (pm_index pm) k = b} = {}")
      case False
      then obtain a where b: "b = bin_for (me_lib env) (pm_index pm) a" by auto
      note d = manager_okD [OF ok]
      have "card {k \<in> fst ` set ?t. bin_for (me_lib env) (pm_index pm) k = b}
          \<le> card {k \<in> dom (pm_peers pm). bin_for (me_lib env) (pm_index pm) k = b}"
        using sub d(1) by (intro card_mono) auto
      also have "\<dots> \<le> pi_max_per_bin (pm_index pm)"
        using bin_size_card [OF laws ok, of a] index_ok_bin(4) [OF d(2) bin_for_le [OF d(2), of a] cap]
          index_ok_here(2,4) [OF d(2) laws, of a] b by simp
      finally show ?thesis .
    qed (simp only: card.empty le0)
    then show ?thesis by (simp only: bins_fit_def fields img dom_empty Un_empty_left) blast
  qed
  have "pm_peers (fold (load_one env now) (map snd ?t) ?pm0) = pm_peers ?pm0 ++
      map_of (map (\<lambda>sn. (snapshot_key sn, entry_from_snapshot (me_fo env) now sn (pm_scoring_config ?pm0))) (map snd ?t))"
    using dist len fit by (intro load_fold_peers [OF laws base]) (simp_all only: keys fields dom_empty length_map, simp_all)
  then show ?thesis
    unfolding new fields using rows_by_key [of ?t, OF key] snapshot_store_get [OF ok ks(2)] by simp
qed

text \<open>C25. A manager started from the snapshot of another, for the same overlay and with the
  same bins, knows exactly the verified peers of the saved one. Each comes back with its
  signed record, its node type and the time it was last seen, and with no score, ban,
  backoff, connection or verification.\<close>

theorem restart_restores_verified:
  assumes laws: "overlay_laws (me_lib env)" and r: "pm_reachable env pm"
    and ks: "distinct ks" "set ks = dom (pm_peers pm)" "length ks < u64_max"
    and st: "pm_store pm = Some t" "pmc_store c = pm_store (snapshot True ks pm)"
    and cap: "pmc_max_per_bin c = pi_max_per_bin (pm_index pm)"
    and new: "pm' = manager_new env now True (pi_local_overlay (pm_index pm)) (pi_max_po (pm_index pm)) c"
  shows "dom (pm_peers pm') = {k. peer_is_verified pm k}
    \<and> (\<forall>k e. pm_peers pm k = Some e \<longrightarrow> pe_verified e \<longrightarrow>
        (\<exists>e'. pm_peers pm' k = Some e' \<and> pe_peer e' = pe_peer e \<and> pe_last_seen e' = pe_last_seen e
          \<and> cell_get (pe_node_type e') = cell_get (pe_node_type e)
          \<and> entry_score e' = fo_lit (me_fo env) 0 \<and> \<not> entry_is_banned e' \<and> \<not> entry_is_connected e'
          \<and> \<not> pe_verified e' \<and> pe_backoff e' = backoff_new))"
proof -
  note ok = pm_reachable_ok [OF laws r]
  have po: "pi_max_po (pm_index pm) \<le> bin_max" by (rule index_ok_shape(1) [OF manager_okD(2) [OF ok]])
  have "pmc_store c = Some (snapshot_store (snapshot_records ks pm) t)" using st by (simp add: snapshot_def)
  note peers = restart_peers [OF laws ok po ks this cap, of now, folded new]
  have "dom (pm_peers pm') = {k. peer_is_verified pm k}"
    by (auto simp: peers saved_of_def peer_is_verified_def split: option.splits if_splits)
  moreover have "\<exists>e'. pm_peers pm' k = Some e' \<and> pe_peer e' = pe_peer e \<and> pe_last_seen e' = pe_last_seen e
          \<and> cell_get (pe_node_type e') = cell_get (pe_node_type e)
          \<and> entry_score e' = fo_lit (me_fo env) 0 \<and> \<not> entry_is_banned e' \<and> \<not> entry_is_connected e'
          \<and> \<not> pe_verified e' \<and> pe_backoff e' = backoff_new"
    if "pm_peers pm k = Some e" "pe_verified e" for k e
    using that
    by (simp add: peers saved_of_def entry_from_snapshot_def snapshot_of_entry_def entry_score_def
        score_new_def entry_is_banned_def entry_is_connected_def)
  ultimately show ?thesis by blast
qed

section \<open>A concrete manager\<close>

text \<open>Overlay sets as lists, the proximity as the length of the common prefix, scores in
  tenths, and a table of one bin that holds one peer.\<close>

primrec prefix_bits :: "nat \<Rightarrow> 256 word \<Rightarrow> nat" where
  "prefix_bits 0 w = 0"
| "prefix_bits (Suc n) w = (if bit w n then 0 else Suc (prefix_bits n w))"

definition sample_manager_env :: "(int, overlay_address list) manager_env" where
  "sample_manager_env =
    \<lparr>me_fo = \<lparr>fo_add = (+), fo_decay = (\<lambda>h e s. s div 2 ^ (e div h)), fo_lit = (\<lambda>n. n)\<rparr>,
     me_lib = \<lparr>ol_proximity = (\<lambda>a b. prefix_bits 256 (xor a b)), ol_new = [],
       ol_contains = (\<lambda>s a. List.member s a), ol_len = length,
       ol_insert = (\<lambda>s a. if List.member s a then s else s @ [a]),
       ol_remove = (\<lambda>s a. (filter (\<lambda>x. x \<noteq> a) s, List.member s a)), ol_iter = (\<lambda>s. s)\<rparr>,
     me_reason = (\<lambda>_ _. ''score'')\<rparr>"

definition sample_config ::
  "(overlay_address, nat peer_snapshot) tbl option \<Rightarrow> (int, nat) peer_manager_config" where
  "sample_config st = \<lparr>pmc_scoring = scoring_config_default (me_fo sample_manager_env), pmc_max_per_bin = 1,
     pmc_snapshot_interval = 300, pmc_ban_duration = 3600, pmc_store = st\<rparr>"

definition sample_peer :: "overlay_address \<Rightarrow> int \<Rightarrow> nat swarm_peer" where
  "sample_peer k ts = \<lparr>sp_multiaddrs = [7], sp_signature = [], sp_overlay = k, sp_nonce = 0,
     sp_timestamp = ts, sp_chequebook = None, sp_ethereum_address = 0\<rparr>"

definition sample_manager :: "(int, nat, overlay_address list) peer_manager" where
  "sample_manager = manager_new sample_manager_env 100 True 0 0 (sample_config (Some []))"

definition sample_known :: "(int, nat, overlay_address list) peer_manager" where
  "sample_known = store_discovered_peer sample_manager_env 100 (sample_peer 1 50) sample_manager"

definition sample_connected :: "(int, nat, overlay_address list) peer_manager" where
  "sample_connected =
    on_peer_connected sample_manager_env 200 (sample_peer 1 50) Storer Outbound Trusted sample_known"

lemma sample_laws: "overlay_laws (me_lib sample_manager_env)"
  by (simp add: overlay_laws_def sample_manager_env_def)

lemma sample_peer_fields [simp]:
  "sp_overlay (sample_peer k ts) = k" "sp_timestamp (sample_peer k ts) = ts"
  by (simp_all add: sample_peer_def)

lemma sample_manager_fields:
  "pm_peers sample_manager = Map.empty" "pm_store sample_manager = Some []" "pm_banned_set sample_manager = Map.empty"
  "pm_index sample_manager = index_new (me_lib sample_manager_env) 0 0 1"
  by (simp_all add: sample_manager_def manager_new_def load_from_store_def sample_config_def
      snapshot_load_def tbl_entries_def)

lemma sample_empty_reachable: "pm_reachable sample_manager_env sample_manager"
  unfolding sample_manager_def by (rule pm_reachable.start) (simp_all add: sample_config_def)

lemma sample_empty_generation: "generation sample_manager = 0"
  by (simp add: sample_manager_fields index_new_def Let_def)

lemma sample_known_reachable: "pm_reachable sample_manager_env sample_known"
  unfolding sample_known_def
  by (rule pm_reachable.discovered [OF sample_empty_reachable]) (simp add: sample_empty_generation)

lemma sample_known_peers:
  "pm_peers sample_known = [1 \<mapsto> admitted_entry sample_manager_env 100 (sample_peer 1 50) Client sample_manager]"
  "generation sample_known = 1" "bin_full sample_manager_env k sample_known" "bin_peers sample_manager_env k sample_known = {1}"
  by (simp_all add: sample_known_def store_discovered_peer_def insert_peer_def admit_peer_def
      sample_manager_fields sample_manager_env_def index_new_def index_add_def bin_for_def capped_bin_def
      bin_full_def bin_peers_def peers_in_bin_def bin_size_def Let_def update_entry_def
      admitted_entry_def set_provisional_node_type_def entry_with_config_def)

lemma sample_connected_reachable: "pm_reachable sample_manager_env sample_connected"
  unfolding sample_connected_def
  by (rule pm_reachable.connected [OF sample_known_reachable]) (simp_all add: sample_known_peers)

definition sample_entry :: "(int, nat) peer_entry" where
  "sample_entry = the (pm_peers sample_connected 1)"

lemma sample_connected_peers:
  shows "pm_peers sample_connected = [1 \<mapsto> sample_entry]" "pe_verified sample_entry"
    "entry_is_connected sample_entry" "cell_get (pe_node_type sample_entry) = Storer"
    "pe_peer sample_entry = sample_peer 1 50" "trust_from_repr (pe_trust sample_entry) = Trusted"
    "pm_store sample_connected = Some []" "pm_index sample_connected = pm_index sample_known"
proof -
  let ?e = "set_connected 200 Outbound Trusted (fst (mark_verified (confirm_node_type Storer
      (update_addresses 200 (sample_peer 1 50)
        (admitted_entry sample_manager_env 100 (sample_peer 1 50) Client sample_manager)))))"
  have banned: "pm_banned_set sample_known = Map.empty" "pm_store sample_known = Some []"
    by (simp_all add: sample_known_def store_discovered_peer_def insert_peer_def admit_peer_def
      sample_manager_fields sample_manager_env_def index_new_def index_add_def bin_for_def capped_bin_def
      Let_def update_entry_def)
  have sc: "pe_scoring ?e = \<lparr>sps_score = score_new (me_fo sample_manager_env),
      sps_config = scoring_config_default (me_fo sample_manager_env), sps_warned = False\<rparr>"
    by (simp add: admitted_entry_def entry_with_config_def update_addresses_def touch_def
        set_connected_def mark_verified_def confirm_node_type_def sample_manager_def manager_new_def
        load_from_store_def snapshot_load_def tbl_entries_def sample_config_def Let_def)
  obtain s ch where ev: "record_event_change (me_fo sample_manager_env) (ConnectionSuccess None) (pe_scoring ?e) = (s, ch)"
    and ok: "sch_outcome ch = OutcomeOk"
    unfolding sc
    by (simp add: record_event_change_def add_score_def clamp_score_def score_new_def check_thresholds_def
        should_ban_def should_warn_def scoring_config_default_def sample_manager_env_def Let_def)
  have conn: "sample_connected = score_changed sample_manager_env (sch_old_score ch) (sch_new_score ch)
      (emit (PeerConnected 1 Storer) (sample_known\<lparr>pm_peers := [1 \<mapsto> ?e]\<rparr>)\<lparr>pm_peers := [1 \<mapsto> ?e\<lparr>pe_scoring := s\<rparr>]\<rparr>)"
    using ev ok
    by (simp add: sample_connected_def on_peer_connected_def insert_peer_def sample_known_peers
        report_peer_def update_entry_def Let_def entry_record_event_def banned)
  show "pm_peers sample_connected = [1 \<mapsto> sample_entry]" "pe_verified sample_entry"
    "entry_is_connected sample_entry" "cell_get (pe_node_type sample_entry) = Storer"
    "pe_peer sample_entry = sample_peer 1 50" "trust_from_repr (pe_trust sample_entry) = Trusted"
    "pm_store sample_connected = Some []" "pm_index sample_connected = pm_index sample_known"
    by (simp_all add: conn banned sample_entry_def set_connected_def
      mark_verified_def confirm_node_type_def entry_is_connected_def touch_def score_changed_def
      emit_def trust_from_repr_def)
qed

theorem dial_backoff_window_witness:
  "\<not> is_dialable 1010 (entry_dial_failure 1000 (admitted_entry sample_manager_env 100 (sample_peer 1 50) Client sample_manager))
    \<and> is_dialable 5500 (entry_dial_failure 1000 (admitted_entry sample_manager_env 100 (sample_peer 1 50) Client sample_manager))"
proof -
  let ?e = "entry_dial_failure 1000 (admitted_entry sample_manager_env 100 (sample_peer 1 50) Client sample_manager)"
  have "0 < entry_failures ?e" "pb_last_attempt (pe_backoff ?e) = 1000" "\<not> entry_is_banned ?e"
    by (simp_all add: entry_failures_def entry_dial_failure_def admitted_entry_def entry_with_config_def
        backoff_record_failure_def backoff_new_def entry_is_banned_def)
  then show ?thesis using dial_backoff_window [of ?e 1010] dial_backoff_window [of ?e 5500] by simp
qed

theorem manager_consistent_witness:
  "overlay_laws (me_lib sample_manager_env) \<and> pm_reachable sample_manager_env sample_connected
    \<and> members (me_lib sample_manager_env) (pm_index sample_connected) = {1}"
  using manager_consistent [OF sample_laws sample_connected_reachable] sample_laws sample_connected_reachable
  by (simp add: sample_connected_peers(1))

theorem entries_well_typed_witness:
  "\<exists>e. pm_peers sample_connected 1 = Some e \<and> direction_from_repr (pe_direction e) \<noteq> None \<and> pe_trust e = 2"
  using entries_well_typed [OF sample_laws sample_connected_reachable, of 1 sample_entry]
    sample_connected_peers(3,6)
  by (simp add: peer_trust_level_def sample_connected_peers(1))

theorem admission_replaces_worst_witness:
  "dom (pm_peers (store_discovered_peer sample_manager_env 300 (sample_peer 2 60) sample_known)) = {2}
    \<and> store_discovered_peer sample_manager_env 300 (sample_peer 2 60) sample_connected = sample_connected"
proof -
  note e = sample_connected_peers
  have bins: "bin_full sample_manager_env 2 sample_connected" "bin_peers sample_manager_env 2 sample_connected = {1}"
    "generation sample_connected = 1"
    using sample_known_peers(2) sample_known_peers(3,4) [of 2] e(8) by (simp_all add: bin_full_def bin_peers_def)
  have idle: "\<not> peer_is_connected sample_known 1" "peer_is_connected sample_connected 1"
    using e(1,3) by (simp_all add: peer_is_connected_def sample_known_peers admitted_entry_def
        entry_with_config_def entry_is_connected_def)
  have none: "pm_peers sample_known 2 = None" "pm_peers sample_connected 2 = None"
    using e(1) by (simp_all add: sample_known_peers(1))
  note first = admission_replaces_worst
      [OF sample_laws sample_known_reachable, where peer = "sample_peer 2 60" and now = 300]
    and second = admission_replaces_worst
      [OF sample_laws sample_connected_reachable, where peer = "sample_peer 2 60" and now = 300]
  have "dom (pm_peers (store_discovered_peer sample_manager_env 300 (sample_peer 2 60) sample_known)) = {2}"
    using first none(1) idle(1) sample_known_peers(2) sample_known_peers(3,4) [of 2] by (auto simp: sample_known_peers(1))
  moreover have "store_discovered_peer sample_manager_env 300 (sample_peer 2 60) sample_connected = sample_connected"
    using second none(2) idle(2) bins by simp
  ultimately show ?thesis ..
qed

theorem gossip_never_regresses_witness:
  "\<exists>e. pm_peers (store_discovered_peer sample_manager_env 500 (sample_peer 1 400) sample_connected) 1 = Some e
    \<and> cell_get (pe_node_type e) = Storer \<and> pe_peer e = sample_peer 1 400"
proof -
  have new: "pm_peers (store_discovered_peer sample_manager_env 500 (sample_peer 1 400) sample_connected) 1
      = Some (update_addresses 500 (sample_peer 1 400) sample_entry)"
    using sample_connected_peers(1,5)
    by (simp add: store_discovered_peer_def reject_stale_gossip_def check_timestamp_def
        i64_clamp_def update_entry_def)
  have "pe_node_type (update_addresses 500 (sample_peer 1 400) sample_entry) = pe_node_type sample_entry"
    using gossip_never_regresses [OF sample_laws sample_connected_reachable _ _ _ new, of sample_entry]
      sample_connected_peers(1,4,5,8) sample_known_peers(2)
    by (auto simp: is_i64_def)
  then show ?thesis
    using sample_connected_peers(1,4,5,8) sample_known_peers(2) by (simp add: new)
qed

theorem restart_restores_verified_witness:
  "dom (pm_peers (manager_new sample_manager_env 900 True 0 0
      (sample_config (pm_store (snapshot True [1] sample_connected))))) = {1}"
proof -
  have ix: "pi_local_overlay (pm_index sample_connected) = 0" "pi_max_po (pm_index sample_connected) = 0"
    "pi_max_per_bin (pm_index sample_connected) = 1"
    by (simp_all add: sample_connected_peers(8) sample_known_def store_discovered_peer_def insert_peer_def
      admit_peer_def sample_manager_fields sample_manager_env_def index_new_def index_add_def bin_for_def
      capped_bin_def Let_def update_entry_def)
  have "{k. peer_is_verified sample_connected k} = {1}"
    using sample_connected_peers(1,2) by (auto simp: peer_is_verified_def split: if_splits)
  moreover have "pmc_store (sample_config st) = st" "pmc_max_per_bin (sample_config st) = 1" for st
    by (simp_all add: sample_config_def)
  ultimately show ?thesis
    using restart_restores_verified [OF sample_laws sample_connected_reachable, where ks = "[1]" and t = "[]"
        and c = "sample_config (pm_store (snapshot True [1] sample_connected))" and now = 900]
      sample_connected_peers(1,7) ix by simp
qed

end
