(* ===== verification/Peer_Record.thy ===== *)
theory Peer_Record
  imports Peer_Entry Byte_Codec Rate_Limiter
begin

unbundle bit_operations_syntax

text \<open>
  The signed record of a peer: the byte format of address lists
  (\<^verbatim>\<open>peers/peer/src/serde_multiaddr.rs\<close>), signing and checking
  (\<^verbatim>\<open>peers/peer/src/swarm_peer.rs\<close>), the wire form (\<^verbatim>\<open>net/hive/src/codec.rs\<close>,
  \<^verbatim>\<open>net/handshake/src/codec/ack.rs\<close>) and the intake of gossiped records
  (\<^verbatim>\<open>net/hive/src/protocol.rs\<close>, \<^verbatim>\<open>cache.rs\<close>).

  Addresses, signatures and the derivation of an overlay belong to libraries: the record
  \<open>peer_lib\<close> holds the functions the sources call, and \<open>peer_lib_laws\<close> what is used of them.
  The cache of checked records is an array of bounded maps of a library, the record \<open>lru_lib\<close>
  with the laws \<open>lru_laws\<close>: a lookup does not change what is found, and an insertion may
  drop entries but never makes up one.
\<close>

section \<open>Libraries\<close>

record ('m, 'p) peer_lib =
  pl_to_vec :: "'m \<Rightarrow> bytes"
  pl_try_from :: "bytes \<Rightarrow> 'm option"
  pl_last_p2p :: "'m \<Rightarrow> 'p option"
  pl_pop :: "'m \<Rightarrow> 'm"
  pl_with_p2p :: "'m \<Rightarrow> 'p \<Rightarrow> 'm"
  pl_sign_data :: "bytes \<Rightarrow> overlay_address \<Rightarrow> nat \<Rightarrow> b256 \<Rightarrow> int \<Rightarrow> eth_address option \<Rightarrow> bytes"
  pl_recover :: "bytes \<Rightarrow> bytes \<Rightarrow> eth_address option"
  pl_compute_overlay :: "eth_address \<Rightarrow> nat \<Rightarrow> b256 \<Rightarrow> overlay_address"
  pl_skew_check :: "int \<Rightarrow> int \<Rightarrow> nat \<Rightarrow> bool"
  pl_signature_bytes :: "bytes \<Rightarrow> bytes"
  pl_signature_try_from :: "bytes \<Rightarrow> bytes option"

text \<open>An address and a signature survive their byte form, and the component that was added
  last to an address is its last one.\<close>

definition peer_lib_laws :: "('m, 'p) peer_lib \<Rightarrow> bool" where
  "peer_lib_laws lib \<longleftrightarrow>
    (\<forall>a. pl_try_from lib (pl_to_vec lib a) = Some a)
    \<and> (\<forall>s. pl_signature_try_from lib (pl_signature_bytes lib s) = Some s)
    \<and> (\<forall>a p. pl_last_p2p lib (pl_with_p2p lib a p) = Some p)"

record ('m, 's) lru_lib =
  lr_new :: "nat \<Rightarrow> 's"
  lr_get :: "'s \<Rightarrow> overlay_address \<Rightarrow> 'm swarm_peer option \<times> 's"
  lr_insert :: "'s \<Rightarrow> overlay_address \<Rightarrow> 'm swarm_peer \<Rightarrow> 's"

definition lru_laws :: "('m, 's) lru_lib \<Rightarrow> bool" where
  "lru_laws lru \<longleftrightarrow>
    (\<forall>n k. fst (lr_get lru (lr_new lru n) k) = None)
    \<and> (\<forall>s k j. fst (lr_get lru (snd (lr_get lru s k)) j) = fst (lr_get lru s j))
    \<and> (\<forall>s k p j. fst (lr_get lru (lr_insert lru s k p) j)
         \<in> {None, if j = k then Some p else fst (lr_get lru s j)})"

section \<open>Variable-length integers\<close>

function encode_uvarint :: "64 word \<Rightarrow> bytes" where
  "encode_uvarint v =
    (let byte = ucast (v AND 0x7F) :: 8 word; v' = drop_bit 7 v in
     if v' = 0 then [byte] else (byte OR 0x80) # encode_uvarint v')"
  by pat_completeness auto

lemma drop_bit_7_less: "drop_bit 7 v \<noteq> 0 \<Longrightarrow> unat (drop_bit 7 v) < unat (v :: 64 word)"
proof -
  assume a: "drop_bit 7 v \<noteq> 0"
  then have "v \<noteq> 0" by auto
  then have "0 < unat v" by (simp add: unat_gt_0)
  moreover have "unat (drop_bit 7 v) = unat v div 128"
    by (subst unat_drop_bit_eq) (simp add: drop_bit_eq_div)
  ultimately show ?thesis by simp
qed

termination encode_uvarint
  by (relation "measure unat") (auto simp: drop_bit_7_less)

declare encode_uvarint.simps [simp del]

datatype multi_addr_error =
    EmptyData
  | VarintError
  | InconsistentLength nat nat
  | InvalidMultiaddr

fun decode_uvarint_at :: "64 word \<Rightarrow> nat \<Rightarrow> bytes \<Rightarrow> multi_addr_error + 64 word \<times> bytes" where
  "decode_uvarint_at r shift [] = Inl VarintError"
| "decode_uvarint_at r shift (b # bs) =
    (let r' = r OR push_bit shift (ucast (b AND 0x7F)) in
     if b AND 0x80 = 0 then Inr (r', bs)
     else if 64 \<le> shift + 7 then Inl VarintError
     else decode_uvarint_at r' (shift + 7) bs)"

definition decode_uvarint :: "bytes \<Rightarrow> multi_addr_error + 64 word \<times> bytes" where
  "decode_uvarint bs = decode_uvarint_at 0 0 bs"

lemma decode_uvarint_consumes:
  "decode_uvarint_at r shift bs = Inr (v, rest) \<Longrightarrow> length rest < length bs"
proof (induction bs arbitrary: r shift)
  case (Cons b bs)
  then show ?case by (fastforce simp: Let_def split: if_splits)
qed simp

section \<open>Address lists\<close>

definition serialize_multiaddrs :: "('m, 'p) peer_lib \<Rightarrow> 'm list \<Rightarrow> bytes" where
  "serialize_multiaddrs lib addrs =
    (case addrs of
       [single] \<Rightarrow> pl_to_vec lib single
     | _ \<Rightarrow> 0x99 # concat (map (\<lambda>addr. let addr_bytes = pl_to_vec lib addr in
              encode_uvarint (of_nat (length addr_bytes)) @ addr_bytes) addrs))"

function deserialize_list :: "('m, 'p) peer_lib \<Rightarrow> bytes \<Rightarrow> multi_addr_error + 'm list" where
  "deserialize_list lib data =
    (if data = [] then Inr []
     else case decode_uvarint data of
       Inl e \<Rightarrow> Inl e
     | Inr (addr_len, rest) \<Rightarrow>
         if length rest < unat addr_len then Inl (InconsistentLength (unat addr_len) (length rest))
         else case pl_try_from lib (take (unat addr_len) rest) of
           None \<Rightarrow> Inl InvalidMultiaddr
         | Some addr \<Rightarrow>
             (case deserialize_list lib (drop (unat addr_len) rest) of
                Inl e \<Rightarrow> Inl e
              | Inr addrs \<Rightarrow> Inr (addr # addrs)))"
  by pat_completeness auto

termination deserialize_list
  by (relation "measure (\<lambda>(lib, data). length data)")
     (auto simp: decode_uvarint_def dest: decode_uvarint_consumes)

declare deserialize_list.simps [simp del]

definition deserialize_multiaddrs :: "('m, 'p) peer_lib \<Rightarrow> bytes \<Rightarrow> multi_addr_error + 'm list" where
  "deserialize_multiaddrs lib data =
    (case data of
       [] \<Rightarrow> Inr []
     | b # rest \<Rightarrow>
         if b = 0x99 then deserialize_list lib rest
         else case pl_try_from lib data of None \<Rightarrow> Inl InvalidMultiaddr | Some addr \<Rightarrow> Inr [addr])"

section \<open>Signing and checking\<close>

datatype swarm_peer_error =
    InvalidSignature
  | SignerError
  | InvalidOverlay
  | NoMultiaddrs
  | InvalidMultiaddrEncoding multi_addr_error
  | InvalidTimestamp
  | TimestampOutsideSkewWindow
  | InvalidChequebook

record identity =
  id_address :: eth_address
  id_network_id :: nat
  id_nonce :: b256
  id_sign_message :: "bytes \<Rightarrow> bytes option"
  id_node_type :: swarm_node_type
  id_welcome_message :: "string option"

definition id_overlay :: "('m, 'p) peer_lib \<Rightarrow> identity \<Rightarrow> overlay_address" where
  "id_overlay lib identity = pl_compute_overlay lib (id_address identity) (id_network_id identity) (id_nonce identity)"

definition nonzero :: "eth_address option \<Rightarrow> eth_address option" where
  "nonzero c = (if c = Some 0 then None else c)"

definition peer_sign ::
  "('m, 'p) peer_lib \<Rightarrow> identity \<Rightarrow> 'm list \<Rightarrow> int \<Rightarrow> eth_address option
    \<Rightarrow> swarm_peer_error + 'm swarm_peer" where
  "peer_sign lib identity multiaddrs timestamp chequebook =
    (if multiaddrs = [] then Inl NoMultiaddrs
     else if timestamp \<le> 0 then Inl InvalidTimestamp
     else
       let chequebook = nonzero chequebook;
           overlay = id_overlay lib identity;
           msg = pl_sign_data lib (serialize_multiaddrs lib multiaddrs) overlay (id_network_id identity)
                   (id_nonce identity) timestamp chequebook
       in case id_sign_message identity msg of
            None \<Rightarrow> Inl SignerError
          | Some signature \<Rightarrow>
              Inr \<lparr>sp_multiaddrs = multiaddrs, sp_signature = signature, sp_overlay = overlay,
                   sp_nonce = id_nonce identity, sp_timestamp = timestamp,
                   sp_chequebook = chequebook, sp_ethereum_address = id_address identity\<rparr>)"

record swarm_peer_wire =
  sw_multiaddrs_bytes :: bytes
  sw_signature :: bytes
  sw_overlay :: overlay_address
  sw_nonce :: b256
  sw_timestamp :: int
  sw_chequebook_bytes :: bytes

definition parse_chequebook :: "bytes \<Rightarrow> swarm_peer_error + eth_address option" where
  "parse_chequebook bs =
    (if length bs = 0 then Inr None
     else if length bs = 20 then Inr (Some (word_of_bytes bs))
     else Inl InvalidChequebook)"

definition peer_parse ::
  "('m, 'p) peer_lib \<Rightarrow> swarm_peer_wire \<Rightarrow> nat \<Rightarrow> (int \<times> nat) option
    \<Rightarrow> swarm_peer_error + 'm swarm_peer" where
  "peer_parse lib wire network_id skew =
    (if sw_timestamp wire \<le> 0 then Inl InvalidTimestamp
     else if (case skew of Some (now, tolerance) \<Rightarrow> \<not> pl_skew_check lib (sw_timestamp wire) now tolerance
              | None \<Rightarrow> False)
     then Inl TimestampOutsideSkewWindow
     else case parse_chequebook (sw_chequebook_bytes wire) of
       Inl e \<Rightarrow> Inl e
     | Inr cb \<Rightarrow>
         let chequebook = nonzero cb in
         case deserialize_multiaddrs lib (sw_multiaddrs_bytes wire) of
           Inl e \<Rightarrow> Inl (InvalidMultiaddrEncoding e)
         | Inr multiaddrs \<Rightarrow>
             if multiaddrs = [] then Inl NoMultiaddrs
             else
               let msg = pl_sign_data lib (sw_multiaddrs_bytes wire) (sw_overlay wire) network_id
                           (sw_nonce wire) (sw_timestamp wire) chequebook
               in case pl_recover lib (sw_signature wire) msg of
                    None \<Rightarrow> Inl InvalidSignature
                  | Some ethereum_address \<Rightarrow>
                      if pl_compute_overlay lib ethereum_address network_id (sw_nonce wire) \<noteq> sw_overlay wire
                      then Inl InvalidOverlay
                      else Inr \<lparr>sp_multiaddrs = multiaddrs, sp_signature = sw_signature wire,
                             sp_overlay = sw_overlay wire, sp_nonce = sw_nonce wire,
                             sp_timestamp = sw_timestamp wire, sp_chequebook = chequebook,
                             sp_ethereum_address = ethereum_address\<rparr>)"

section \<open>Wire form\<close>

record proto_peer =
  pp_multiaddrs :: bytes
  pp_signature :: bytes
  pp_overlay :: bytes
  pp_nonce :: bytes
  pp_timestamp :: int
  pp_chequebook_address :: bytes

definition encode_swarm_peer :: "('m, 'p) peer_lib \<Rightarrow> 'm swarm_peer \<Rightarrow> proto_peer" where
  "encode_swarm_peer lib peer =
    \<lparr>pp_multiaddrs = serialize_multiaddrs lib (sp_multiaddrs peer),
     pp_signature = pl_signature_bytes lib (sp_signature peer),
     pp_overlay = encode_hash_key (sp_overlay peer), pp_nonce = encode_hash_key (sp_nonce peer),
     pp_timestamp = sp_timestamp peer,
     pp_chequebook_address = (case sp_chequebook peer of Some a \<Rightarrow> word_bytes a | None \<Rightarrow> [])\<rparr>"

definition encode_peers :: "('m, 'p) peer_lib \<Rightarrow> 'm swarm_peer list \<Rightarrow> proto_peer list" where
  "encode_peers lib peers = map (encode_swarm_peer lib) peers"

section \<open>Intake of gossip\<close>

text \<open>The cache: eight shards of 32 records.\<close>

definition peer_cache_new :: "('m, 's) lru_lib \<Rightarrow> 's list" where
  "peer_cache_new lru = replicate 8 (lr_new lru 32)"

definition shard :: "overlay_address \<Rightarrow> nat" where
  "shard overlay = unat (overlay AND 7)"

definition cache_get ::
  "('m, 's) lru_lib \<Rightarrow> overlay_address \<Rightarrow> bytes \<Rightarrow> 's list \<Rightarrow> 'm swarm_peer option \<times> 's list" where
  "cache_get lru overlay signature c =
    (case lr_get lru (c ! shard overlay) overlay of
       (found, s) \<Rightarrow>
         (case found of
            Some cached \<Rightarrow> if sp_signature cached = signature then Some cached else None
          | None \<Rightarrow> None,
          c[shard overlay := s]))"

definition cache_insert ::
  "('m, 's) lru_lib \<Rightarrow> overlay_address \<Rightarrow> 'm swarm_peer \<Rightarrow> 's list \<Rightarrow> 's list" where
  "cache_insert lru overlay peer c = c[shard overlay := lr_insert lru (c ! shard overlay) overlay peer]"

datatype validation_failure =
    OverlayLength
  | SignatureFormat
  | NonceLength
  | PeerValidation swarm_peer_error
  | SelfOverlay
  | MissingPeerId

definition validate_proto_peer ::
  "('m, 'p) peer_lib \<Rightarrow> ('m, 's) lru_lib \<Rightarrow> proto_peer \<Rightarrow> nat \<Rightarrow> overlay_address \<Rightarrow> 's list
    \<Rightarrow> (validation_failure + 'm swarm_peer) \<times> 's list" where
  "validate_proto_peer lib lru p network_id local_overlay cache =
    (case decode_hash_key (pp_overlay p) of
       None \<Rightarrow> (Inl OverlayLength, cache)
     | Some peer_overlay \<Rightarrow>
         if peer_overlay = local_overlay then (Inl SelfOverlay, cache)
         else case pl_signature_try_from lib (pp_signature p) of
           None \<Rightarrow> (Inl SignatureFormat, cache)
         | Some signature \<Rightarrow>
             case cache_get lru peer_overlay signature cache of
               (Some cached, cache1) \<Rightarrow> (Inr cached, cache1)
             | (None, cache1) \<Rightarrow>
                 case decode_hash_key (pp_nonce p) of
                   None \<Rightarrow> (Inl NonceLength, cache1)
                 | Some nonce \<Rightarrow>
                     case peer_parse lib
                       \<lparr>sw_multiaddrs_bytes = pp_multiaddrs p, sw_signature = signature,
                        sw_overlay = peer_overlay, sw_nonce = nonce,
                        sw_timestamp = pp_timestamp p,
                        sw_chequebook_bytes = pp_chequebook_address p\<rparr> network_id None of
                       Inl e \<Rightarrow> (Inl (PeerValidation e), cache1)
                     | Inr peer \<Rightarrow>
                         if \<not> list_all (\<lambda>a. pl_last_p2p lib a \<noteq> None) (sp_multiaddrs peer)
                         then (Inl MissingPeerId, cache1)
                         else (Inr peer, cache_insert lru peer_overlay peer cache1))"

text \<open>The valid records in order, with how many were valid and invalid.\<close>

fun validate_batch ::
  "('m, 'p) peer_lib \<Rightarrow> ('m, 's) lru_lib \<Rightarrow> proto_peer list \<Rightarrow> nat \<Rightarrow> overlay_address \<Rightarrow> 's list
    \<Rightarrow> ('m swarm_peer list \<times> nat \<times> nat) \<times> 's list" where
  "validate_batch lib lru [] network_id local_overlay cache = (([], 0, 0), cache)"
| "validate_batch lib lru (p # ps) network_id local_overlay cache =
    (case validate_proto_peer lib lru p network_id local_overlay cache of
       (r, cache1) \<Rightarrow>
         (case validate_batch lib lru ps network_id local_overlay cache1 of
            ((peers, valid_count, invalid_count), cache2) \<Rightarrow>
              (case r of
                 Inr peer \<Rightarrow> ((peer # peers, valid_count + 1, invalid_count), cache2)
               | Inl _ \<Rightarrow> ((peers, valid_count, invalid_count + 1), cache2))))"

datatype inbound_policy = Forward | Discard

record ('s, 'k) hive =
  hv_limit :: "'k keyed_rate_limiter"
  hv_cache :: "'s list"

definition hive_read ::
  "('m, 'p) peer_lib \<Rightarrow> ('m, 's) lru_lib \<Rightarrow> identity \<Rightarrow> inbound_policy \<Rightarrow> nat \<Rightarrow> 'k \<Rightarrow> proto_peer list
    \<Rightarrow> ('s, 'k) hive \<Rightarrow> 'm swarm_peer list \<times> ('s, 'k) hive" where
  "hive_read lib lru identity policy clock remote_peer_id raw_peers hv =
    (let raw_count = length raw_peers;
         (charged, limit) =
           (if 0 < raw_count
            then keyed_try_consume_n clock remote_peer_id (min raw_count 4294967295) (hv_limit hv)
            else (Inr (), hv_limit hv));
         hv1 = hv\<lparr>hv_limit := limit\<rparr>
     in case charged of
          Inl _ \<Rightarrow> ([], hv1)
        | Inr _ \<Rightarrow>
            if policy = Discard then ([], hv1)
            else case validate_batch lib lru raw_peers (id_network_id identity) (id_overlay lib identity)
                        (hv_cache hv1) of
                   ((peers, _, _), cache) \<Rightarrow> (peers, hv1\<lparr>hv_cache := cache\<rparr>))"

section \<open>Round trips\<close>

lemma low_bits: "(0x7F :: 8 word) = mask 7" "(0x7F :: 64 word) = mask 7"
  by (simp_all add: mask_eq_exp_minus_1)

lemma bit_0x80: "bit (128 :: int) n \<longleftrightarrow> n = 7" "bit (0x80 :: 8 word) n \<longleftrightarrow> n = 7"
proof -
  have "(128 :: int) = push_bit 7 1" "(0x80 :: 8 word) = push_bit 7 1" by (simp_all add: push_bit_eq_mult)
  then show "bit (128 :: int) n \<longleftrightarrow> n = 7" "bit (0x80 :: 8 word) n \<longleftrightarrow> n = 7"
    by (simp_all only: bit_push_bit_iff) (auto simp: bit_simps)
qed

lemma varint_byte:
  fixes v :: "64 word"
  shows "ucast (ucast (v AND 0x7F) AND (0x7F :: 8 word)) = v AND 0x7F"
    and "ucast (v AND 0x7F) AND (0x80 :: 8 word) = 0"
    and "ucast ((ucast (v AND 0x7F) OR 0x80) AND (0x7F :: 8 word)) = v AND 0x7F"
    and "(ucast (v AND 0x7F) OR 0x80) AND (0x80 :: 8 word) \<noteq> 0"
    and "drop_bit 7 v = 0 \<Longrightarrow> v AND 0x7F = v"
    and "push_bit s v = push_bit s (v AND 0x7F) OR push_bit (s + 7) (drop_bit 7 v)"
proof -
  show "ucast (ucast (v AND 0x7F) AND (0x7F :: 8 word)) = v AND 0x7F"
    "ucast (v AND 0x7F) AND (0x80 :: 8 word) = 0"
    "ucast ((ucast (v AND 0x7F) OR 0x80) AND (0x7F :: 8 word)) = v AND 0x7F"
    unfolding low_bits by (rule bit_eqI, auto simp: bit_simps bit_0x80)+
  have "bit ((ucast (v AND 0x7F) OR 0x80) AND (0x80 :: 8 word)) 7"
    unfolding low_bits by (simp add: bit_simps bit_0x80)
  then show "(ucast (v AND 0x7F) OR 0x80) AND (0x80 :: 8 word) \<noteq> 0" by (metis bit_0_eq bot_apply bot_bool_def)
  show "push_bit s v = push_bit s (v AND 0x7F) OR push_bit (s + 7) (drop_bit 7 v)"
    unfolding low_bits
  proof (rule bit_eqI)
    fix n
    have "s + 7 \<le> n \<Longrightarrow> 7 + (n - (s + 7)) = n - s" by simp
    then show "bit (push_bit s v) n = bit (push_bit s (v AND mask 7) OR push_bit (s + 7) (drop_bit 7 v)) n"
      by (cases "s + 7 \<le> n") (auto simp: bit_simps)
  qed
  assume z: "drop_bit 7 v = 0"
  show "v AND 0x7F = v" unfolding low_bits
  proof (rule bit_word_eqI)
    fix n assume n: "n < LENGTH(64)"
    have "\<not> bit (drop_bit 7 v) (n - 7)" using z by simp
    then have "7 \<le> n \<Longrightarrow> \<not> bit v n" by (simp add: bit_drop_bit_eq)
    then show "bit (v AND mask 7) n = bit v n" using n by (cases "7 \<le> n") (auto simp: bit_simps)
  qed
qed

lemma decode_encode_uvarint_at:
  "s < 64 \<Longrightarrow> unat v < 2 ^ (64 - s) \<Longrightarrow>
    decode_uvarint_at r s (encode_uvarint v @ rest) = Inr (r OR push_bit s v, rest)"
proof (induction v arbitrary: r s rule: encode_uvarint.induct)
  case (1 v)
  show ?case
  proof (cases "drop_bit 7 v = 0")
    case True
    then have "v AND 0x7F = v" by (rule varint_byte(5))
    with varint_byte(1,2) [of v] have "ucast (ucast v AND (0x7F :: 8 word)) = v" "ucast v AND (0x80 :: 8 word) = 0"
      by simp_all
    then show ?thesis
      using True \<open>v AND 0x7F = v\<close> by (simp add: encode_uvarint.simps [of v] Let_def)
  next
    case False
    have d: "unat (drop_bit 7 v) = unat v div 128"
      by (subst unat_drop_bit_eq) (simp add: drop_bit_eq_div)
    have big: "128 \<le> unat v" using False d by (metis div_less not_le unat_eq_0)
    have s7: "s + 7 < 64"
    proof (rule ccontr)
      assume "\<not> s + 7 < 64"
      then have "(2 :: nat) ^ (64 - s) \<le> 2 ^ 7" by (intro power_increasing) auto
      then show False using 1(3) big by simp
    qed
    have e: "64 - s = (64 - (s + 7)) + 7" using s7 by simp
    have "(2 :: nat) ^ (64 - s) = 2 ^ (64 - (s + 7)) * 2 ^ 7" by (subst e) (simp only: power_add)
    then have "unat (drop_bit 7 v) < 2 ^ (64 - (s + 7))"
      using 1(3) d by (simp add: less_mult_imp_div_less)
    then have ih: "decode_uvarint_at r' (s + 7) (encode_uvarint (drop_bit 7 v) @ rest)
        = Inr (r' OR push_bit (s + 7) (drop_bit 7 v), rest)" for r'
      by (rule 1(1) [OF refl refl False s7])
    have "encode_uvarint v = (ucast (v AND 0x7F) OR 0x80) # encode_uvarint (drop_bit 7 v)"
      using False by (subst encode_uvarint.simps) (simp only: Let_def if_False)
    moreover have "\<not> 64 \<le> s + 7" using s7 by simp
    ultimately have "decode_uvarint_at r s (encode_uvarint v @ rest)
        = decode_uvarint_at (r OR push_bit s (v AND 0x7F)) (s + 7) (encode_uvarint (drop_bit 7 v) @ rest)"
      by (simp only: append_Cons decode_uvarint_at.simps Let_def varint_byte(3) varint_byte(4) if_False)
    then show ?thesis unfolding ih or.assoc varint_byte(6) [of s v] .
  qed
qed

lemma decode_encode_uvarint: "decode_uvarint (encode_uvarint v @ rest) = Inr (v, rest)"
  using decode_encode_uvarint_at [of 0 v 0 rest] unsigned_less [of v] by (simp add: decode_uvarint_def)

lemma encode_uvarint_Cons: "encode_uvarint v \<noteq> []"
  by (subst encode_uvarint.simps) (simp add: Let_def)

definition list_entry :: "('m, 'p) peer_lib \<Rightarrow> 'm \<Rightarrow> bytes" where
  "list_entry lib addr = encode_uvarint (of_nat (length (pl_to_vec lib addr))) @ pl_to_vec lib addr"

lemma deserialize_list_entries:
  assumes laws: "peer_lib_laws lib"
  shows "\<forall>a\<in>set addrs. length (pl_to_vec lib a) \<le> u64_max \<Longrightarrow>
    deserialize_list lib (concat (map (list_entry lib) addrs)) = Inr addrs"
proof (induction addrs)
  case Nil
  show ?case by (subst deserialize_list.simps) simp
next
  case (Cons a addrs)
  let ?rest = "concat (map (list_entry lib) addrs)"
  have len: "unat (of_nat (length (pl_to_vec lib a)) :: 64 word) = length (pl_to_vec lib a)"
    using Cons.prems by (simp add: unat_of_nat take_bit_nat_eq_self)
  have "decode_uvarint (concat (map (list_entry lib) (a # addrs)))
      = Inr (of_nat (length (pl_to_vec lib a)), pl_to_vec lib a @ ?rest)"
    by (simp add: list_entry_def decode_encode_uvarint)
  moreover have "concat (map (list_entry lib) (a # addrs)) \<noteq> []"
    using encode_uvarint_Cons by (simp add: list_entry_def)
  moreover have "pl_try_from lib (pl_to_vec lib a) = Some a" using laws by (simp add: peer_lib_laws_def)
  ultimately show ?case
    using Cons len by (subst deserialize_list.simps) simp
qed

text \<open>What the format can carry: a length is 64 bits, and an address on its own must not be
  empty or start with the byte that marks a list.\<close>

definition plain_addresses :: "('m, 'p) peer_lib \<Rightarrow> 'm list \<Rightarrow> bool" where
  "plain_addresses lib addrs \<longleftrightarrow>
    (\<forall>a\<in>set addrs. length (pl_to_vec lib a) \<le> u64_max)
    \<and> (\<forall>a. addrs = [a] \<longrightarrow> pl_to_vec lib a \<noteq> [] \<and> hd (pl_to_vec lib a) \<noteq> 0x99)"

lemma serialize_list: "length addrs \<noteq> 1 \<Longrightarrow>
    serialize_multiaddrs lib addrs = 0x99 # concat (map (list_entry lib) addrs)"
  by (auto simp: serialize_multiaddrs_def list_entry_def [abs_def] Let_def split: list.splits)

lemma multiaddrs_round_trip:
  assumes laws: "peer_lib_laws lib" and plain: "plain_addresses lib addrs"
  shows "deserialize_multiaddrs lib (serialize_multiaddrs lib addrs) = Inr addrs"
proof (cases "length addrs = 1")
  case True
  then obtain a where a: "addrs = [a]" by (cases addrs) auto
  then obtain b bs where "pl_to_vec lib a = b # bs" "b \<noteq> 0x99"
    using plain by (cases "pl_to_vec lib a") (auto simp: plain_addresses_def)
  moreover have "pl_try_from lib (pl_to_vec lib a) = Some a" using laws by (simp add: peer_lib_laws_def)
  ultimately show ?thesis by (simp add: a serialize_multiaddrs_def deserialize_multiaddrs_def)
next
  case False
  then show ?thesis
    using deserialize_list_entries [OF laws, of addrs] plain
    by (simp add: serialize_list deserialize_multiaddrs_def plain_addresses_def)
qed

text \<open>An address whose first byte is the list mark, alone in a record, is read as a list.\<close>

lemma marked_address_misread:
  "pl_to_vec lib a = 0x99 # bs \<Longrightarrow>
    deserialize_multiaddrs lib (serialize_multiaddrs lib [a]) = deserialize_list lib bs"
  by (simp add: serialize_multiaddrs_def deserialize_multiaddrs_def)

section \<open>Authentic records\<close>

definition authentic :: "('m, 'p) peer_lib \<Rightarrow> nat \<Rightarrow> 'm swarm_peer \<Rightarrow> bool" where
  "authentic lib network_id peer \<longleftrightarrow>
    sp_multiaddrs peer \<noteq> [] \<and> 0 < sp_timestamp peer \<and> sp_chequebook peer \<noteq> Some 0
    \<and> pl_compute_overlay lib (sp_ethereum_address peer) network_id (sp_nonce peer) = sp_overlay peer
    \<and> (\<exists>bs. deserialize_multiaddrs lib bs = Inr (sp_multiaddrs peer)
        \<and> pl_recover lib (sp_signature peer)
            (pl_sign_data lib bs (sp_overlay peer) network_id (sp_nonce peer) (sp_timestamp peer)
              (sp_chequebook peer)) = Some (sp_ethereum_address peer))"

lemma nonzero_nonzero [simp]: "nonzero (nonzero c) = nonzero c" "nonzero c \<noteq> Some 0"
  by (simp_all add: nonzero_def)

lemma peer_parse_authentic:
  assumes "peer_parse lib wire network_id skew = Inr peer"
  shows "authentic lib network_id peer" and "sp_overlay peer = sw_overlay wire"
    and "sp_signature peer = sw_signature wire"
  using assms
  by (auto simp: peer_parse_def authentic_def Let_def split: if_splits sum.splits option.splits)

text \<open>What is used of a signer: a signature it gives recovers to its address.\<close>

definition honest_signer :: "('m, 'p) peer_lib \<Rightarrow> identity \<Rightarrow> bool" where
  "honest_signer lib identity \<longleftrightarrow>
    (\<forall>msg s. id_sign_message identity msg = Some s \<longrightarrow> pl_recover lib s msg = Some (id_address identity))"

definition wire_of :: "('m, 'p) peer_lib \<Rightarrow> 'm swarm_peer \<Rightarrow> swarm_peer_wire" where
  "wire_of lib peer =
    \<lparr>sw_multiaddrs_bytes = serialize_multiaddrs lib (sp_multiaddrs peer), sw_signature = sp_signature peer,
     sw_overlay = sp_overlay peer, sw_nonce = sp_nonce peer, sw_timestamp = sp_timestamp peer,
     sw_chequebook_bytes = (case sp_chequebook peer of Some a \<Rightarrow> word_bytes a | None \<Rightarrow> [])\<rparr>"

lemma parse_chequebook_bytes:
  "parse_chequebook (case c of Some a \<Rightarrow> word_bytes (a :: 160 word) | None \<Rightarrow> []) = Inr c"
  by (auto simp: parse_chequebook_def word_of_word_bytes simp del: length_0_conv split: option.splits)

lemma peer_sign_parses:
  assumes laws: "peer_lib_laws lib" and h: "honest_signer lib identity" and p: "plain_addresses lib addrs"
    and s: "peer_sign lib identity addrs ts cb = Inr peer"
  shows "peer_parse lib (wire_of lib peer) (id_network_id identity) None = Inr peer"
proof -
  obtain sg where sg: "id_sign_message identity (pl_sign_data lib (serialize_multiaddrs lib addrs) (id_overlay lib identity)
      (id_network_id identity) (id_nonce identity) ts (nonzero cb)) = Some sg"
    and peer: "peer = \<lparr>sp_multiaddrs = addrs, sp_signature = sg, sp_overlay = id_overlay lib identity,
                   sp_nonce = id_nonce identity, sp_timestamp = ts,
                   sp_chequebook = nonzero cb, sp_ethereum_address = id_address identity\<rparr>"
    and ok: "addrs \<noteq> []" "0 < ts"
    using s by (auto simp: peer_sign_def Let_def split: if_splits option.splits)
  have "pl_recover lib sg (pl_sign_data lib (serialize_multiaddrs lib addrs) (id_overlay lib identity)
      (id_network_id identity) (id_nonce identity) ts (nonzero cb)) = Some (id_address identity)"
    using h sg by (simp add: honest_signer_def)
  then show ?thesis
    using ok multiaddrs_round_trip [OF laws p]
    by (simp add: peer peer_parse_def wire_of_def parse_chequebook_bytes id_overlay_def Let_def)
qed

lemma peer_sign_fields:
  assumes "peer_sign lib identity addrs ts cb = Inr peer"
  shows "sp_overlay peer = id_overlay lib identity" and "sp_multiaddrs peer = addrs"
    and "sp_timestamp peer = ts" and "sp_ethereum_address peer = id_address identity"
  using assms by (auto simp: peer_sign_def Let_def split: if_splits option.splits)

lemma validate_parsed:
  assumes laws: "peer_lib_laws lib" and parsed: "peer_parse lib (wire_of lib peer) network_id None = Inr peer"
  shows "fst (validate_proto_peer lib lru (encode_swarm_peer lib peer) network_id local_overlay cache) =
    (if local_overlay = sp_overlay peer then Inl SelfOverlay
     else case fst (cache_get lru (sp_overlay peer) (sp_signature peer) cache) of
            Some cached \<Rightarrow> Inr cached
          | None \<Rightarrow> if list_all (\<lambda>a. pl_last_p2p lib a \<noteq> None) (sp_multiaddrs peer)
                    then Inr peer else Inl MissingPeerId)"
proof -
  have sig: "pl_signature_try_from lib (pl_signature_bytes lib (sp_signature peer)) = Some (sp_signature peer)"
    using laws by (simp add: peer_lib_laws_def)
  obtain found cache1 where c: "cache_get lru (sp_overlay peer) (sp_signature peer) cache = (found, cache1)"
    by (cases "cache_get lru (sp_overlay peer) (sp_signature peer) cache") simp
  show ?thesis
    using parsed
    by (cases found) (auto simp: validate_proto_peer_def encode_swarm_peer_def hash_key.dec_enc sig c wire_of_def)
qed

text \<open>C29. A record that a node signs survives its wire form, if its signatures recover to its
  address and the format can carry its addresses, that is a single address is not empty and
  does not start with the byte that marks a list. The receiver of the encoded record refuses
  it if it is the receiver's own, answers with the cached record if it holds one of that
  overlay with that signature, and otherwise reads back the same record and accepts it
  exactly when every address names a peer.\<close>

theorem signed_record_round_trip:
  assumes laws: "peer_lib_laws lib" and h: "honest_signer lib identity" and p: "plain_addresses lib addrs"
    and s: "peer_sign lib identity addrs ts cb = Inr peer"
  shows "fst (validate_proto_peer lib lru (encode_swarm_peer lib peer) (id_network_id identity) local_overlay cache) =
    (if local_overlay = sp_overlay peer then Inl SelfOverlay
     else case fst (cache_get lru (sp_overlay peer) (sp_signature peer) cache) of
            Some cached \<Rightarrow> Inr cached
          | None \<Rightarrow> if list_all (\<lambda>a. pl_last_p2p lib a \<noteq> None) addrs then Inr peer else Inl MissingPeerId)"
  using validate_parsed [OF laws peer_sign_parses [OF laws h p s], where lru = lru and local_overlay = local_overlay and cache = cache]
  by (simp only: peer_sign_fields(2) [OF s])

section \<open>The cache of checked records\<close>

definition accepted :: "('m, 'p) peer_lib \<Rightarrow> identity \<Rightarrow> 'm swarm_peer \<Rightarrow> bool" where
  "accepted lib identity peer \<longleftrightarrow>
    authentic lib (id_network_id identity) peer \<and> sp_overlay peer \<noteq> id_overlay lib identity
    \<and> list_all (\<lambda>a. pl_last_p2p lib a \<noteq> None) (sp_multiaddrs peer)"

definition shard_ok :: "('m, 'p) peer_lib \<Rightarrow> ('m, 's) lru_lib \<Rightarrow> identity \<Rightarrow> 's \<Rightarrow> bool" where
  "shard_ok lib lru identity s \<longleftrightarrow>
    (\<forall>k peer. fst (lr_get lru s k) = Some peer \<longrightarrow> sp_overlay peer = k \<and> accepted lib identity peer)"

definition peer_cache_ok :: "('m, 'p) peer_lib \<Rightarrow> ('m, 's) lru_lib \<Rightarrow> identity \<Rightarrow> 's list \<Rightarrow> bool" where
  "peer_cache_ok lib lru identity c \<longleftrightarrow> length c = 8 \<and> list_all (shard_ok lib lru identity) c"

lemma shard_less: "shard k < 8"
proof -
  have "k AND 7 = take_bit 3 k" by (simp add: take_bit_eq_mask mask_eq_exp_minus_1)
  then have "unat (k AND 7) = take_bit 3 (unat k)" by (simp only: unsigned_take_bit_eq)
  then show ?thesis by (simp add: shard_def take_bit_eq_mod)
qed

lemma peer_cache_shard: "peer_cache_ok lib lru identity c \<Longrightarrow> shard_ok lib lru identity (c ! shard k)"
  using shard_less [of k] by (simp add: peer_cache_ok_def list_all_length)

lemma peer_cache_update:
  "peer_cache_ok lib lru identity c \<Longrightarrow> shard_ok lib lru identity s \<Longrightarrow> peer_cache_ok lib lru identity (c[i := s])"
  by (cases "i < length c") (auto simp: peer_cache_ok_def list_all_length nth_list_update)

lemma cache_insert_ok:
  assumes laws: "lru_laws lru" and ok: "peer_cache_ok lib lru identity c"
    and p: "sp_overlay peer = k" "accepted lib identity peer"
  shows "peer_cache_ok lib lru identity (cache_insert lru k peer c)"
proof -
  have "shard_ok lib lru identity (lr_insert lru (c ! shard k) k peer)"
    unfolding shard_ok_def
  proof (intro allI impI)
    fix j q assume q: "fst (lr_get lru (lr_insert lru (c ! shard k) k peer) j) = Some q"
    have "fst (lr_get lru (lr_insert lru (c ! shard k) k peer) j)
        \<in> {None, if j = k then Some peer else fst (lr_get lru (c ! shard k) j)}"
      using laws by (simp add: lru_laws_def)
    then have "Some q = (if j = k then Some peer else fst (lr_get lru (c ! shard k) j))" unfolding q by simp
    then show "sp_overlay q = j \<and> accepted lib identity q"
      using p peer_cache_shard [OF ok, of k] by (auto simp: shard_ok_def split: if_splits)
  qed
  then show ?thesis unfolding cache_insert_def by (rule peer_cache_update [OF ok])
qed

lemma cache_get_ok:
  assumes laws: "lru_laws lru" and ok: "peer_cache_ok lib lru identity c" and g: "cache_get lru k sg c = (r, c')"
  shows "peer_cache_ok lib lru identity c'"
    and "r = Some peer \<Longrightarrow> sp_overlay peer = k \<and> sp_signature peer = sg \<and> accepted lib identity peer"
proof -
  obtain found s where f: "lr_get lru (c ! shard k) k = (found, s)" by (cases "lr_get lru (c ! shard k) k")
  note sh = peer_cache_shard [OF ok, of k]
  have "fst (lr_get lru s j) = fst (lr_get lru (c ! shard k) j)" for j
    using laws f unfolding lru_laws_def by (metis snd_conv)
  then have "shard_ok lib lru identity s" using sh by (simp add: shard_ok_def)
  then show "peer_cache_ok lib lru identity c'"
    using g f peer_cache_update [OF ok] by (auto simp: cache_get_def)
  have "sp_overlay p = k \<and> accepted lib identity p" if "found = Some p" for p
    using sh f that unfolding shard_ok_def by (metis fst_conv)
  then show "r = Some peer \<Longrightarrow> sp_overlay peer = k \<and> sp_signature peer = sg \<and> accepted lib identity peer"
    using g f by (auto simp: cache_get_def split: option.splits if_splits)
qed

lemma validate_proto_peer_ok:
  assumes laws: "lru_laws lru" and ok: "peer_cache_ok lib lru identity c"
    and v: "validate_proto_peer lib lru p (id_network_id identity) (id_overlay lib identity) c = (r, c')"
  shows "peer_cache_ok lib lru identity c' \<and> (\<forall>peer. r = Inr peer \<longrightarrow> accepted lib identity peer
    \<and> pp_overlay p = encode_hash_key (sp_overlay peer))"
proof (cases "decode_hash_key (pp_overlay p)")
  case None
  then show ?thesis using ok v by (auto simp: validate_proto_peer_def)
next
  case (Some k)
  have enc: "pp_overlay p = encode_hash_key k" using hash_key.dec_defined Some by blast
  show ?thesis
  proof (cases "k = id_overlay lib identity \<or> pl_signature_try_from lib (pp_signature p) = None")
    case True
    then show ?thesis using ok v Some by (cases "k = id_overlay lib identity") (auto simp: validate_proto_peer_def)
  next
    case False
    then obtain sg where sg: "pl_signature_try_from lib (pp_signature p) = Some sg" by auto
    obtain q c1 where g: "cache_get lru k sg c = (q, c1)" by (cases "cache_get lru k sg c")
    note got = cache_get_ok [OF laws ok g]
    show ?thesis
    proof (cases q)
      case (Some cached)
      then show ?thesis
        using v got False sg g \<open>decode_hash_key (pp_overlay p) = Some k\<close> enc
        by (auto simp: validate_proto_peer_def)
    next
      case None
      have "peer_cache_ok lib lru identity (cache_insert lru k peer c1) \<and> accepted lib identity peer \<and> sp_overlay peer = k"
        if "peer_parse lib \<lparr>sw_multiaddrs_bytes = pp_multiaddrs p, sw_signature = sg,
            sw_overlay = k, sw_nonce = n, sw_timestamp = pp_timestamp p,
            sw_chequebook_bytes = pp_chequebook_address p\<rparr> (id_network_id identity) None = Inr peer"
          "list_all (\<lambda>a. pl_last_p2p lib a \<noteq> None) (sp_multiaddrs peer)" for n peer
      proof -
        have acc: "accepted lib identity peer" "sp_overlay peer = k"
          using peer_parse_authentic [OF that(1)] that(2) False by (simp_all add: accepted_def)
        then show ?thesis using cache_insert_ok [OF laws got(1) acc(2,1)] by simp
      qed
      then show ?thesis
        using v got(1) False sg g None \<open>decode_hash_key (pp_overlay p) = Some k\<close> enc
        by (auto simp: validate_proto_peer_def split: option.splits sum.splits if_splits)
    qed
  qed
qed

lemma validate_batch_ok:
  assumes laws: "lru_laws lru"
  shows "peer_cache_ok lib lru identity c \<Longrightarrow>
    validate_batch lib lru ps (id_network_id identity) (id_overlay lib identity) c = ((peers, v, i), c') \<Longrightarrow>
    peer_cache_ok lib lru identity c' \<and> v = length peers \<and> v + i = length ps
    \<and> (\<forall>peer\<in>set peers. accepted lib identity peer \<and> encode_hash_key (sp_overlay peer) \<in> pp_overlay ` set ps)"
proof (induction ps arbitrary: c peers v i c')
  case (Cons p ps)
  obtain r c1 where one: "validate_proto_peer lib lru p (id_network_id identity) (id_overlay lib identity) c = (r, c1)"
    by (cases "validate_proto_peer lib lru p (id_network_id identity) (id_overlay lib identity) c")
  obtain peers1 v1 i1 c2 where rest:
    "validate_batch lib lru ps (id_network_id identity) (id_overlay lib identity) c1 = ((peers1, v1, i1), c2)"
    by (cases "validate_batch lib lru ps (id_network_id identity) (id_overlay lib identity) c1") auto
  note ok = validate_proto_peer_ok [OF laws Cons.prems(1) one]
  have ih: "peer_cache_ok lib lru identity c2 \<and> v1 = length peers1 \<and> v1 + i1 = length ps
    \<and> (\<forall>peer\<in>set peers1. accepted lib identity peer \<and> encode_hash_key (sp_overlay peer) \<in> pp_overlay ` set ps)"
    by (rule Cons.IH [OF _ rest]) (use ok in simp)
  show ?case
  proof (cases r)
    case (Inl e)
    then show ?thesis using Cons.prems(2) one rest ih by auto
  next
    case (Inr peer)
    then show ?thesis using Cons.prems(2) one rest ih ok by (auto simp: image_iff)
  qed
qed simp

text \<open>The inbound side of the protocol over time: any messages, from any peers, at any times.\<close>

inductive hive_reachable ::
  "('m, 'p) peer_lib \<Rightarrow> ('m, 's) lru_lib \<Rightarrow> identity \<Rightarrow> ('s, 'k) hive \<Rightarrow> bool"
  for lib :: "('m, 'p) peer_lib" and lru :: "('m, 's) lru_lib" and identity :: identity where
  start: "hive_reachable lib lru identity \<lparr>hv_limit = rl, hv_cache = peer_cache_new lru\<rparr>"
| read: "hive_reachable lib lru identity hv \<Longrightarrow>
    hive_reachable lib lru identity (snd (hive_read lib lru identity policy clock remote raw hv))"

lemma peer_cache_new_ok: "lru_laws lru \<Longrightarrow> peer_cache_ok lib lru identity (peer_cache_new lru)"
  by (simp add: peer_cache_ok_def peer_cache_new_def shard_ok_def list_all_length lru_laws_def)

lemma hive_read_ok:
  assumes laws: "lru_laws lru" and ok: "peer_cache_ok lib lru identity (hv_cache hv)"
    and r: "hive_read lib lru identity policy clock remote raw hv = (peers, hv')"
  shows "peer_cache_ok lib lru identity (hv_cache hv') \<and> length peers \<le> length raw
    \<and> (\<forall>peer\<in>set peers. accepted lib identity peer \<and> encode_hash_key (sp_overlay peer) \<in> pp_overlay ` set raw)"
proof -
  obtain ps v i c where b: "validate_batch lib lru raw (id_network_id identity) (id_overlay lib identity) (hv_cache hv)
      = ((ps, v, i), c)"
    by (cases "validate_batch lib lru raw (id_network_id identity) (id_overlay lib identity) (hv_cache hv)") auto
  show ?thesis
    using validate_batch_ok [OF laws ok b] ok r
    by (auto simp: hive_read_def Let_def b split: if_splits prod.splits sum.splits)
qed

lemma hive_reachable_ok:
  assumes laws: "lru_laws lru"
  shows "hive_reachable lib lru identity hv \<Longrightarrow> peer_cache_ok lib lru identity (hv_cache hv)"
proof (induction rule: hive_reachable.induct)
  case (read hv policy clock remote raw)
  then show ?case
    using hive_read_ok [OF laws read.IH, of policy clock remote raw]
    by (cases "hive_read lib lru identity policy clock remote raw hv") auto
qed (simp add: peer_cache_new_ok [OF laws])

text \<open>C28. Whatever was received before, every record that the gossip intake hands on is
  authentic: it is signed over its own fields by the key its overlay is derived from on this
  network, it is dated and has addresses, all with a peer identity, and it is not our own
  overlay. It answers a record of the message with the same overlay, and a message yields at
  most as many records as it carries.\<close>

theorem hive_intake_authentic:
  assumes laws: "lru_laws lru" and r: "hive_reachable lib lru identity hv"
    and read: "hive_read lib lru identity policy clock remote raw hv = (peers, hv')"
  shows "length peers \<le> length raw
    \<and> (\<forall>peer\<in>set peers. authentic lib (id_network_id identity) peer
        \<and> sp_overlay peer \<noteq> id_overlay lib identity
        \<and> list_all (\<lambda>a. pl_last_p2p lib a \<noteq> None) (sp_multiaddrs peer)
        \<and> (\<exists>p\<in>set raw. decode_hash_key (pp_overlay p) = Some (sp_overlay peer)))"
proof -
  have "decode_hash_key (encode_hash_key k) = Some k" for k by (rule hash_key.dec_enc)
  then show ?thesis
    using hive_read_ok [OF laws hive_reachable_ok [OF laws r] read] by (auto simp: accepted_def image_iff) metis
qed

section \<open>A concrete instance\<close>

definition sample_peer_lib :: "(bytes, 8 word) peer_lib" where
  "sample_peer_lib =
    \<lparr>pl_to_vec = (\<lambda>a. a), pl_try_from = Some,
     pl_last_p2p = (\<lambda>a. if a = [] then None else Some (last a)), pl_pop = butlast,
     pl_with_p2p = (\<lambda>a p. a @ [p]),
     pl_sign_data = (\<lambda>bs ov nid n ts cb. bs @ word_bytes ov),
     pl_recover = (\<lambda>s msg. if drop 20 s = msg then Some (word_of_bytes (take 20 s)) else None),
     pl_compute_overlay = (\<lambda>a nid n. ucast a + n), pl_skew_check = (\<lambda>ts now tol. \<bar>now - ts\<bar> \<le> int tol),
     pl_signature_bytes = (\<lambda>s. s), pl_signature_try_from = Some\<rparr>"

definition sample_identity :: "eth_address \<Rightarrow> identity" where
  "sample_identity a = \<lparr>id_address = a, id_network_id = 1, id_nonce = 0,
     id_sign_message = (\<lambda>msg. Some (word_bytes a @ msg)), id_node_type = Storer,
     id_welcome_message = Some ''hi''\<rparr>"

definition sample_lru :: "('m, (overlay_address \<times> 'm swarm_peer) list) lru_lib" where
  "sample_lru =
    \<lparr>lr_new = (\<lambda>n. []),
     lr_get = (\<lambda>s k. (map_of s k, case map_of s k of
        Some p \<Rightarrow> (k, p) # filter (\<lambda>r. fst r \<noteq> k) s | None \<Rightarrow> s)),
     lr_insert = (\<lambda>s k p. take 32 ((k, p) # filter (\<lambda>r. fst r \<noteq> k) s))\<rparr>"

lemma map_of_take: "map_of (take n s) k \<in> {None, map_of s k}"
proof (induction s arbitrary: n)
  case (Cons r s)
  then show ?case by (cases n) auto
qed simp

lemma map_of_filter_other: "j \<noteq> k \<Longrightarrow> map_of (filter (\<lambda>r. fst r \<noteq> k) s) j = map_of s j"
  by (induction s) auto

lemma map_of_move_front: "map_of ((k, p) # filter (\<lambda>r. fst r \<noteq> k) s) j = (if j = k then Some p else map_of s j)"
  by (induction s) auto

lemma sample_lru_laws: "lru_laws (sample_lru :: ('m, (overlay_address \<times> 'm swarm_peer) list) lru_lib)"
proof -
  have ins: "map_of (take 32 ((k, p) # filter (\<lambda>r. fst r \<noteq> k) s)) j \<in> {None, if j = k then Some p else map_of s j}"
    for s :: "(overlay_address \<times> 'm swarm_peer) list" and k p j
    using map_of_take [of 32 "(k, p) # filter (\<lambda>r. fst r \<noteq> k) s" j] by (simp only: map_of_move_front)
  have get: "map_of (case map_of s k of Some p \<Rightarrow> (k, p) # filter (\<lambda>r. fst r \<noteq> k) s | None \<Rightarrow> s) j = map_of s j"
    for s :: "(overlay_address \<times> 'm swarm_peer) list" and k j
    by (simp split: option.splits add: map_of_filter_other)
  show ?thesis
    unfolding lru_laws_def sample_lru_def lru_lib.simps fst_conv snd_conv
    by (intro conjI allI) (simp, rule get, rule ins)
qed

lemma sample_peer_lib_laws: "peer_lib_laws sample_peer_lib"
  by (simp add: peer_lib_laws_def sample_peer_lib_def)

lemma sample_signer: "honest_signer sample_peer_lib (sample_identity a)"
  by (simp add: honest_signer_def sample_peer_lib_def sample_identity_def word_of_word_bytes)

definition sample_record :: "eth_address \<Rightarrow> bytes list \<Rightarrow> bytes swarm_peer" where
  "sample_record a addrs = (case peer_sign sample_peer_lib (sample_identity a) addrs 100 None of Inr p \<Rightarrow> p)"

lemma sample_record_signed:
  "addrs \<noteq> [] \<Longrightarrow> peer_sign sample_peer_lib (sample_identity a) addrs 100 None = Inr (sample_record a addrs)"
  by (simp add: sample_record_def peer_sign_def sample_identity_def Let_def)

lemma sample_overlay: "id_overlay sample_peer_lib (sample_identity a) = ucast a"
  by (simp add: id_overlay_def sample_peer_lib_def sample_identity_def)


lemma sample_record_facts:
  fixes r
  defines "r \<equiv> sample_record 5 [[4, 1], [6, 2]]"
  shows "sp_overlay r = 5" and "fst (cache_get sample_lru 5 (sp_signature r) (peer_cache_new sample_lru)) = (None :: bytes swarm_peer option)"
    and "plain_addresses sample_peer_lib [[4, 1], [6, 2]]"
    and "peer_parse sample_peer_lib (wire_of sample_peer_lib r) 1 None = Inr r"
    and "list_all (\<lambda>a. pl_last_p2p sample_peer_lib a \<noteq> None) (sp_multiaddrs r)"
proof -
  have s: "peer_sign sample_peer_lib (sample_identity 5) [[4, 1], [6, 2]] 100 None = Inr r"
    unfolding r_def by (rule sample_record_signed) simp
  show p: "plain_addresses sample_peer_lib [[4, 1], [6, 2]]" by (simp add: plain_addresses_def sample_peer_lib_def)
  show "sp_overlay r = 5" using peer_sign_fields(1) [OF s] by (simp add: sample_overlay)
  show "fst (cache_get sample_lru 5 (sp_signature r) (peer_cache_new sample_lru)) = (None :: bytes swarm_peer option)"
    using shard_less [of 5] by (simp add: cache_get_def peer_cache_new_def sample_lru_def)
  show "list_all (\<lambda>a. pl_last_p2p sample_peer_lib a \<noteq> None) (sp_multiaddrs r)"
    using peer_sign_fields(2) [OF s] by (simp add: sample_peer_lib_def)
  show "peer_parse sample_peer_lib (wire_of sample_peer_lib r) 1 None = Inr r"
    using peer_sign_parses [OF sample_peer_lib_laws sample_signer p s] by (simp add: sample_identity_def)
qed

theorem signed_record_round_trip_witness:
  "fst (validate_proto_peer sample_peer_lib sample_lru (encode_swarm_peer sample_peer_lib (sample_record 5 [[4, 1], [6, 2]])) 1 9 (peer_cache_new sample_lru))
    = Inr (sample_record 5 [[4, 1], [6, 2]])"
proof -
  have "list_all (\<lambda>a. pl_last_p2p sample_peer_lib a \<noteq> None) [[4, 1], [6, 2]]" by (simp add: sample_peer_lib_def)
  then have "fst (validate_proto_peer sample_peer_lib sample_lru (encode_swarm_peer sample_peer_lib (sample_record 5 [[4, 1], [6, 2]]))
      (id_network_id (sample_identity 5)) 9 (peer_cache_new sample_lru)) = Inr (sample_record 5 [[4, 1], [6, 2]])"
    using sample_record_facts(1,2) signed_record_round_trip
      [OF sample_peer_lib_laws sample_signer sample_record_facts(3) sample_record_signed,
       where lru = sample_lru and local_overlay = 9 and cache = "peer_cache_new sample_lru"]
    by simp
  then show ?thesis by (simp add: sample_identity_def)
qed

definition sample_hive :: "((overlay_address \<times> bytes swarm_peer) list, nat) hive" where
  "sample_hive = \<lparr>hv_limit = keyed_new 0 \<lparr>max_tokens = 10, replenish_all_every = 1000\<rparr>,
     hv_cache = peer_cache_new sample_lru\<rparr>"

theorem hive_intake_authentic_witness:
  "\<exists>peer hv'. hive_read sample_peer_lib sample_lru (sample_identity 9) Forward 0 1
      [encode_swarm_peer sample_peer_lib (sample_record 5 [[4, 1], [6, 2]])] sample_hive = ([peer], hv')
    \<and> authentic sample_peer_lib 1 peer"
proof -
  let ?r = "sample_record 5 [[4, 1], [6, 2]]"
  let ?raw = "[encode_swarm_peer sample_peer_lib ?r]"
  have grant: "fst (keyed_try_consume_n 0 1 1 (hv_limit sample_hive)) = Inr ()"
    by (simp add: sample_hive_def keyed_try_consume_n_def keyed_new_def gcra_check_def cell_from_quota_def
        elapsed_nanos_def u64_saturating_add_def u64_saturating_mul_def Let_def)
  have "fst (validate_proto_peer sample_peer_lib sample_lru (encode_swarm_peer sample_peer_lib ?r) 1 9 (peer_cache_new sample_lru)) = Inr ?r"
    using sample_record_facts by (simp add: validate_parsed [OF sample_peer_lib_laws])
  then obtain c where one: "validate_proto_peer sample_peer_lib sample_lru (encode_swarm_peer sample_peer_lib ?r) 1 9 (peer_cache_new sample_lru) = (Inr ?r, c)"
    by (cases "validate_proto_peer sample_peer_lib sample_lru (encode_swarm_peer sample_peer_lib ?r) 1 9 (peer_cache_new sample_lru)") auto
  have id: "id_network_id (sample_identity 9) = 1" by (simp add: sample_identity_def)
  obtain hv' where read: "hive_read sample_peer_lib sample_lru (sample_identity 9) Forward 0 1 ?raw sample_hive = ([?r], hv')"
    using grant one
    by (cases "keyed_try_consume_n 0 1 1 (hv_limit sample_hive)")
       (auto simp: hive_read_def Let_def id sample_overlay sample_hive_def)
  have "hive_reachable sample_peer_lib sample_lru (sample_identity 9) sample_hive"
    unfolding sample_hive_def by (rule hive_reachable.start)
  from hive_intake_authentic [OF sample_lru_laws this read] read show ?thesis by (auto simp: id)
qed

end
