(* ===== verification/Handshake.thy ===== *)
theory Handshake
  imports Peer_Record
begin

text \<open>
  The handshake of two nodes (\<^verbatim>\<open>net/handshake\<close>): the messages SYN, SYNACK and ACK with
  their codecs, what each side sends and checks, admission, and the cached self record.

  The size of an encoded message and the codec that frames it are generated and library code
  and are the record \<open>frame_lib\<close>; \<open>frame_laws\<close> states what is used of them, that a frame is
  received exactly when it is within the maximum length and that one within it is sent. A
  frame that arrives is the one that was sent. Each side is cut at the points where it waits for a message, so that the two sides
  can be composed in any order; \<open>in_synack\<close> and \<open>in_finish\<close> are together
  \<^verbatim>\<open>do_inbound_exchange\<close>, \<open>out_syn\<close> and \<open>out_ack\<close> are \<^verbatim>\<open>do_outbound_exchange\<close>. The hash of an
  address list and the clock readings are arguments.
\<close>

section \<open>Messages\<close>

datatype admission_rejection = Saturated | Blocklisted | OversaturatedNeighborhood

datatype admission_decision = Accept | Reject admission_rejection

datatype handshake_error =
    Timeout
  | ConnectionClosed
  | NetworkIdMismatch
  | MissingField string
  | FieldTooLong string nat nat
  | HsInvalidData
  | HsInvalidMultiaddr multi_addr_error
  | HsInvalidSignature
  | InvalidPeer swarm_peer_error
  | HsInvalidOverlay
  | InvalidObservedAddress
  | Protobuf
  | Io
  | UpgradeError string
  | AdmissionRejected admission_rejection

type_synonym syn_msg = bytes

record ack_msg =
  am_address :: "proto_peer option"
  am_network_id :: nat
  am_storer :: bool
  am_welcome_message :: string

record synack_msg =
  sm_syn :: "syn_msg option"
  sm_ack :: "ack_msg option"

definition encode_syn :: "('m, 'p) peer_lib \<Rightarrow> 'm \<Rightarrow> syn_msg" where
  "encode_syn lib observed = pl_to_vec lib observed"

definition decode_syn :: "('m, 'p) peer_lib \<Rightarrow> syn_msg \<Rightarrow> handshake_error + 'm" where
  "decode_syn lib proto =
    (case deserialize_multiaddrs lib proto of
       Inl e \<Rightarrow> Inl (HsInvalidMultiaddr e)
     | Inr [] \<Rightarrow> Inl (MissingField ''observed_multiaddr'')
     | Inr (a # _) \<Rightarrow> Inr a)"

definition node_type_from_wire :: "bool \<Rightarrow> swarm_node_type" where
  "node_type_from_wire storer = (if storer then Storer else Client)"

definition swarm_peer_from_proto ::
  "('m, 'p) peer_lib \<Rightarrow> proto_peer option \<Rightarrow> nat \<Rightarrow> handshake_error + 'm swarm_peer" where
  "swarm_peer_from_proto lib proto network_id =
    (case proto of
       None \<Rightarrow> Inl (MissingField ''address'')
     | Some p \<Rightarrow>
         case decode_hash_key (pp_overlay p) of
           None \<Rightarrow> Inl HsInvalidOverlay
         | Some overlay \<Rightarrow>
             case decode_hash_key (pp_nonce p) of
               None \<Rightarrow> Inl HsInvalidData
             | Some nonce \<Rightarrow>
                 case pl_signature_try_from lib (pp_signature p) of
                   None \<Rightarrow> Inl HsInvalidSignature
                 | Some signature \<Rightarrow>
                     case peer_parse lib
                       \<lparr>sw_multiaddrs_bytes = pp_multiaddrs p, sw_signature = signature,
                        sw_overlay = overlay, sw_nonce = nonce, sw_timestamp = pp_timestamp p,
                        sw_chequebook_bytes = pp_chequebook_address p\<rparr> network_id None of
                       Inl e \<Rightarrow> Inl (InvalidPeer e)
                     | Inr peer \<Rightarrow> Inr peer)"

definition welcome_message_from_proto :: "ack_msg \<Rightarrow> handshake_error + string" where
  "welcome_message_from_proto value =
    (let char_count = length (am_welcome_message value) in
     if 140 < char_count then Inl (FieldTooLong ''welcome_message'' 140 char_count)
     else Inr (am_welcome_message value))"

definition encode_ack ::
  "('m, 'p) peer_lib \<Rightarrow> 'm swarm_peer \<Rightarrow> swarm_node_type \<Rightarrow> string \<Rightarrow> nat \<Rightarrow> ack_msg" where
  "encode_ack lib peer node_type welcome_message network_id =
    \<lparr>am_address = Some (encode_swarm_peer lib peer), am_network_id = network_id,
     am_storer = requires_storage node_type, am_welcome_message = welcome_message\<rparr>"

definition decode_ack ::
  "('m, 'p) peer_lib \<Rightarrow> ack_msg \<Rightarrow> nat \<Rightarrow> handshake_error + 'm swarm_peer \<times> swarm_node_type \<times> string" where
  "decode_ack lib proto expected_network_id =
    (if am_network_id proto \<noteq> expected_network_id then Inl NetworkIdMismatch
     else case swarm_peer_from_proto lib (am_address proto) expected_network_id of
       Inl e \<Rightarrow> Inl e
     | Inr peer \<Rightarrow>
         case welcome_message_from_proto proto of
           Inl e \<Rightarrow> Inl e
         | Inr welcome_message \<Rightarrow>
             Inr (peer, node_type_from_wire (am_storer proto), welcome_message))"

definition encode_synack ::
  "('m, 'p) peer_lib \<Rightarrow> 'm \<Rightarrow> 'm swarm_peer \<Rightarrow> swarm_node_type \<Rightarrow> string \<Rightarrow> nat \<Rightarrow> synack_msg" where
  "encode_synack lib observed peer node_type welcome_message network_id =
    \<lparr>sm_syn = Some (encode_syn lib observed),
     sm_ack = Some (encode_ack lib peer node_type welcome_message network_id)\<rparr>"

definition decode_synack ::
  "('m, 'p) peer_lib \<Rightarrow> synack_msg \<Rightarrow> nat
    \<Rightarrow> handshake_error + 'm \<times> 'm swarm_peer \<times> swarm_node_type \<times> string" where
  "decode_synack lib proto expected_network_id =
    (case sm_syn proto of
       None \<Rightarrow> Inl (MissingField ''syn'')
     | Some syn \<Rightarrow>
         case decode_syn lib syn of
           Inl e \<Rightarrow> Inl e
         | Inr observed \<Rightarrow>
             case sm_ack proto of
               None \<Rightarrow> Inl (MissingField ''ack'')
             | Some proto_ack \<Rightarrow>
                 case decode_ack lib proto_ack expected_network_id of
                   Inl e \<Rightarrow> Inl e
                 | Inr (peer, node_type, welcome_message) \<Rightarrow>
                     Inr (observed, peer, node_type, welcome_message))"

section \<open>Frames\<close>

text \<open>The sizes are those of \<^verbatim>\<open>MessageWrite::get_size\<close>; the codec answers, for its maximum and
  a size, whether it sends and whether it receives such a frame.\<close>

record frame_lib =
  fl_syn_size :: "syn_msg \<Rightarrow> nat"
  fl_synack_size :: "synack_msg \<Rightarrow> nat"
  fl_ack_size :: "ack_msg \<Rightarrow> nat"
  fl_sends :: "nat \<Rightarrow> nat \<Rightarrow> bool"
  fl_receives :: "nat \<Rightarrow> nat \<Rightarrow> bool"

definition frame_laws :: "frame_lib \<Rightarrow> bool" where
  "frame_laws fl \<longleftrightarrow>
    (\<forall>buf size. fl_receives fl buf size \<longleftrightarrow> size \<le> buf) \<and> (\<forall>buf size. size \<le> buf \<longrightarrow> fl_sends fl buf size)"

definition max_handshake_buffer_size :: nat where
  "max_handshake_buffer_size = 1024"

definition framed_send :: "frame_lib \<Rightarrow> ('a \<Rightarrow> nat) \<Rightarrow> 'a \<Rightarrow> handshake_error + 'a" where
  "framed_send fl size_of msg =
    (if fl_sends fl max_handshake_buffer_size (size_of msg) then Inr msg else Inl Protobuf)"

definition framed_recv :: "frame_lib \<Rightarrow> ('a \<Rightarrow> nat) \<Rightarrow> 'a \<Rightarrow> handshake_error + 'a" where
  "framed_recv fl size_of msg =
    (if fl_receives fl max_handshake_buffer_size (size_of msg) then Inr msg else Inl Protobuf)"

section \<open>The two sides\<close>

record ('m, 'p) handshake_protocol =
  hp_identity :: identity
  hp_peer_id :: 'p
  hp_local_peer_id :: "'p option"
  hp_remote_addr :: 'm
  hp_self_record :: "'m swarm_peer option"
  hp_admission_control ::
    "((overlay_address \<Rightarrow> swarm_node_type \<Rightarrow> connection_direction \<Rightarrow> admission_decision)
      \<times> connection_direction) option"

record ('m, 'p) handshake_info =
  hi_peer_id :: 'p
  hi_swarm_peer :: "'m swarm_peer"
  hi_node_type :: swarm_node_type
  hi_welcome_message :: string
  hi_observed_multiaddr :: 'm

definition validate_observed_addr ::
  "('m, 'p) peer_lib \<Rightarrow> 'm \<Rightarrow> 'p option \<Rightarrow> handshake_error + unit" where
  "validate_observed_addr lib observed local_peer_id =
    (case local_peer_id of
       None \<Rightarrow> Inr ()
     | Some expected \<Rightarrow> if pl_last_p2p lib observed = Some expected then Inr ()
                        else Inl InvalidObservedAddress)"

definition select_local_addrs :: "'m list \<Rightarrow> 'm \<Rightarrow> 'm list \<times> bool" where
  "select_local_addrs additional_addrs observed_addr =
    (let addrs = filter (\<lambda>a. a \<noteq> observed_addr) additional_addrs in
     if addrs \<noteq> [] then (addrs, False) else ([observed_addr], True))"

definition prepare_local_peer ::
  "('m, 'p) peer_lib \<Rightarrow> identity \<Rightarrow> int \<Rightarrow> 'm \<Rightarrow> handshake_error + 'm swarm_peer" where
  "prepare_local_peer lib identity now observed_addr =
    (case peer_sign lib identity (fst (select_local_addrs [] observed_addr)) now None of
       Inl e \<Rightarrow> Inl (InvalidPeer e)
     | Inr peer \<Rightarrow> Inr peer)"

definition local_peer_of ::
  "('m, 'p) peer_lib \<Rightarrow> ('m, 'p) handshake_protocol \<Rightarrow> int \<Rightarrow> 'm \<Rightarrow> handshake_error + 'm swarm_peer" where
  "local_peer_of lib hp now observed =
    (case hp_self_record hp of
       Some record \<Rightarrow> Inr record
     | None \<Rightarrow> prepare_local_peer lib (hp_identity hp) now observed)"

definition evaluate_admission ::
  "('m, 'p) handshake_protocol \<Rightarrow> ('m, 'p) handshake_info \<Rightarrow> handshake_error + unit" where
  "evaluate_admission hp info =
    (case hp_admission_control hp of
       None \<Rightarrow> Inr ()
     | Some (ac, direction) \<Rightarrow>
         case ac (sp_overlay (hi_swarm_peer info)) (hi_node_type info) direction of
           Accept \<Rightarrow> Inr ()
         | Reject reason \<Rightarrow> Inl (AdmissionRejected reason))"

text \<open>The address we report to the other side: where we see it, with its identity.\<close>

definition reported_addr :: "('m, 'p) peer_lib \<Rightarrow> ('m, 'p) handshake_protocol \<Rightarrow> 'm" where
  "reported_addr lib hp =
    (let addr = hp_remote_addr hp;
         addr = (if pl_last_p2p lib addr \<noteq> None then pl_pop lib addr else addr)
     in pl_with_p2p lib addr (hp_peer_id hp))"

definition own_welcome :: "identity \<Rightarrow> string" where
  "own_welcome identity = (case id_welcome_message identity of Some w \<Rightarrow> w | None \<Rightarrow> '''')"


definition own_synack ::
  "('m, 'p) peer_lib \<Rightarrow> ('m, 'p) handshake_protocol \<Rightarrow> 'm swarm_peer \<Rightarrow> synack_msg" where
  "own_synack lib hp local_peer =
    encode_synack lib (reported_addr lib hp) local_peer (id_node_type (hp_identity hp))
      (own_welcome (hp_identity hp)) (id_network_id (hp_identity hp))"

definition own_ack ::
  "('m, 'p) peer_lib \<Rightarrow> ('m, 'p) handshake_protocol \<Rightarrow> 'm swarm_peer \<Rightarrow> ack_msg" where
  "own_ack lib hp local_peer =
    encode_ack lib local_peer (id_node_type (hp_identity hp)) (own_welcome (hp_identity hp))
      (id_network_id (hp_identity hp))"

definition in_synack ::
  "frame_lib \<Rightarrow> ('m, 'p) peer_lib \<Rightarrow> ('m, 'p) handshake_protocol \<Rightarrow> int \<Rightarrow> syn_msg
    \<Rightarrow> handshake_error + 'm \<times> synack_msg" where
  "in_synack fl lib hp now frame =
    (case framed_recv fl (fl_syn_size fl) frame of
       Inl e \<Rightarrow> Inl e
     | Inr syn \<Rightarrow>
         case decode_syn lib syn of
           Inl e \<Rightarrow> Inl e
         | Inr observed \<Rightarrow>
             case validate_observed_addr lib observed (hp_local_peer_id hp) of
               Inl e \<Rightarrow> Inl e
             | Inr _ \<Rightarrow>
                 case local_peer_of lib hp now observed of
                   Inl e \<Rightarrow> Inl e
                 | Inr local_peer \<Rightarrow>
                     case framed_send fl (fl_synack_size fl) (own_synack lib hp local_peer) of
                       Inl e \<Rightarrow> Inl e
                     | Inr synack \<Rightarrow> Inr (observed, synack))"

definition out_ack ::
  "frame_lib \<Rightarrow> ('m, 'p) peer_lib \<Rightarrow> ('m, 'p) handshake_protocol \<Rightarrow> int \<Rightarrow> synack_msg
    \<Rightarrow> handshake_error + ('m, 'p) handshake_info \<times> ack_msg" where
  "out_ack fl lib hp now frame =
    (case framed_recv fl (fl_synack_size fl) frame of
       Inl e \<Rightarrow> Inl e
     | Inr synack \<Rightarrow>
         case decode_synack lib synack (id_network_id (hp_identity hp)) of
           Inl e \<Rightarrow> Inl e
         | Inr (observed, swarm_peer, node_type, welcome_message) \<Rightarrow>
             case validate_observed_addr lib observed (hp_local_peer_id hp) of
               Inl e \<Rightarrow> Inl e
             | Inr _ \<Rightarrow>
                 case local_peer_of lib hp now observed of
                   Inl e \<Rightarrow> Inl e
                 | Inr local_peer \<Rightarrow>
                     let info = \<lparr>hi_peer_id = hp_peer_id hp, hi_swarm_peer = swarm_peer,
                           hi_node_type = node_type, hi_welcome_message = welcome_message,
                           hi_observed_multiaddr = observed\<rparr>
                     in case evaluate_admission hp info of
                          Inl e \<Rightarrow> Inl e
                        | Inr _ \<Rightarrow>
                            case framed_send fl (fl_ack_size fl) (own_ack lib hp local_peer) of
                              Inl e \<Rightarrow> Inl e
                            | Inr ack \<Rightarrow> Inr (info, ack))"

definition in_finish ::
  "frame_lib \<Rightarrow> ('m, 'p) peer_lib \<Rightarrow> ('m, 'p) handshake_protocol \<Rightarrow> 'm \<Rightarrow> ack_msg
    \<Rightarrow> handshake_error + ('m, 'p) handshake_info" where
  "in_finish fl lib hp observed frame =
    (case framed_recv fl (fl_ack_size fl) frame of
       Inl e \<Rightarrow> Inl e
     | Inr ack \<Rightarrow>
         case decode_ack lib ack (id_network_id (hp_identity hp)) of
           Inl e \<Rightarrow> Inl e
         | Inr (swarm_peer, node_type, welcome_message) \<Rightarrow>
             let info = \<lparr>hi_peer_id = hp_peer_id hp, hi_swarm_peer = swarm_peer,
                   hi_node_type = node_type, hi_welcome_message = welcome_message,
                   hi_observed_multiaddr = observed\<rparr>
             in case evaluate_admission hp info of Inl e \<Rightarrow> Inl e | Inr _ \<Rightarrow> Inr info)"

section \<open>The self record\<close>

record 'm self_record_cell =
  cs_fingerprint :: nat
  cs_signed_at :: int
  cs_record :: "'m swarm_peer"

definition needs_resign :: "'m self_record_cell option \<Rightarrow> nat \<Rightarrow> int \<Rightarrow> nat \<Rightarrow> bool" where
  "needs_resign cached fp now refresh =
    (case cached of
       None \<Rightarrow> True
     | Some c \<Rightarrow>
         if cs_fingerprint c \<noteq> fp then True
         else min (int refresh) i64_max \<le> i64_clamp (now - cs_signed_at c))"

text \<open>The second check runs under the write lock, on the same cell when nothing intervenes;
  \<open>cell\<close> is what the fast path read and \<open>guard\<close> what the lock protects.\<close>

definition cached_self_record ::
  "('m, 'p) peer_lib \<Rightarrow> identity \<Rightarrow> ('m list \<Rightarrow> nat) \<Rightarrow> 'm list \<Rightarrow> int
    \<Rightarrow> 'm self_record_cell option \<Rightarrow> 'm self_record_cell option
    \<Rightarrow> 'm swarm_peer option \<times> 'm self_record_cell option" where
  "cached_self_record lib identity fingerprint addrs now cell guard =
    (if addrs = [] then (None, guard)
     else
       let fp = fingerprint addrs in
       case (if needs_resign cell fp now 3600 then None else cell) of
         Some cached \<Rightarrow> (Some (cs_record cached), guard)
       | None \<Rightarrow>
           case (if needs_resign guard fp now 3600 then None else guard) of
             Some cached \<Rightarrow> (Some (cs_record cached), guard)
           | None \<Rightarrow>
               case peer_sign lib identity addrs now None of
                 Inr record \<Rightarrow>
                   (Some record, Some \<lparr>cs_fingerprint = fp, cs_signed_at = now, cs_record = record\<rparr>)
               | Inl _ \<Rightarrow> (None, guard))"

section \<open>Messages survive their encoding\<close>

lemma decode_encode_syn:
  assumes "peer_lib_laws lib" and "plain_addresses lib [a]"
  shows "decode_syn lib (encode_syn lib a) = Inr a"
  using multiaddrs_round_trip [OF assms]
  by (simp add: decode_syn_def encode_syn_def serialize_multiaddrs_def)

lemma swarm_peer_from_proto_parsed:
  assumes "peer_lib_laws lib" and "peer_parse lib (wire_of lib peer) network_id None = Inr peer"
  shows "swarm_peer_from_proto lib (Some (encode_swarm_peer lib peer)) network_id = Inr peer"
  using assms
  by (simp add: swarm_peer_from_proto_def encode_swarm_peer_def hash_key.dec_enc wire_of_def peer_lib_laws_def)

lemma decode_encode_ack:
  assumes "peer_lib_laws lib" and "peer_parse lib (wire_of lib peer) network_id None = Inr peer"
    and "length w \<le> 140"
  shows "decode_ack lib (encode_ack lib peer t w network_id) network_id
    = Inr (peer, node_type_from_wire (requires_storage t), w)"
  using swarm_peer_from_proto_parsed [OF assms(1,2)] assms(3)
  by (simp add: decode_ack_def encode_ack_def welcome_message_from_proto_def Let_def)


section \<open>Two honest sides complete\<close>


definition meets :: "('m, 'p) peer_lib \<Rightarrow> ('m, 'p) handshake_protocol \<Rightarrow> ('m, 'p) handshake_protocol \<Rightarrow> bool" where
  "meets lib hp other \<longleftrightarrow>
    id_network_id (hp_identity hp) = id_network_id (hp_identity other)
    \<and> plain_addresses lib [reported_addr lib hp]
    \<and> (\<forall>p. hp_local_peer_id other = Some p \<longrightarrow> p = hp_peer_id hp)"


definition frames_fit ::
  "frame_lib \<Rightarrow> ('m, 'p) peer_lib \<Rightarrow> ('m, 'p) handshake_protocol \<Rightarrow> int \<Rightarrow> ('m, 'p) handshake_protocol \<Rightarrow> int \<Rightarrow> bool" where
  "frames_fit fl lib out now_out inn now_in \<longleftrightarrow>
    fl_syn_size fl (encode_syn lib (reported_addr lib out)) \<le> max_handshake_buffer_size
    \<and> (\<forall>p. local_peer_of lib inn now_in (reported_addr lib out) = Inr p \<longrightarrow>
        fl_synack_size fl (own_synack lib inn p) \<le> max_handshake_buffer_size)
    \<and> (\<forall>p. local_peer_of lib out now_out (reported_addr lib inn) = Inr p \<longrightarrow>
        fl_ack_size fl (own_ack lib out p) \<le> max_handshake_buffer_size)"

lemma framed_within:
  "frame_laws fl \<Longrightarrow> size_of msg \<le> max_handshake_buffer_size \<Longrightarrow>
    framed_send fl size_of msg = Inr msg \<and> framed_recv fl size_of msg = Inr msg"
  by (simp add: frame_laws_def framed_send_def framed_recv_def)

lemma framed_send_Inr: "framed_send fl size_of msg = Inr m \<Longrightarrow> m = msg"
  and framed_recv_Inr: "framed_recv fl size_of msg = Inr m \<Longrightarrow> m = msg"
  by (simp_all add: framed_send_def framed_recv_def split: if_splits)

lemma reported_addr_id:
  "peer_lib_laws lib \<Longrightarrow> pl_last_p2p lib (reported_addr lib hp) = Some (hp_peer_id hp)"
  by (simp add: reported_addr_def peer_lib_laws_def Let_def)



lemma observed_validates:
  "peer_lib_laws lib \<Longrightarrow> meets lib hp other \<Longrightarrow>
    validate_observed_addr lib (reported_addr lib hp) (hp_local_peer_id other) = Inr ()"
  by (auto simp: validate_observed_addr_def meets_def reported_addr_id split: option.splits)



text \<open>A message longer than the buffer is refused by its receiver, whoever sent it.\<close>

lemma oversized_frame_refused:
  assumes "frame_laws fl"
  shows "max_handshake_buffer_size < fl_syn_size fl syn \<Longrightarrow> in_synack fl lib hp now syn = Inl Protobuf"
    and "max_handshake_buffer_size < fl_synack_size fl synack \<Longrightarrow> out_ack fl lib hp now synack = Inl Protobuf"
    and "max_handshake_buffer_size < fl_ack_size fl ack \<Longrightarrow> in_finish fl lib hp observed ack = Inl Protobuf"
  using assms by (simp_all add: frame_laws_def framed_recv_def in_synack_def out_ack_def in_finish_def)

section \<open>What a completed handshake establishes\<close>

lemma decode_ack_authentic:
  assumes "decode_ack lib ack network_id = Inr (peer, t, w)"
  shows "authentic lib network_id peer \<and> t \<noteq> Bootnode \<and> length w \<le> 140"
  using assms
  by (auto simp: decode_ack_def swarm_peer_from_proto_def welcome_message_from_proto_def node_type_from_wire_def
      Let_def dest!: peer_parse_authentic(1) split: if_splits option.splits sum.splits)

lemma evaluate_admission_accepts:
  "evaluate_admission hp info = Inr u \<Longrightarrow> hp_admission_control hp = Some (ac, dir) \<Longrightarrow>
    ac (sp_overlay (hi_swarm_peer info)) (hi_node_type info) dir = Accept"
  by (auto simp: evaluate_admission_def split: admission_decision.splits)

definition vouched :: "('m, 'p) peer_lib \<Rightarrow> ('m, 'p) handshake_protocol \<Rightarrow> ('m, 'p) handshake_info \<Rightarrow> bool" where
  "vouched lib hp info \<longleftrightarrow>
    authentic lib (id_network_id (hp_identity hp)) (hi_swarm_peer info)
    \<and> hi_node_type info \<noteq> Bootnode \<and> length (hi_welcome_message info) \<le> 140
    \<and> (\<forall>ac dir. hp_admission_control hp = Some (ac, dir) \<longrightarrow>
        ac (sp_overlay (hi_swarm_peer info)) (hi_node_type info) dir = Accept)"

lemma decode_synack_parts:
  "decode_synack lib synack n = Inr (a, peer, t, w) \<Longrightarrow>
    \<exists>ack. sm_ack synack = Some ack \<and> decode_ack lib ack n = Inr (peer, t, w)"
  by (auto simp: decode_synack_def split: option.splits sum.splits)

text \<open>C27. Whatever the other side sends, a side that completes has a record that is signed over
  its own fields by the key its overlay is derived from on our network, a role that is not
  a bootnode's, a greeting of at most 140 characters, and the consent of admission control;
  a side that knows its identity has also seen it in the address reported to it.\<close>

theorem handshake_authenticates:
  "(out_ack fl lib hp now synack = Inr (info, ack) \<longrightarrow>
      vouched lib hp info
      \<and> (\<forall>p. hp_local_peer_id hp = Some p \<longrightarrow> pl_last_p2p lib (hi_observed_multiaddr info) = Some p))
    \<and> (in_synack fl lib hp now syn = Inr (observed, reply) \<longrightarrow> in_finish fl lib hp observed ack' = Inr info' \<longrightarrow>
      vouched lib hp info'
      \<and> (\<forall>p. hp_local_peer_id hp = Some p \<longrightarrow> pl_last_p2p lib (hi_observed_multiaddr info') = Some p))"
proof (intro conjI impI)
  assume r: "out_ack fl lib hp now synack = Inr (info, ack)"
  then obtain a peer t w where d: "decode_synack lib synack (id_network_id (hp_identity hp)) = Inr (a, peer, t, w)"
    and i: "info = \<lparr>hi_peer_id = hp_peer_id hp, hi_swarm_peer = peer, hi_node_type = t,
        hi_welcome_message = w, hi_observed_multiaddr = a\<rparr>"
    and v: "validate_observed_addr lib a (hp_local_peer_id hp) = Inr ()"
    and e: "evaluate_admission hp info = Inr ()"
    by (auto simp: out_ack_def Let_def split: sum.splits dest!: framed_recv_Inr)
  show "vouched lib hp info"
    using decode_synack_parts [OF d] decode_ack_authentic evaluate_admission_accepts [OF e]
    by (fastforce simp: vouched_def i)
  show "\<forall>p. hp_local_peer_id hp = Some p \<longrightarrow> pl_last_p2p lib (hi_observed_multiaddr info) = Some p"
    using v by (auto simp: validate_observed_addr_def i split: if_splits)
next
  assume s: "in_synack fl lib hp now syn = Inr (observed, reply)" and r: "in_finish fl lib hp observed ack' = Inr info'"
  obtain peer t w where d: "decode_ack lib ack' (id_network_id (hp_identity hp)) = Inr (peer, t, w)"
    and i: "info' = \<lparr>hi_peer_id = hp_peer_id hp, hi_swarm_peer = peer, hi_node_type = t,
        hi_welcome_message = w, hi_observed_multiaddr = observed\<rparr>"
    and e: "evaluate_admission hp info' = Inr ()"
    using r by (auto simp: in_finish_def Let_def split: sum.splits dest!: framed_recv_Inr)
  show "vouched lib hp info'"
    using decode_ack_authentic [OF d] evaluate_admission_accepts [OF e] by (fastforce simp: vouched_def i)
  have "validate_observed_addr lib observed (hp_local_peer_id hp) = Inr ()"
    using s by (auto simp: in_synack_def split: sum.splits)
  then show "\<forall>p. hp_local_peer_id hp = Some p \<longrightarrow> pl_last_p2p lib (hi_observed_multiaddr info') = Some p"
    by (auto simp: validate_observed_addr_def i split: if_splits)
qed

text \<open>The record is not tied to the connection: a side that accepts it from one peer accepts
  it from any other that relays the same message.\<close>

lemma relayed_record_accepted:
  assumes "in_finish fl lib hp observed ack = Inr info"
  shows "in_finish fl lib (hp\<lparr>hp_peer_id := p\<rparr>) observed ack = Inr (info\<lparr>hi_peer_id := p\<rparr>)"
  using assms
  by (auto simp: in_finish_def evaluate_admission_def Let_def split: sum.splits option.splits admission_decision.splits)

section \<open>The cached self record\<close>

definition cell_ok :: "('m, 'p) peer_lib \<Rightarrow> identity \<Rightarrow> ('m list \<Rightarrow> nat) \<Rightarrow> 'm self_record_cell option \<Rightarrow> bool" where
  "cell_ok lib identity fingerprint cell \<longleftrightarrow>
    (\<forall>c. cell = Some c \<longrightarrow>
      cs_fingerprint c = fingerprint (sp_multiaddrs (cs_record c)) \<and> cs_signed_at c = sp_timestamp (cs_record c)
      \<and> peer_sign lib identity (sp_multiaddrs (cs_record c)) (cs_signed_at c) None = Inr (cs_record c))"

lemma self_record_reused:
  assumes "cell_ok lib identity fingerprint (Some c)" and "\<not> needs_resign (Some c) (fingerprint addrs) now 3600"
    and "fingerprint (sp_multiaddrs (cs_record c)) = fingerprint addrs \<Longrightarrow> sp_multiaddrs (cs_record c) = addrs"
  shows "sp_multiaddrs (cs_record c) = addrs \<and> now < sp_timestamp (cs_record c) + 3600
    \<and> peer_sign lib identity addrs (sp_timestamp (cs_record c)) None = Inr (cs_record c)"
  using assms
  by (auto simp: cell_ok_def needs_resign_def i64_clamp_def split: if_splits)

text \<open>The record a node advertises to a peer is signed by it over exactly the addresses
  chosen for that peer, and less than an hour old, as long as the hash of the address lists
  does not collide; a record that still serves is handed out unchanged.\<close>

lemma self_record_fresh:
  assumes cells: "cell_ok lib identity fingerprint cell" "cell_ok lib identity fingerprint guard"
    and inj: "\<And>c. cell = Some c \<or> guard = Some c \<Longrightarrow>
      fingerprint (sp_multiaddrs (cs_record c)) = fingerprint addrs \<Longrightarrow> sp_multiaddrs (cs_record c) = addrs"
    and r: "cached_self_record lib identity fingerprint addrs now cell guard = (rec, guard')"
  shows "cell_ok lib identity fingerprint guard'
    \<and> (\<forall>peer. rec = Some peer \<longrightarrow>
        sp_multiaddrs peer = addrs \<and> now < sp_timestamp peer + 3600
        \<and> peer_sign lib identity addrs (sp_timestamp peer) None = Inr peer)
    \<and> (\<forall>c. cell = Some c \<longrightarrow> addrs \<noteq> [] \<longrightarrow> \<not> needs_resign cell (fingerprint addrs) now 3600 \<longrightarrow>
        rec = Some (cs_record c) \<and> guard' = guard)"
proof (cases "addrs = []")
  case True
  then show ?thesis using r cells by (simp add: cached_self_record_def)
next
  case addrs: False
  show ?thesis
  proof (cases "needs_resign cell (fingerprint addrs) now 3600")
    case False
    then obtain c where c: "cell = Some c" by (cases cell) (simp_all add: needs_resign_def)
    then have "rec = Some (cs_record c) \<and> guard' = guard"
      using r addrs False by (simp add: cached_self_record_def Let_def)
    then show ?thesis
      using cells(2) self_record_reused [of lib identity fingerprint c addrs now] cells(1) False inj [of c] c by auto
  next
    case stale: True
    show ?thesis
    proof (cases "needs_resign guard (fingerprint addrs) now 3600")
      case False
      then obtain c where c: "guard = Some c" by (cases guard) (simp_all add: needs_resign_def)
      then have "rec = Some (cs_record c) \<and> guard' = guard"
        using r addrs stale False by (simp add: cached_self_record_def Let_def)
      then show ?thesis
        using cells(2) self_record_reused [of lib identity fingerprint c addrs now] False inj [of c] c stale by auto
    next
      case True
      show ?thesis
      proof (cases "peer_sign lib identity addrs now None")
        case (Inl e)
        then show ?thesis using r addrs stale True cells by (auto simp: cached_self_record_def Let_def)
      next
        case (Inr peer)
        then have "rec = Some peer" "guard' = Some \<lparr>cs_fingerprint = fingerprint addrs, cs_signed_at = now, cs_record = peer\<rparr>"
          using r addrs stale True by (simp_all add: cached_self_record_def Let_def)
        then show ?thesis
          using peer_sign_fields(2,3) [OF Inr] Inr stale by (auto simp: cell_ok_def)
      qed
    qed
  qed
qed

section \<open>A concrete exchange\<close>

definition sample_side :: "eth_address \<Rightarrow> 8 word \<Rightarrow> 8 word \<Rightarrow> bytes swarm_peer option \<Rightarrow> (bytes, 8 word) handshake_protocol" where
  "sample_side a own remote r =
    \<lparr>hp_identity = sample_identity a, hp_peer_id = remote, hp_local_peer_id = Some own,
     hp_remote_addr = [4, 127], hp_self_record = r,
     hp_admission_control = Some ((\<lambda>_ _ _. Accept), Inbound)\<rparr>"

definition sample_frames :: frame_lib where
  "sample_frames =
    \<lparr>fl_syn_size = length, fl_synack_size = (\<lambda>m. case sm_ack m of Some a \<Rightarrow> 400 + length (am_welcome_message a) | None \<Rightarrow> 40),
     fl_ack_size = (\<lambda>a. 300 + length (am_welcome_message a)),
     fl_sends = (\<lambda>_ _. True), fl_receives = (\<lambda>buf size. size \<le> buf)\<rparr>"

lemma sample_frame_laws: "frame_laws sample_frames"
  by (simp add: frame_laws_def sample_frames_def)

lemma sample_frames_fit:
  "frames_fit sample_frames sample_peer_lib (sample_side a p q r) t (sample_side b p' q' s) t'"
  by (simp add: frames_fit_def sample_frames_def own_synack_def own_ack_def encode_synack_def encode_ack_def
      encode_syn_def sample_side_def sample_identity_def own_welcome_def reported_addr_def sample_peer_lib_def
      max_handshake_buffer_size_def Let_def)



lemma sample_sides_meet: "meets sample_peer_lib (sample_side a p q r) (sample_side b q p s)"
  by (simp add: meets_def sample_side_def sample_identity_def reported_addr_def sample_peer_lib_def
      plain_addresses_def Let_def)


theorem handshake_authenticates_witness:
  "\<exists>syn observed reply ack info.
    in_synack sample_frames sample_peer_lib (sample_side 9 2 1 (Some (sample_record 9 [[4, 1], [6, 2]]))) 70 syn
      = Inr (observed, reply)
    \<and> in_finish sample_frames sample_peer_lib (sample_side 9 2 1 (Some (sample_record 9 [[4, 1], [6, 2]]))) observed ack
      = Inr info
    \<and> authentic sample_peer_lib 1 (hi_swarm_peer info)"
proof -
  let ?in = "sample_side 9 2 1 (Some (sample_record 9 [[4, 1], [6, 2]]))" and ?out = "sample_side 5 1 2 None"
  let ?ack = "encode_ack sample_peer_lib (sample_record 5 [[4, 1], [6, 2]]) Storer ''hi'' 1"
  let ?syn = "encode_syn sample_peer_lib (reported_addr sample_peer_lib ?out)"
  have m: "meets sample_peer_lib ?out ?in" by (rule sample_sides_meet)
  then have d: "decode_syn sample_peer_lib ?syn = Inr (reported_addr sample_peer_lib ?out)"
    by (intro decode_encode_syn [OF sample_peer_lib_laws]) (simp add: meets_def)
  have fr: "framed_recv sample_frames (fl_syn_size sample_frames) ?syn = Inr ?syn"
    using sample_frames_fit [of 5 1 2 None 0 9 2 1 None 0]
    by (intro framed_within [OF sample_frame_laws, THEN conjunct2]) (simp add: frames_fit_def)
  have sends: "framed_send sample_frames size_of msg = Inr msg" for size_of and msg :: synack_msg
    by (simp add: framed_send_def sample_frames_def)
  have own: "local_peer_of sample_peer_lib ?in 70 x = Inr (sample_record 9 [[4, 1], [6, 2]])" for x
    by (simp add: local_peer_of_def sample_side_def)
  obtain reply where s: "in_synack sample_frames sample_peer_lib ?in 70 ?syn = Inr (reported_addr sample_peer_lib ?out, reply)"
    using observed_validates [OF sample_peer_lib_laws m]
    by (simp add: in_synack_def fr d own sends)
  have "decode_ack sample_peer_lib ?ack 1 = Inr (sample_record 5 [[4, 1], [6, 2]], Storer, ''hi'')"
    using decode_encode_ack [OF sample_peer_lib_laws sample_record_facts(4), of "''hi''" Storer]
    by (simp add: node_type_from_wire_def)
  moreover have "framed_recv sample_frames (fl_ack_size sample_frames) ?ack = Inr ?ack"
    by (intro framed_within [OF sample_frame_laws, THEN conjunct2])
       (simp add: sample_frames_def encode_ack_def max_handshake_buffer_size_def)
  ultimately obtain info where f: "in_finish sample_frames sample_peer_lib ?in (reported_addr sample_peer_lib ?out) ?ack = Inr info"
    by (simp add: in_finish_def evaluate_admission_def sample_side_def sample_identity_def Let_def)
  have "vouched sample_peer_lib ?in info" using handshake_authenticates [THEN conjunct2, rule_format, OF s f] by simp
  then show ?thesis using s f by (auto simp: vouched_def sample_side_def sample_identity_def)
qed

end
