(* ===== verification/Spec2Isabelle.thy ===== *)
theory Spec2Isabelle
  imports Pseudosettle Swap Reserve_Control Interval_Store Self_Limiter Peer_Registry Peer_Manager_Props Handshake
begin

text \<open>
  A verification library for Vertex, a node of the Ethereum Swarm network.

  \<^bold>\<open>Parts.\<close> A node serves and requests chunks. Every exchange with a peer is priced
  (\<^verbatim>\<open>accounting/pricing\<close>) and entered in a per-peer ledger (\<^verbatim>\<open>accounting/core\<close>): a
  reservation is taken before the exchange, applied when it completes and released when
  it does not. Settlement services (\<^verbatim>\<open>accounting/pseudosettle\<close>, \<^verbatim>\<open>accounting/swap\<close>) later
  move the balance towards zero. A storing node keeps chunks with their postage stamps
  in a reserve (\<^verbatim>\<open>swarm/storer\<close>): a stamp is admitted and its slot arbitrated
  (\<^verbatim>\<open>swarm/postage\<close>), the chunk is entered in a group of tables in one transaction, and
  the radius controller and the expiry sweep evict from it. Towards the network a node
  remembers peers with their bans, scores and dial backoff (\<^verbatim>\<open>peers/peer-manager\<close>), sorts
  them by proximity into bins, keeps one live connection per identity
  (\<^verbatim>\<open>net/peer/registry\<close>), limits what it sends and accepts (\<^verbatim>\<open>net/ratelimiter\<close>) and
  decides how many connections each bin should have (\<^verbatim>\<open>topology/src/kademlia\<close>).

  \<^bold>\<open>Theories of the accounting half\<close> (paths under \<^verbatim>\<open>src/crates/swarm\<close>).
  \<^item> \<open>Vertex_Prelude\<close>: machine-integer ranges, shared lemmas, fact collections.
  \<^item> \<open>Accounting_Unit\<close>: \<^verbatim>\<open>Au\<close>, \<^verbatim>\<open>Debt\<close> and \<^verbatim>\<open>Admission\<close> of
    \<^verbatim>\<open>api/src/accounting.rs\<close>. An \<^verbatim>\<open>i64\<close> is an \<open>int\<close> with the
    clamp written out, an unsigned integer a \<open>nat\<close> with its bound written out.
  \<^item> \<open>Accounting_Config\<close>: configuration, thresholds and the fixed pricer.
  \<^item> \<open>Accounting\<close>: \<^verbatim>\<open>PeerState\<close>, \<^verbatim>\<open>Reservation\<close>, \<^verbatim>\<open>Accounting\<close>, the peer handles and
    the admission band. Shared states live in a store and are held by reference.
  \<^item> \<open>Accounting_Safety\<close>: the operations as a step relation, its invariant and the
    safety properties.
  \<^item> \<open>Peer_Ledger\<close>: the locale of what the settlement services rely on, interpreted on
    per-peer accounting.
  \<^item> \<open>Pseudosettle\<close>: the time-based settlement service, both handlers whole.
  \<^item> \<open>Swap\<close>: the cheque settlement service, both handlers whole, and signature checks
    over a record of cryptographic functions.

  \<^bold>\<open>Theories of the storing half.\<close>
  \<^item> \<open>Byte_Codec\<close>: big-endian integers and fixed-layout keys; the locale \<open>key_codec\<close> is
    the contract of the trait \<^verbatim>\<open>Encode\<close>/\<^verbatim>\<open>Decode\<close> of a table key.
  \<^item> \<open>Ordered_Table\<close>: the tables, transactions, cursors and secondary indexes of
    \<^verbatim>\<open>crates/storage/src/traits.rs\<close>, as the traits document them.
  \<^item> \<open>Reserve_Schema\<close>: keys and rows of \<^verbatim>\<open>storer/src/db_reserve/schema.rs\<close>, with an
    interpretation of \<open>key_codec\<close> for every key.
  \<^item> \<open>Postage\<close>: \<^verbatim>\<open>postage/src/admission.rs\<close>, \<^verbatim>\<open>stampindex.rs\<close> and \<^verbatim>\<open>store.rs\<close>.
  \<^item> \<open>Capacity_Reserve\<close>, \<open>Interval_Store\<close>: \<^verbatim>\<open>storer/src/reserve.rs\<close>, \<^verbatim>\<open>db_store.rs\<close> and
    \<^verbatim>\<open>db_intervals.rs\<close>.
  \<^item> \<open>Db_Reserve\<close>: every operation of \<^verbatim>\<open>storer/src/db_reserve\<close>; \<open>Db_Reserve_Inv\<close> its
    invariant across the six tables, \<open>Db_Reserve_Evict\<close> the cursor loops of eviction and
    \<open>Db_Reserve_Props\<close> the step relation and the properties.
  \<^item> \<open>Radius\<close>: \<^verbatim>\<open>storer/src/radius.rs\<close> over the locale \<open>bin_reserve\<close>; \<open>Reserve_Control\<close>
    interprets it, and \<open>total_reserve\<close> that adds the total over the bins, on the persisting
    reserve and models \<^verbatim>\<open>storer/src/expiry.rs\<close>.

  \<^bold>\<open>Theories of the networking half.\<close>
  \<^item> \<open>Rate_Limiter\<close>, \<open>Self_Limiter\<close>: \<^verbatim>\<open>crates/net/ratelimiter\<close>, the bucket, the keyed
    limiter and the sending throttle with its parked requests. The locales \<open>gcra_bucket\<close> and
    \<open>gcra_reset_bucket\<close> are what a bucket, a key of the limiter and a key of the throttle
    have in common.
  \<^item> \<open>Peer_Registry\<close>: \<^verbatim>\<open>crates/net/peer/registry\<close>, the connection states and both maps.
    \<open>registry_run\<close> is any sequence of its calls; an orderly one is a restriction of it.
  \<^item> \<open>Kademlia_Limits\<close>: \<^verbatim>\<open>topology/src/kademlia/limits.rs\<close>, \<^verbatim>\<open>phase.rs\<close> and \<^verbatim>\<open>config.rs\<close>.
  \<^item> \<open>Proximity_Index\<close>: \<^verbatim>\<open>peers/peer-manager/src/proximity_index.rs\<close>.
  \<^item> \<open>Peer_Entry\<close>: the record of one peer (\<^verbatim>\<open>entry.rs\<close>) with its backoff
    (\<^verbatim>\<open>crates/net/peer/backoff\<close>), score (\<^verbatim>\<open>crates/net/peer/score\<close>, \<^verbatim>\<open>peers/peer-score\<close>) and
    the timestamp policy for gossip (\<^verbatim>\<open>peers/peer/src/timestamp_policy.rs\<close>).
  \<^item> \<open>Peer_Manager\<close>: \<^verbatim>\<open>manager.rs\<close>, \<^verbatim>\<open>scoring.rs\<close>, \<^verbatim>\<open>maintenance.rs\<close> and
    \<^verbatim>\<open>snapshot_store.rs\<close>; \<open>Peer_Manager_Props\<close> its invariant, the step relation and the
    properties.
  \<^item> \<open>Peer_Record\<close>: the signed record of a peer and its byte form (\<^verbatim>\<open>peers/peer\<close>) and the
    intake of gossip (\<^verbatim>\<open>net/hive/src/protocol.rs\<close>, \<^verbatim>\<open>cache.rs\<close>, \<^verbatim>\<open>codec.rs\<close>).
  \<^item> \<open>Handshake\<close>: both sides of \<^verbatim>\<open>net/handshake/src/protocol.rs\<close> up to each message they
    send, the codecs, the frames of \<^verbatim>\<open>crates/net/codec/src/framed.rs\<close> with their limit of 1024
    bytes, and the cached self record.

  \<^bold>\<open>What is shown.\<close> Saturating arithmetic keeps signs; the thresholds are ordered when
  the mark-up fits an \<^verbatim>\<open>i64\<close>, and are not above that; prices are exact or saturated.
  Reservation counters equal what is open. An admitted receive respects the disconnect
  line at the time it is admitted. Time-based credit stays within the refresh rate over
  whole runs and every request is answered once. Cheques are credited only when
  authenticated and within the exposure limit, and the payouts we send increase.
  The tables of the reserve agree with each other in every reachable state, and no
  sequence number of a bin is used twice. A put is followed by a get of the same chunk,
  a failed put changes nothing that can be read, a slot holds the newest stamp, each
  eviction removes exactly the entries it names, and a tick of the radius controller ends
  within capacity or at the deepest bin with each bin it passed emptied up to the maximum
  per call; what a call leaves in such a bin is not shed by a later tick.
  A key of the rate limiter is granted at most its capacity plus the refill, and one more
  capacity each time it is cleared; parked requests leave in order, and the first one of a
  key exactly when the wait it was given is over. In any history of the registry the
  identity a peer resolves to resolves back to it and the active counter is exact; the
  pending counter runs ahead by the entries that inbound connections overwrote. In orderly
  histories nothing is overwritten and peers and identities are one to one. The index, the
  peer set and the score distribution of the peer manager agree in every reachable state,
  and every ban in force was announced, while an announced ban may have been lifted
  silently; admission replaces the worst disconnected record, gossip never replaces a newer
  record, a restart restores the verified peers, and a failed dial keeps a peer back for a
  bounded time. A record that a node signs survives its byte form, what gossip and the
  handshake accept is signed by the key its overlay is derived from, and two sound sides
  that admit each other and whose frames fit complete the handshake. The target of a bin
  and its trim floor bracket what dialling adds, and the phase follows the history of depth
  observations.

  \<^bold>\<open>Assumptions and limits.\<close> A step is one whole operation, so the safety properties
  of accounting assume that the prepare calls on one peer do not overlap, and that
  thresholds and settled totals together stay below the largest \<^verbatim>\<open>i64\<close>. Two lemmas
  mark these limits: overlapping prepare calls, and a settlement recorded while a
  reservation is open, can each leave a debt past the disconnect line. The bound over
  whole runs therefore adds the settled totals to the threshold. The rate bound of
  pseudosettle assumes that no handler straddles a second; a lemma shows the excess
  when one does. The stamp and chunk library is the record \<open>postage_lib\<close> and the reserve's
  environment; \<open>stamps_sound\<close> and \<open>setters_keep_id\<close> name what is used of it and
  concrete instances satisfy them. \<open>stamps_sound\<close> asks that the hash of a stamp determines
  it, which idealises a collision-resistant hash: the type of stamps is a parameter, to be
  read as the stamps that ever reach the node, among which the hash does not collide. A put step of the reserve supposes fewer entries than
  the largest \<^verbatim>\<open>u64\<close>. A transaction either commits or leaves the tables unchanged; a
  backend that fails inside one is not modelled.

  The insertion-ordered set and the proximity of two addresses are the record
  \<open>overlay_lib\<close> with the laws \<open>overlay_laws\<close>; arithmetic on doubles is the record
  \<open>float_ops\<close>, of which no law is used, and scores are linearly ordered, so a score that is
  not a number is not modelled. A change of the index supposes that its generation has not
  used up 64 bits. An operation of the peer manager reads the clock once.

  Network addresses, signatures and the hash behind an overlay are the record \<open>peer_lib\<close>
  with the laws \<open>peer_lib_laws\<close>, the cache of checked records is \<open>lru_lib\<close> with \<open>lru_laws\<close>,
  and the codec of frames is \<open>frame_lib\<close> with \<open>frame_laws\<close>; each has a concrete instance.
  Completion of the handshake assumes that messages arrive as sent; what a completed side
  holds is shown for any messages. The parked request that comes out on time is the first of
  its key, with nothing else happening to the throttle meanwhile. The windows of the rate
  bounds end a capacity below the 64-bit range of the clock.

  \<^bold>\<open>Not modelled.\<close> The routing table, the dial candidates and the behaviour of
  \<^verbatim>\<open>topology\<close>, the puller, the dialer and the wire protocols other than the handshake and
  the gossip intake: state machines driven by a transport library. Transport, process
  wiring, metrics, generated bindings and the storage backends are input/output around
  libraries outside the repository.
\<close>

end
